(* ===== verification/Vaios_Prelude.thy ===== *)
theory Vaios_Prelude
  imports Main "HOL-Library.Word"
begin

text \<open>
  Shared vocabulary of the development: machine integers, byte buffers, circular
  buffers and doubly linked lists.

  \<^item> \<open>u8\<close> is a byte, \<open>u32\<close> reduces a natural number the way a C \<open>uint32_t\<close> or (on the
    32-bit target) a \<open>size_t\<close> does, \<open>u32_sub\<close> is the subtraction of such values.
  \<^item> \<open>memcpy_into\<close> is what a \<open>memcpy\<close> into the middle of an array does to the array.
  \<^item> \<open>ring_write\<close> and \<open>ring_view\<close> describe circular byte buffers.
  \<^item> \<open>dll\<close> describes a doubly linked list laid out over \<open>next\<close>/\<open>prev\<close> fields.
\<close>

unbundle bit_operations_syntax

named_theorems ring_simps \<open>rewriting rules for circular buffers\<close>
named_theorems dll_simps \<open>rewriting rules for doubly linked list segments\<close>

section \<open>Machine integers\<close>

type_synonym u8 = "8 word"
type_synonym u32w = "32 word"

definition u32 :: "nat \<Rightarrow> nat" where
  "u32 n = n mod 2 ^ 32"

definition u32_sub :: "nat \<Rightarrow> nat \<Rightarrow> nat" where
  "u32_sub a b = u32 (a + 2 ^ 32 - u32 b)"

lemma u32_id [simp]: "n < 2 ^ 32 \<Longrightarrow> u32 n = n"
  by (simp add: u32_def)

lemma u32_less [simp]: "u32 n < 2 ^ 32"
  by (simp add: u32_def)

lemma u32_u32 [simp]: "u32 (u32 n) = u32 n"
  by (simp add: u32_def)

lemma u32_le: "u32 n \<le> n"
  by (simp add: u32_def)

lemma u32_sub_ge [simp]:
  assumes "b \<le> a" "a < 2 ^ 32"
  shows "u32_sub a b = a - b"
proof -
  obtain k where k: "a = b + k" using assms(1) le_Suc_ex by blast
  have "u32 b = b" using assms by simp
  then show ?thesis using assms by (simp add: u32_sub_def u32_def k)
qed

text \<open>
  \<open>x & ~m\<close> on 32-bit values; with a mask \<open>2 ^ k - 1\<close> it rounds down to a multiple of
  \<open>2 ^ k\<close>, which is how the sources align sizes and addresses.
\<close>

definition and_not_u32 :: "nat \<Rightarrow> nat \<Rightarrow> nat" where
  "and_not_u32 x m = unat ((of_nat x :: u32w) AND NOT (of_nat m))"

lemma word_and_not_mask:
  "(w :: 'a :: len word) AND NOT (mask k) = push_bit k (drop_bit k w)"
  by (rule bit_word_eqI)
    (auto simp: bit_and_iff bit_not_iff bit_mask_iff bit_push_bit_iff bit_drop_bit_eq)

lemma and_not_u32_pow2:
  assumes "k < 32"
  shows "and_not_u32 x (2 ^ k - 1) = u32 x div 2 ^ k * 2 ^ k"
proof -
  have m: "(of_nat (2 ^ k - 1) :: u32w) = mask k"
    by (simp add: mask_eq_exp_minus_1 of_nat_diff)
  have d: "unat (drop_bit k (of_nat x :: u32w)) = u32 x div 2 ^ k"
    by (subst unat_drop_bit_eq) (simp add: drop_bit_eq_div unat_of_nat u32_def)
  have "u32 x div 2 ^ k * 2 ^ k < 2 ^ 32"
    by (rule le_less_trans [OF div_times_less_eq_dividend u32_less])
  moreover have "unat (push_bit k (drop_bit k (of_nat x :: u32w))) =
      take_bit 32 (push_bit k (unat (drop_bit k (of_nat x :: u32w))))"
    by (simp add: unsigned_push_bit_eq)
  ultimately show ?thesis
    unfolding and_not_u32_def m word_and_not_mask d
    by (simp add: push_bit_eq_mult take_bit_eq_mod)
qed

lemma and_not_u32_7: "and_not_u32 x 7 = u32 x div 8 * 8"
  using and_not_u32_pow2 [of 3 x] by simp

text \<open>
  The two bit scans the sources use: the index of the most significant set bit
  (\<open>31 - __builtin_clz(x)\<close>) and of the least significant one (\<open>__builtin_ctz(x)\<close>). Both
  builtins are undefined at 0; the functions below return 0 there.
\<close>

fun bit_fls :: "nat \<Rightarrow> nat" where
  "bit_fls n = (if n \<le> 1 then 0 else Suc (bit_fls (n div 2)))"

fun bit_ffs :: "nat \<Rightarrow> nat" where
  "bit_ffs n = (if n = 0 \<or> odd n then 0 else Suc (bit_ffs (n div 2)))"

declare bit_fls.simps [simp del] bit_ffs.simps [simp del]

lemma bit_fls_bounds: "0 < n \<Longrightarrow> 2 ^ bit_fls n \<le> n \<and> n < 2 ^ Suc (bit_fls n)"
proof (induction n rule: bit_fls.induct)
  case (1 n)
  show ?case
  proof (cases "n \<le> 1")
    case True
    then show ?thesis using "1.prems" by (simp add: bit_fls.simps [of n])
  next
    case False
    then have "2 ^ bit_fls (n div 2) \<le> n div 2" "n div 2 < 2 ^ Suc (bit_fls (n div 2))"
      using "1.IH" by auto
    moreover have "bit_fls n = Suc (bit_fls (n div 2))" using False by (simp add: bit_fls.simps [of n])
    ultimately show ?thesis by simp linarith
  qed
qed

lemma bit_fls_unique:
  assumes "2 ^ k \<le> n" "n < 2 ^ Suc k"
  shows "bit_fls n = k"
proof -
  have n: "0 < n" using assms(1) by (metis gr0I not_le power_not_zero zero_less_numeral
        zero_less_power)
  note b = bit_fls_bounds [OF n]
  have "(2 :: nat) ^ bit_fls n < 2 ^ Suc k" "(2 :: nat) ^ k < 2 ^ Suc (bit_fls n)"
    using b assms by linarith+
  then have "bit_fls n < Suc k" "k < Suc (bit_fls n)"
    by (simp_all only: power_strict_increasing_iff [of "2 :: nat"])
  then show ?thesis by simp
qed

lemma bit_ffs_bit: "0 < n \<Longrightarrow> bit n (bit_ffs n) \<and> (\<forall>j < bit_ffs n. \<not> bit n j)"
proof (induction n rule: bit_ffs.induct)
  case (1 n)
  show ?case
  proof (cases "odd n")
    case True
    then show ?thesis by (simp add: bit_ffs.simps [of n] bit_0)
  next
    case False
    then have ev: "n = 2 * (n div 2)" and "0 < n div 2" using "1.prems" by auto
    then have IH: "bit (n div 2) (bit_ffs (n div 2))" "\<forall>j < bit_ffs (n div 2). \<not> bit (n div 2) j"
      using "1.IH" "1.prems" False by auto
    have f: "bit_ffs n = Suc (bit_ffs (n div 2))"
      using False "1.prems" by (simp add: bit_ffs.simps [of n])
    have "\<not> bit n j" if "j < bit_ffs n" for j
    proof (cases j)
      case 0
      then show ?thesis using False by (simp add: bit_0)
    next
      case (Suc i)
      then show ?thesis using IH(2) that f by (simp add: bit_Suc)
    qed
    then show ?thesis using IH(1) f by (simp add: bit_Suc)
  qed
qed

lemma unat_bit: "bit (unat (w :: 'a :: len word)) n = bit w n"
  by (simp add: bit_unsigned_iff)

lemma word_ffs:
  assumes "(w :: 'a :: len word) \<noteq> 0"
  shows "bit w (bit_ffs (unat w))" "j < bit_ffs (unat w) \<Longrightarrow> \<not> bit w j"
  using bit_ffs_bit [of "unat w"] assms by (auto simp: unat_bit unat_gt_0)

lemma word_fls:
  assumes "(w :: 'a :: len word) \<noteq> 0"
  shows "bit w (bit_fls (unat w))" "bit w j \<Longrightarrow> j \<le> bit_fls (unat w)"
proof -
  have "0 < unat w" using assms by (simp add: unat_gt_0)
  note b = bit_fls_bounds [OF this]
  have "unat w div 2 ^ bit_fls (unat w) = 1"
    using b by (intro div_nat_eqI) simp_all
  then have "bit (unat w) (bit_fls (unat w))" by (simp add: bit_iff_odd)
  then show "bit w (bit_fls (unat w))" by (simp add: unat_bit)
  show "j \<le> bit_fls (unat w)" if "bit w j"
  proof (rule ccontr)
    assume "\<not> j \<le> bit_fls (unat w)"
    then have "(2 :: nat) ^ Suc (bit_fls (unat w)) \<le> 2 ^ j" by (intro power_increasing) auto
    then have "unat w div 2 ^ j = 0" using b by simp
    then have "\<not> bit (unat w) j" by (simp add: bit_iff_odd)
    then show False using that by (simp add: unat_bit)
  qed
qed

lemma pow2_test:
  assumes "0 < (n :: nat)" "n AND (n - 1) = 0"
  shows "\<exists>k. n = 2 ^ k"
  using assms
proof (induction n rule: less_induct)
  case (less n)
  show ?case
  proof (cases "even n")
    case True
    then obtain m where m: "n = 2 * m" by blast
    then have m0: "0 < m" using less.prems(1) by simp
    have "(2 * m) AND (2 * m - 1) = 2 * (m AND (m - 1))"
    proof -
      obtain j where j: "m = Suc j" using m0 by (cases m) auto
      have "2 * m - 1 = 1 + 2 * j" using j by simp
      moreover have "(2 * m) AND (1 + 2 * j) = 2 * (m AND j)"
        by (simp add: and_nat_rec [of "2 * m"])
      ultimately show ?thesis using j by simp
    qed
    with less.prems(2) m have "m AND (m - 1) = 0" by simp
    with less.IH [of m] m m0 obtain k where "m = 2 ^ k" by auto
    then have "n = 2 ^ Suc k" using m by simp
    then show ?thesis by blast
  next
    case False
    then obtain m where m: "n = 2 * m + 1" by (blast elim: oddE)
    have "n AND (n - 1) = 2 * m"
    proof -
      have "Suc (2 * m) AND (2 * m) = 2 * (m AND m)"
        by (simp add: and_nat_rec [of "Suc (2 * m)"])
      then show ?thesis using m by simp
    qed
    with less.prems(2) have "m = 0" by simp
    then have "n = 2 ^ 0" using m by simp
    then show ?thesis by blast
  qed
qed

section \<open>Byte buffers\<close>

definition memcpy_into :: "'a list \<Rightarrow> nat \<Rightarrow> 'a list \<Rightarrow> 'a list" where
  "memcpy_into dst off src = take off dst @ src @ drop (off + length src) dst"

definition bytes_at :: "'a list \<Rightarrow> nat \<Rightarrow> nat \<Rightarrow> 'a list" where
  "bytes_at src off n = take n (drop off src)"

lemma length_memcpy_into [simp]:
  "off + length src \<le> length dst \<Longrightarrow> length (memcpy_into dst off src) = length dst"
  by (simp add: memcpy_into_def)

lemma nth_memcpy_into:
  assumes "off + length src \<le> length dst" "i < length dst"
  shows "memcpy_into dst off src ! i =
    (if off \<le> i \<and> i < off + length src then src ! (i - off) else dst ! i)"
proof -
  have "min (length dst) off = off" using assms by simp
  then show ?thesis using assms
    by (auto simp: memcpy_into_def nth_append min_def intro!: arg_cong [where f = "(!) dst"])
qed

lemma length_bytes_at [simp]: "off + n \<le> length src \<Longrightarrow> length (bytes_at src off n) = n"
  by (simp add: bytes_at_def)

lemma nth_bytes_at [simp]:
  "off + n \<le> length src \<Longrightarrow> i < n \<Longrightarrow> bytes_at src off n ! i = src ! (off + i)"
  by (simp add: bytes_at_def)

section \<open>Circular buffers\<close>

text \<open>
  A circular buffer is a list of fixed length. \<open>ring_write b h d\<close> writes the list \<open>d\<close>
  from index \<open>h\<close> on, in one or two pieces; \<open>ring_view b t n\<close> reads \<open>n\<close> places from
  index \<open>t\<close> on, wrapping around.
\<close>

definition ring_write :: "'a list \<Rightarrow> nat \<Rightarrow> 'a list \<Rightarrow> 'a list" where
  "ring_write b h d =
     (let to_end = length b - h in
      if length d \<le> to_end then memcpy_into b h d
      else memcpy_into (memcpy_into b h (take to_end d)) 0 (drop to_end d))"

definition ring_view :: "'a list \<Rightarrow> nat \<Rightarrow> nat \<Rightarrow> 'a list" where
  "ring_view b t n = take n (rotate t b)"

lemma length_ring_write [simp]:
  "h < length b \<Longrightarrow> length d \<le> length b \<Longrightarrow> length (ring_write b h d) = length b"
  by (simp add: ring_write_def Let_def)

lemma length_ring_view [simp]: "n \<le> length b \<Longrightarrow> length (ring_view b t n) = n"
  by (simp add: ring_view_def)

lemma nth_ring_view:
  "n \<le> length b \<Longrightarrow> i < n \<Longrightarrow> ring_view b t n ! i = b ! ((t + i) mod length b)"
  by (simp add: ring_view_def nth_rotate)

lemma nth_ring_write:
  assumes h: "h < length b" and d: "length d \<le> length b" and i: "i < length b"
  shows "ring_write b h d ! i =
    (let j = (i + (length b - h)) mod length b in if j < length d then d ! j else b ! i)"
proof -
  have j: "(i + (length b - h)) mod length b =
      (if h \<le> i then i - h else i + (length b - h))"
  proof (cases "h \<le> i")
    case True
    then obtain k where k: "i = h + k" using le_Suc_ex by blast
    have "i + (length b - h) = length b + k" using h k by simp
    then show ?thesis using True i k by simp
  next
    case False
    then show ?thesis using h i by simp
  qed
  show ?thesis
    unfolding ring_write_def Let_def j
    using assms by (auto simp: nth_memcpy_into add.commute)
qed

lemma mod_dist:
  fixes t i u N :: nat
  assumes "t < N" "i < N" "u < N"
  shows "((t + i) mod N + (N - (t + u) mod N)) mod N = (i + (N - u)) mod N"
proof -
  have t: "(t + i) mod N = (if t + i < N then t + i else t + i - N)"
    using assms by (simp add: mod_if)
  have u: "(t + u) mod N = (if t + u < N then t + u else t + u - N)"
    using assms by (simp add: mod_if)
  have "(t + i) mod N + (N - (t + u) mod N) = i + (N - u)
    \<or> (t + i) mod N + (N - (t + u) mod N) = i + (N - u) + N
    \<or> (t + i) mod N + (N - (t + u) mod N) + N = i + (N - u)"
    using assms unfolding t u by (simp split: if_splits; arith)
  then show ?thesis by (metis mod_add_self2)
qed

text \<open>
  Appending at the write index: a ring that holds \<open>u\<close> places from \<open>t\<close> on holds
  \<open>u + length d\<close> of them after \<open>d\<close> is written at index \<open>t + u\<close>.
\<close>

lemma ring_view_write:
  assumes t: "t < length b" and fit: "u + length d \<le> length b" and u: "u < length b"
  shows "ring_view (ring_write b ((t + u) mod length b) d) t (u + length d) =
    ring_view b t u @ d"
proof (rule nth_equalityI)
  have h: "(t + u) mod length b < length b"
    using t by (intro mod_less_divisor) linarith
  have dl: "length d \<le> length b" using fit by simp
  note len = length_ring_write [OF h dl]
  show "length (ring_view (ring_write b ((t + u) mod length b) d) t (u + length d)) =
      length (ring_view b t u @ d)"
    using fit len by simp
  fix i
  assume "i < length (ring_view (ring_write b ((t + u) mod length b) d) t (u + length d))"
  then have i: "i < u + length d" using fit len by simp
  have iN: "i < length b" using i fit by simp
  have im: "(t + i) mod length b < length b"
    using t by (intro mod_less_divisor) linarith
  have "ring_view (ring_write b ((t + u) mod length b) d) t (u + length d) ! i =
      ring_write b ((t + u) mod length b) d ! ((t + i) mod length b)"
    using i fit len by (simp add: nth_ring_view)
  also have "\<dots> = (let j = (i + (length b - u)) mod length b
      in if j < length d then d ! j else b ! ((t + i) mod length b))"
    using nth_ring_write [OF h dl im] mod_dist [OF t iN u] by simp
  also have "\<dots> = (ring_view b t u @ d) ! i"
  proof (cases "i < u")
    case True
    then have "(i + (length b - u)) mod length b = i + (length b - u)"
      using u by simp
    moreover have "\<not> i + (length b - u) < length d" using fit by simp
    ultimately show ?thesis using True fit by (simp add: nth_append nth_ring_view)
  next
    case False
    then obtain k where k: "i = u + k" using le_Suc_ex not_less by blast
    have "i + (length b - u) = length b + k" using u k by simp
    then have "(i + (length b - u)) mod length b = k" using iN k by simp
    moreover have "k < length d" using k i by simp
    ultimately show ?thesis using k fit by (simp add: nth_append)
  qed
  finally show "ring_view (ring_write b ((t + u) mod length b) d) t (u + length d) ! i =
      (ring_view b t u @ d) ! i" .
qed

lemma ring_view_split:
  assumes "n \<le> u" "u \<le> length b"
  shows "ring_view b t u = ring_view b t n @ ring_view b ((t + n) mod length b) (u - n)"
proof (rule nth_equalityI)
  show "length (ring_view b t u) =
      length (ring_view b t n @ ring_view b ((t + n) mod length b) (u - n))"
    using assms by simp
  fix i
  assume "i < length (ring_view b t u)"
  then have i: "i < u" using assms by simp
  show "ring_view b t u ! i =
      (ring_view b t n @ ring_view b ((t + n) mod length b) (u - n)) ! i"
  proof (cases "i < n")
    case True
    then show ?thesis using assms by (simp add: nth_append nth_ring_view)
  next
    case False
    then obtain k where k: "i = n + k" using le_Suc_ex not_less by blast
    have "((t + n) mod length b + k) mod length b = (t + i) mod length b"
      by (simp add: mod_add_left_eq k add.assoc)
    then show ?thesis using False assms i k by (simp add: nth_append nth_ring_view)
  qed
qed

text \<open>The two-piece read of a circular buffer is \<open>ring_view\<close>.\<close>

lemma ring_view_Cons:
  assumes "t < length b" "0 < n" "n \<le> length b"
  shows "ring_view b t n = b ! t # ring_view b ((t + 1) mod length b) (n - 1)"
proof -
  have "ring_view b t 1 = [b ! t]" using assms by (intro nth_equalityI) (auto simp: nth_ring_view)
  then show ?thesis using ring_view_split [of 1 n b t] assms by simp
qed

lemma ring_write_one: "h < length b \<Longrightarrow> ring_write b h [x] = b[h := x]"
  by (auto simp: ring_write_def Let_def memcpy_into_def upd_conv_take_nth_drop)

lemma ring_view_pieces:
  assumes "t < length b" "n \<le> length b"
  shows "ring_view b t n =
    (if n \<le> length b - t then bytes_at b t n
     else bytes_at b t (length b - t) @ bytes_at b 0 (n - (length b - t)))"
proof -
  have "rotate t b = drop t b @ take t b"
    using assms by (simp add: rotate_drop_take)
  moreover have "min (n - (length b - t)) t = n - (length b - t)"
    using assms by simp
  ultimately show ?thesis using assms by (simp add: ring_view_def bytes_at_def)
qed


section \<open>Doubly linked lists\<close>

text \<open>
  Pointers are natural numbers, NULL is 0. \<open>nx\<close> and \<open>pv\<close> are the two link fields.
  \<open>dseg nx pv p x xs q y\<close>: starting at \<open>x\<close>, whose predecessor is \<open>p\<close>, the nodes \<open>xs\<close>
  follow each other in both directions; \<open>q\<close> is the last node and \<open>y\<close> what comes after it.
  \<open>dll nx pv fp xs lp\<close> is a whole NULL-terminated list with its head and tail pointers.
\<close>

fun dseg :: "(nat \<Rightarrow> nat) \<Rightarrow> (nat \<Rightarrow> nat) \<Rightarrow> nat \<Rightarrow> nat \<Rightarrow> nat list \<Rightarrow> nat \<Rightarrow> nat \<Rightarrow> bool" where
  "dseg nx pv p x [] q y = (x = y \<and> p = q)"
| "dseg nx pv p x (b # bs) q y = (x = b \<and> b \<noteq> 0 \<and> pv b = p \<and> dseg nx pv b (nx b) bs q y)"

definition dll :: "(nat \<Rightarrow> nat) \<Rightarrow> (nat \<Rightarrow> nat) \<Rightarrow> nat \<Rightarrow> nat list \<Rightarrow> nat \<Rightarrow> bool" where
  "dll nx pv fp xs lp \<longleftrightarrow> dseg nx pv 0 fp xs lp 0"

lemma dseg_append [dll_simps]:
  "dseg nx pv p x (xs @ ys) q z \<longleftrightarrow> (\<exists>r y. dseg nx pv p x xs r y \<and> dseg nx pv r y ys q z)"
  by (induction xs arbitrary: p x) auto

lemma dseg_cong:
  "(\<And>b. b \<in> set xs \<Longrightarrow> nx' b = nx b \<and> pv' b = pv b) \<Longrightarrow>
     dseg nx' pv' p x xs q y = dseg nx pv p x xs q y"
  by (induction xs arbitrary: p x) auto

lemma dseg_not_null: "dseg nx pv p x xs q y \<Longrightarrow> 0 \<notin> set xs"
  by (induction xs arbitrary: p x) auto

lemma dseg_ends:
  "dseg nx pv p x xs q y \<Longrightarrow> x = (case xs of [] \<Rightarrow> y | b # _ \<Rightarrow> b) \<and> q = last (p # xs)"
  by (induction xs arbitrary: p x) (auto split: list.splits)

lemma dseg_retarget_prev:
  assumes "dseg nx pv p x xs q y" "distinct xs"
    and "\<And>b. b \<in> set xs \<Longrightarrow> nx' b = nx b"
    and "\<And>b. b \<in> set xs \<Longrightarrow> b \<noteq> x \<Longrightarrow> pv' b = pv b"
    and "xs \<noteq> [] \<Longrightarrow> pv' x = p'"
  shows "dseg nx' pv' p' x xs (if xs = [] then p' else q) y"
proof (cases xs)
  case Nil
  then show ?thesis using assms by simp
next
  case (Cons b bs)
  then have "dseg nx' pv' b (nx b) bs q y = dseg nx pv b (nx b) bs q y"
    using assms by (intro dseg_cong) auto
  then show ?thesis using assms Cons by auto
qed

lemma dseg_retarget_next:
  assumes "dseg nx pv p x xs q y" "distinct xs"
    and "\<And>b. b \<in> set xs \<Longrightarrow> pv' b = pv b"
    and "\<And>b. b \<in> set xs \<Longrightarrow> b \<noteq> q \<Longrightarrow> nx' b = nx b"
    and "xs \<noteq> [] \<Longrightarrow> nx' q = y'"
  shows "dseg nx' pv' p (if xs = [] then y' else x) xs q y'"
proof (cases xs rule: rev_cases)
  case Nil
  then show ?thesis using assms by simp
next
  case (snoc bs b)
  then have q: "q = b" using assms(1) dseg_ends by fastforce
  obtain r where r: "dseg nx pv p x bs r b" "pv b = r" "b \<noteq> 0"
    using assms(1) snoc q by (auto simp: dll_simps)
  have "dseg nx' pv' p x bs r b = dseg nx pv p x bs r b"
    using assms snoc q by (intro dseg_cong) auto
  then show ?thesis using assms snoc q r by (auto simp: dll_simps)
qed

lemma dll_not_null: "dll nx pv fp xs lp \<Longrightarrow> 0 \<notin> set xs"
  by (simp add: dll_def dseg_not_null)

lemma dll_cong:
  "(\<And>b. b \<in> set xs \<Longrightarrow> nx' b = nx b \<and> pv' b = pv b) \<Longrightarrow> dll nx' pv' fp xs lp = dll nx pv fp xs lp"
  unfolding dll_def by (rule dseg_cong)

lemma dll_Nil [simp]: "dll nx pv fp [] lp \<longleftrightarrow> fp = 0 \<and> lp = 0"
  by (auto simp: dll_def)

lemma dll_hd: "dll nx pv fp xs lp \<Longrightarrow> fp = (case xs of [] \<Rightarrow> 0 | b # _ \<Rightarrow> b)"
  by (auto simp: dll_def dest: dseg_ends split: list.splits)

lemma dll_tl: "dll nx pv fp xs lp \<Longrightarrow> lp = last (0 # xs)"
  by (auto simp: dll_def dest: dseg_ends)

lemma dll_empty_iff: "dll nx pv fp xs lp \<Longrightarrow> fp = 0 \<longleftrightarrow> xs = []"
  using dll_hd [of nx pv fp xs lp] dll_not_null [of nx pv fp xs lp] by (auto split: list.splits)

lemma dll_neighbours:
  assumes "dll nx pv fp (xs @ b # ys) lp" "distinct (xs @ b # ys)"
  shows "pv b \<noteq> 0 \<Longrightarrow> pv b \<in> set xs" "nx b \<noteq> 0 \<Longrightarrow> nx b \<in> set ys" "pv b \<noteq> b" "nx b \<noteq> b"
proof -
  from assms(1) have l: "dseg nx pv 0 fp xs (pv b) b" and b: "b \<noteq> 0"
    and r: "dseg nx pv b (nx b) ys lp 0"
    by (auto simp: dll_def dll_simps)
  show p: "pv b \<noteq> 0 \<Longrightarrow> pv b \<in> set xs"
    using dseg_ends [OF l] by (auto split: if_splits)
  show n: "nx b \<noteq> 0 \<Longrightarrow> nx b \<in> set ys"
    using dseg_ends [OF r] by (auto split: list.splits)
  show "pv b \<noteq> b" "nx b \<noteq> b" using p n b assms(2) by auto
qed

text \<open>Induction along a NULL-terminated list, for loops that follow \<open>nx\<close>.\<close>

lemma dseg_walk_induct [consumes 1, case_names Nil Cons]:
  assumes "dseg nx pv p x xs q 0"
    and "P 0 []"
    and "\<And>a as. a \<noteq> 0 \<Longrightarrow> P (nx a) as \<Longrightarrow> P a (a # as)"
  shows "P x xs"
  using assms(1)
proof (induction xs arbitrary: p x)
  case Nil
  then show ?case using assms(2) by simp
next
  case (Cons a as)
  then show ?case using assms(3) by auto
qed

text \<open>Pushing at the front, appending at the back, unlinking from anywhere.\<close>

lemma dll_push:
  assumes "dll nx pv fp xs lp" "distinct xs" "b \<noteq> 0" "b \<notin> set xs"
    and "nx' b = fp" "pv' b = 0" "fp \<noteq> 0 \<Longrightarrow> pv' fp = b"
    and "\<And>c. c \<in> set xs \<Longrightarrow> nx' c = nx c"
    and "\<And>c. c \<in> set xs \<Longrightarrow> c \<noteq> fp \<Longrightarrow> pv' c = pv c"
  shows "dll nx' pv' b (b # xs) (if xs = [] then b else lp)"
proof -
  have "xs \<noteq> [] \<Longrightarrow> pv' fp = b" using assms(7) dll_empty_iff [OF assms(1)] by simp
  then have "dseg nx' pv' b fp xs (if xs = [] then b else lp) 0"
    using assms by (intro dseg_retarget_prev [of nx pv 0 fp xs lp 0]) (auto simp: dll_def)
  then show ?thesis using assms by (simp add: dll_def)
qed

lemma dll_snoc:
  assumes "dll nx pv fp xs lp" "distinct xs" "b \<noteq> 0" "b \<notin> set xs"
    and "nx' b = 0" "pv' b = lp" "xs \<noteq> [] \<Longrightarrow> nx' lp = b"
    and "\<And>c. c \<in> set xs \<Longrightarrow> pv' c = pv c"
    and "\<And>c. c \<in> set xs \<Longrightarrow> c \<noteq> lp \<Longrightarrow> nx' c = nx c"
  shows "dll nx' pv' (if xs = [] then b else fp) (xs @ [b]) b"
proof -
  have "dseg nx' pv' 0 (if xs = [] then b else fp) xs lp b"
    using assms by (intro dseg_retarget_next [of nx pv 0 fp xs lp 0]) (auto simp: dll_def)
  then show ?thesis using assms by (auto simp: dll_def dll_simps)
qed

lemma dll_unlink:
  assumes "dll nx pv fp (xs @ b # ys) lp" "distinct (xs @ b # ys)"
    and "\<And>c. c \<in> set xs \<union> set ys \<Longrightarrow> c \<noteq> pv b \<Longrightarrow> nx' c = nx c"
    and "\<And>c. c \<in> set xs \<union> set ys \<Longrightarrow> c \<noteq> nx b \<Longrightarrow> pv' c = pv c"
    and "pv b \<noteq> 0 \<Longrightarrow> nx' (pv b) = nx b" "nx b \<noteq> 0 \<Longrightarrow> pv' (nx b) = pv b"
  shows "dll nx' pv' (if pv b \<noteq> 0 then fp else nx b) (xs @ ys) (if nx b \<noteq> 0 then lp else pv b)"
proof -
  from assms(1) have l: "dseg nx pv 0 fp xs (pv b) b" and b: "b \<noteq> 0"
    and r: "dseg nx pv b (nx b) ys lp 0"
    by (auto simp: dll_def dll_simps)
  have pxs: "pv b = last (0 # xs)" and nys: "nx b = (case ys of [] \<Rightarrow> 0 | c # _ \<Rightarrow> c)"
    using dseg_ends [OF l] dseg_ends [OF r] by auto
  have p0: "pv b \<noteq> 0 \<longleftrightarrow> xs \<noteq> []" "xs \<noteq> [] \<Longrightarrow> pv b \<in> set xs"
    using pxs dseg_not_null [OF l] by (auto split: if_splits) (metis gr0I last_in_set)
  have n0: "nx b \<noteq> 0 \<longleftrightarrow> ys \<noteq> []" "ys \<noteq> [] \<Longrightarrow> nx b \<in> set ys"
    using nys dseg_not_null [OF r] by (auto split: list.splits)
  have "dseg nx' pv' 0 (if xs = [] then nx b else fp) xs (pv b) (nx b)"
  proof (rule dseg_retarget_next [OF l])
    show "distinct xs" using assms(2) by simp
    show "pv' c = pv c" if "c \<in> set xs" for c
      using that assms(2,4) n0 dseg_not_null [OF l] by (cases "c = nx b") auto
    show "nx' c = nx c" if "c \<in> set xs" "c \<noteq> pv b" for c using that assms(3) by simp
    show "nx' (pv b) = nx b" if "xs \<noteq> []" using that p0 assms(5) by simp
  qed
  moreover have "dseg nx' pv' (pv b) (nx b) ys (if ys = [] then pv b else lp) 0"
  proof (rule dseg_retarget_prev [OF r])
    show "distinct ys" using assms(2) by simp
    show "nx' c = nx c" if "c \<in> set ys" for c
      using that assms(2,3) p0 dseg_not_null [OF r] by (cases "c = pv b") auto
    show "pv' c = pv c" if "c \<in> set ys" "c \<noteq> nx b" for c using that assms(4) by simp
    show "pv' (nx b) = pv b" if "ys \<noteq> []" using that n0 assms(6) by simp
  qed
  ultimately show ?thesis
    unfolding dll_def dseg_append p0(1) n0(1) by (cases "xs = []"; cases "ys = []") auto
qed

end
