(* ===== verification/Spsc_Fifo.thy ===== *)
theory Spsc_Fifo
  imports Vaios_Prelude
begin

text \<open>
  The single-producer single-consumer FIFO of \<open>kernel/structure.c\<close> (lines 1 to 330) and
  \<open>include/structure.h\<close>, built with \<open>VAIOS_MODULE_PERF\<close> (the Kconfig default).

  The descriptor \<open>spsc_fifo_t\<close> is a record; \<open>sf_store\<close> holds the bytes \<open>f->buffer\<close>
  points at. A C pointer that the code tests against NULL is an \<open>option\<close>. Sizes are
  natural numbers; where a sum or difference may leave the range of \<open>size_t\<close> the
  wrap-around is written out with \<open>u32\<close>. Memory barriers have no effect on a single
  sequential call and are left out.

  What is proved here: the descriptor checks keep every access inside the buffer even when
  \<open>head\<close> or \<open>tail\<close> are corrupted; on well-formed queues \<open>spsc_write\<close>, \<open>spsc_read\<close>,
  \<open>spsc_peek\<close> and \<open>spsc_skip\<close> implement an abstract bounded byte queue under both
  policies; the zero-copy calls do the same.
\<close>

unbundle bit_operations_syntax

section \<open>Definitions\<close>

datatype spsc_policy = SPSC_POLICY_DROP | SPSC_POLICY_OVERWRITE

record spsc_fifo =
  sf_buffer :: nat
  sf_store :: "u8 list"
  sf_capacity :: nat
  sf_elem_size :: nat
  sf_head :: nat
  sf_tail :: nat
  sf_policy :: spsc_policy
  sf_peak :: nat
  sf_drops :: u32w

definition spsc_descriptor_sane :: "spsc_fifo option \<Rightarrow> bool" where
  "spsc_descriptor_sane fp =
     (case fp of None \<Rightarrow> False
      | Some f \<Rightarrow> sf_buffer f \<noteq> 0 \<and>
          sf_capacity f > 0 \<and> sf_capacity f \<le> 4096 \<and>
          sf_elem_size f > 0 \<and> sf_elem_size f \<le> 4096)"

text \<open>
  \<open>spsc_init\<close>: \<open>addr\<close> and \<open>mem\<close> are the caller's buffer, its address and its bytes.
  An \<open>elem_size\<close> of 0 reaches a division by zero in the C code: \<open>None\<close>.
\<close>

definition spsc_init :: "nat \<Rightarrow> u8 list \<Rightarrow> nat \<Rightarrow> nat \<Rightarrow> spsc_fifo option" where
  "spsc_init addr mem cap es =
     (if es = 0 then None
      else
        let aligned_addr =
              (if es > 0 \<and> es AND (es - 1) = 0
               then and_not_u32 (addr + (es - 1)) (es - 1)
               else u32 (addr + es - 1) div es * es);
            offset = u32_sub aligned_addr addr;
            (buf, cap', store) =
              (if offset > 0 \<and> cap > 0
               then (aligned_addr, cap - 1, bytes_at mem offset ((cap - 1) * es))
               else (addr, cap, bytes_at mem 0 (cap * es)))
        in Some \<lparr>sf_buffer = buf, sf_store = store, sf_capacity = cap', sf_elem_size = es,
                 sf_head = 0, sf_tail = 0, sf_policy = SPSC_POLICY_DROP,
                 sf_peak = 0, sf_drops = 0\<rparr>)"

definition spsc_set_policy :: "spsc_fifo \<Rightarrow> spsc_policy \<Rightarrow> spsc_fifo" where
  "spsc_set_policy f p = f\<lparr>sf_policy := p\<rparr>"

text \<open>The defensive clamp of an index into \<open>[0, capacity)\<close> that the operations share.\<close>

definition spsc_clamp :: "spsc_fifo \<Rightarrow> nat \<Rightarrow> nat" where
  "spsc_clamp f i = (if i \<ge> sf_capacity f then i mod sf_capacity f else i)"

definition spsc_available :: "spsc_fifo option \<Rightarrow> nat" where
  "spsc_available fp =
     (if \<not> spsc_descriptor_sane fp then 0
      else
        let f = the fp;
            head = spsc_clamp f (sf_head f);
            tail = spsc_clamp f (sf_tail f)
        in if head \<ge> tail then head - tail else sf_capacity f - tail + head)"

definition spsc_space :: "spsc_fifo option \<Rightarrow> nat" where
  "spsc_space fp =
     (if \<not> spsc_descriptor_sane fp then 0
      else
        let f = the fp;
            head = spsc_clamp f (sf_head f);
            tail = spsc_clamp f (sf_tail f);
            free = (if head \<ge> tail then sf_capacity f - head + tail else tail - head)
        in if free > 0 then free - 1 else 0)"

definition spsc_skip :: "spsc_fifo option \<Rightarrow> nat \<Rightarrow> nat \<times> spsc_fifo option" where
  "spsc_skip fp count =
     (if \<not> spsc_descriptor_sane fp then (0, fp)
      else
        let f = the fp;
            avail = spsc_available fp;
            count = (if count > avail then avail else count);
            new_tail = u32 (sf_tail f + count) mod sf_capacity f
        in (count, Some (f\<lparr>sf_tail := new_tail\<rparr>)))"

text \<open>
  The first half of \<open>spsc_write\<close>: what the policy does to \<open>count\<close> and to the queue when
  the items do not fit.
\<close>

definition spsc_admit :: "spsc_fifo \<Rightarrow> nat \<Rightarrow> nat \<times> spsc_fifo" where
  "spsc_admit f count =
     (let avail = spsc_space (Some f) in
      if count > avail then
        (if sf_policy f = SPSC_POLICY_DROP then
           (avail, f\<lparr>sf_drops := sf_drops f + of_nat (count - avail)\<rparr>)
         else
           let to_overwrite = count - avail;
               to_overwrite =
                 (if to_overwrite \<ge> sf_capacity f then sf_capacity f - 1 else to_overwrite);
               f = f\<lparr>sf_drops := sf_drops f + of_nat to_overwrite\<rparr>;
               f = the (snd (spsc_skip (Some f) to_overwrite))
           in (if count \<ge> sf_capacity f then sf_capacity f - 1 else count, f))
      else (count, f))"

text \<open>
  The copy of \<open>spsc_write\<close>: one or two \<open>v_memcpy\<close> calls from the write index on. \<open>size_t\<close> is 32 bits
  wide: with an index at or above the capacity \<open>to_end\<close> wraps around, and the copy runs past the end
  of the buffer, which makes the store longer than \<open>capacity * elem_size\<close>.
\<close>

definition spsc_copy_in :: "spsc_fifo \<Rightarrow> nat \<Rightarrow> u8 list \<Rightarrow> nat \<Rightarrow> u8 list" where
  "spsc_copy_in f head items count =
     (let es = sf_elem_size f;
          buf = sf_store f;
          to_end = u32_sub (sf_capacity f) head
      in if count \<le> to_end
         then memcpy_into buf (u32 (head * es)) (bytes_at items 0 (u32 (count * es)))
         else memcpy_into (memcpy_into buf (u32 (head * es)) (bytes_at items 0 (u32 (to_end * es))))
                0 (bytes_at items (u32 (to_end * es)) (u32 ((count - to_end) * es))))"

definition spsc_note_peak :: "spsc_fifo \<Rightarrow> spsc_fifo" where
  "spsc_note_peak f =
     (let fill = spsc_available (Some f) in if fill > sf_peak f then f\<lparr>sf_peak := fill\<rparr> else f)"

definition spsc_write :: "spsc_fifo option \<Rightarrow> u8 list \<Rightarrow> nat \<Rightarrow> nat \<times> spsc_fifo option" where
  "spsc_write fp items count =
     (if count = 0 \<or> \<not> spsc_descriptor_sane fp then (0, fp)
      else
        let (count, f) = spsc_admit (the fp) count in
        if count = 0 then (0, Some f)
        else
          let head = spsc_clamp f (sf_head f);
              f = f\<lparr>sf_store := spsc_copy_in f head items count\<rparr>;
              new_head = (head + count) mod sf_capacity f;
              f = f\<lparr>sf_head := new_head\<rparr>
          in (count, Some (spsc_note_peak f)))"

text \<open>The copy of \<open>spsc_read\<close> and \<open>spsc_peek\<close>: the bytes that end up in \<open>out\<close>.\<close>

definition spsc_copy_out :: "spsc_fifo \<Rightarrow> nat \<Rightarrow> nat \<Rightarrow> u8 list" where
  "spsc_copy_out f tail count =
     (let es = sf_elem_size f;
          buf = sf_store f;
          to_end = u32_sub (sf_capacity f) tail
      in if count \<le> to_end
         then bytes_at buf (u32 (tail * es)) (u32 (count * es))
         else bytes_at buf (u32 (tail * es)) (u32 (to_end * es)) @ bytes_at buf 0 (u32 ((count - to_end) * es)))"

definition spsc_read :: "spsc_fifo option \<Rightarrow> nat \<Rightarrow> nat \<times> u8 list \<times> spsc_fifo option" where
  "spsc_read fp count =
     (if \<not> spsc_descriptor_sane fp then (0, [], fp)
      else
        let f = the fp;
            avail = spsc_available fp;
            count = (if count > avail then avail else count)
        in if count = 0 then (0, [], fp)
           else
             let tail = spsc_clamp f (sf_tail f);
                 out = spsc_copy_out f tail count;
                 new_tail = (tail + count) mod sf_capacity f
             in (count, out, Some (f\<lparr>sf_tail := new_tail\<rparr>)))"

definition spsc_peek :: "spsc_fifo option \<Rightarrow> nat \<Rightarrow> nat \<times> u8 list" where
  "spsc_peek fp count =
     (if \<not> spsc_descriptor_sane fp then (0, [])
      else
        let f = the fp;
            avail = spsc_available fp;
            count = (if count > avail then avail else count)
        in if count = 0 then (0, [])
           else (count, spsc_copy_out f (spsc_clamp f (sf_tail f)) count))"

definition spsc_reset :: "spsc_fifo \<Rightarrow> spsc_fifo" where
  "spsc_reset f = f\<lparr>sf_head := 0, sf_tail := 0\<rparr>"

text \<open>
  The zero-copy calls return a byte offset into the store in place of the pointer
  \<open>buffer + index * elem_size\<close>; \<open>None\<close> is NULL.
\<close>

definition spsc_write_ptr :: "spsc_fifo \<Rightarrow> nat \<times> nat option" where
  "spsc_write_ptr f =
     (let head = sf_head f;
          tail = sf_tail f;
          free =
            (if head \<ge> tail then
               (let free = u32_sub (sf_capacity f) head
                in if tail = 0 \<and> free > 0 then free - 1 else free)
             else tail - head - 1)
      in (free, if free = 0 then None else Some (head * sf_elem_size f)))"

definition spsc_commit_write :: "spsc_fifo \<Rightarrow> nat \<Rightarrow> spsc_fifo" where
  "spsc_commit_write f count =
     (if count = 0 then f
      else
        let new_head = u32 (sf_head f + count);
            new_head = (if new_head \<ge> sf_capacity f then new_head - sf_capacity f else new_head)
        in spsc_note_peak (f\<lparr>sf_head := new_head\<rparr>))"

definition spsc_peak :: "spsc_fifo option \<Rightarrow> nat" where
  "spsc_peak fp = (case fp of None \<Rightarrow> 0 | Some f \<Rightarrow> sf_peak f)"

definition spsc_drops :: "spsc_fifo option \<Rightarrow> u32w" where
  "spsc_drops fp = (case fp of None \<Rightarrow> 0 | Some f \<Rightarrow> sf_drops f)"

definition spsc_read_ptr :: "spsc_fifo \<Rightarrow> nat \<times> nat option" where
  "spsc_read_ptr f =
     (let head = sf_head f;
          tail = sf_tail f;
          avail = (if head \<ge> tail then head - tail else u32_sub (sf_capacity f) tail)
      in (avail, if avail = 0 then None else Some (tail * sf_elem_size f)))"

definition spsc_commit_read :: "spsc_fifo \<Rightarrow> nat \<Rightarrow> spsc_fifo" where
  "spsc_commit_read f count =
     (if count = 0 then f
      else
        let new_tail = u32 (sf_tail f + count);
            new_tail = (if new_tail \<ge> sf_capacity f then new_tail - sf_capacity f else new_tail)
        in f\<lparr>sf_tail := new_tail\<rparr>)"

section \<open>Well-formed queues and their contents\<close>

definition spsc_shape :: "spsc_fifo \<Rightarrow> bool" where
  "spsc_shape f \<longleftrightarrow>
     spsc_descriptor_sane (Some f) \<and> length (sf_store f) = sf_capacity f * sf_elem_size f"

definition spsc_wf :: "spsc_fifo \<Rightarrow> bool" where
  "spsc_wf f \<longleftrightarrow> spsc_shape f \<and> sf_head f < sf_capacity f \<and> sf_tail f < sf_capacity f"

definition spsc_contents :: "spsc_fifo \<Rightarrow> u8 list" where
  "spsc_contents f =
     ring_view (sf_store f) (sf_tail f * sf_elem_size f)
       (spsc_available (Some f) * sf_elem_size f)"

text \<open>The abstract bounded queue: what a write does to the queued bytes.\<close>

definition fifo_spec_write ::
    "spsc_policy \<Rightarrow> nat \<Rightarrow> nat \<Rightarrow> u8 list \<Rightarrow> nat \<Rightarrow> u8 list \<Rightarrow> nat \<Rightarrow> nat \<times> u8 list" where
  "fifo_spec_write pol usable es old used items count =
     (case pol of
        SPSC_POLICY_DROP \<Rightarrow>
          (let n = min count (usable - used) in (n, old @ take (n * es) items))
      | SPSC_POLICY_OVERWRITE \<Rightarrow>
          (let n = min count usable
           in (n, drop ((used + n - usable) * es) old @ take (n * es) items)))"

text \<open>The queue of the witnesses: four one-byte elements, two of them queued.\<close>

definition spsc_demo :: spsc_fifo where
  "spsc_demo = \<lparr>sf_buffer = 0x100, sf_store = [7, 8, 9, 10], sf_capacity = 4, sf_elem_size = 1,
     sf_head = 1, sf_tail = 3, sf_policy = SPSC_POLICY_OVERWRITE, sf_peak = 0, sf_drops = 0\<rparr>"

section \<open>Lemmas\<close>

lemma spsc_demo_wf: "spsc_wf spsc_demo"
  by (simp add: spsc_wf_def spsc_shape_def spsc_descriptor_sane_def spsc_demo_def)

lemma spsc_sane_Some:
  "spsc_descriptor_sane (Some f) \<longleftrightarrow>
     sf_buffer f \<noteq> 0 \<and> 0 < sf_capacity f \<and> sf_capacity f \<le> 4096 \<and>
     0 < sf_elem_size f \<and> sf_elem_size f \<le> 4096"
  by (simp add: spsc_descriptor_sane_def)

lemma spsc_sane_cong:
  "sf_buffer g = sf_buffer f \<Longrightarrow> sf_capacity g = sf_capacity f \<Longrightarrow>
   sf_elem_size g = sf_elem_size f \<Longrightarrow>
   spsc_descriptor_sane (Some g) = spsc_descriptor_sane (Some f)"
  by (simp add: spsc_sane_Some)

lemma spsc_clamp_less [simp]: "0 < sf_capacity f \<Longrightarrow> spsc_clamp f i < sf_capacity f"
  by (simp add: spsc_clamp_def)

lemma spsc_clamp_id [simp]: "i < sf_capacity f \<Longrightarrow> spsc_clamp f i = i"
  by (simp add: spsc_clamp_def)

lemma spsc_wfD:
  assumes "spsc_wf f"
  shows "spsc_shape f" "spsc_descriptor_sane (Some f)"
    "0 < sf_capacity f" "sf_capacity f \<le> 4096" "0 < sf_elem_size f"
    "length (sf_store f) = sf_capacity f * sf_elem_size f"
    "sf_head f < sf_capacity f" "sf_tail f < sf_capacity f"
  using assms by (auto simp: spsc_wf_def spsc_shape_def spsc_sane_Some)

lemma spsc_available_wf:
  "spsc_wf f \<Longrightarrow> spsc_available (Some f) =
     (if sf_tail f \<le> sf_head f then sf_head f - sf_tail f
      else sf_capacity f - sf_tail f + sf_head f)"
  by (simp add: spsc_available_def spsc_wfD Let_def)

lemma spsc_available_less:
  "spsc_descriptor_sane (Some f) \<Longrightarrow> spsc_available (Some f) < sf_capacity f"
  using spsc_clamp_less [of f "sf_head f"] spsc_clamp_less [of f "sf_tail f"]
  by (auto simp: spsc_available_def spsc_sane_Some Let_def simp del: spsc_clamp_less)

lemma spsc_available_space_clamped:
  "spsc_descriptor_sane (Some f) \<Longrightarrow>
     spsc_available (Some f) + spsc_space (Some f) = sf_capacity f - 1"
  using spsc_clamp_less [of f "sf_head f"] spsc_clamp_less [of f "sf_tail f"]
  by (auto simp: spsc_available_def spsc_space_def spsc_sane_Some Let_def
      simp del: spsc_clamp_less)

lemma spsc_head_eq:
  "spsc_wf f \<Longrightarrow> sf_head f = (sf_tail f + spsc_available (Some f)) mod sf_capacity f"
  using spsc_wfD [of f] by (auto simp: spsc_available_wf mod_if)

lemma spsc_available_advance:
  assumes "spsc_wf f" "k \<le> spsc_space (Some f)"
    and "sf_buffer g = sf_buffer f" "sf_capacity g = sf_capacity f"
    and "sf_elem_size g = sf_elem_size f" "sf_tail g = sf_tail f"
    and "sf_head g = (sf_head f + k) mod sf_capacity f"
  shows "spsc_available (Some g) = spsc_available (Some f) + k"
proof -
  note wf = spsc_wfD [OF assms(1)]
  have g: "spsc_descriptor_sane (Some g)"
    using wf assms by (simp add: spsc_sane_Some)
  have gl: "sf_head g < sf_capacity f" using assms(7) wf by simp
  have k: "spsc_available (Some f) + k < sf_capacity f"
    using spsc_available_space_clamped [OF wf(2)] assms(2) wf(3) by linarith
  have "sf_head g = (if sf_head f + k < sf_capacity f then sf_head f + k
      else sf_head f + k - sf_capacity f)"
    using assms(7) wf k by (simp add: mod_if)
  then show ?thesis
    using g gl wf k assms(3-6)
    by (auto simp: spsc_available_def spsc_available_wf [OF assms(1)] Let_def split: if_splits)
qed

lemma spsc_available_retire:
  assumes "spsc_wf f" "k \<le> spsc_available (Some f)"
    and "sf_buffer g = sf_buffer f" "sf_capacity g = sf_capacity f"
    and "sf_elem_size g = sf_elem_size f" "sf_head g = sf_head f"
    and "sf_tail g = (sf_tail f + k) mod sf_capacity f"
  shows "spsc_available (Some g) = spsc_available (Some f) - k"
proof -
  note wf = spsc_wfD [OF assms(1)]
  have g: "spsc_descriptor_sane (Some g)"
    using wf assms by (simp add: spsc_sane_Some)
  have gl: "sf_tail g < sf_capacity f" using assms(7) wf by simp
  have k: "k \<le> spsc_available (Some f)" by fact
  have "sf_tail g = (if sf_tail f + k < sf_capacity f then sf_tail f + k
      else sf_tail f + k - sf_capacity f)"
    using assms(7) wf k spsc_available_less [OF wf(2)] by (simp add: mod_if)
  then show ?thesis
    using g gl wf k assms(3-6)
    by (auto simp: spsc_available_def spsc_available_wf [OF assms(1)] Let_def split: if_splits)
qed


text \<open>The copies in terms of circular buffers.\<close>

lemma spsc_copy_sizes:
  assumes "spsc_shape f" "i < sf_capacity f" "n \<le> sf_capacity f"
  shows "u32_sub (sf_capacity f) i = sf_capacity f - i" "u32 (i * sf_elem_size f) = i * sf_elem_size f"
    "u32 (n * sf_elem_size f) = n * sf_elem_size f"
    "u32 ((sf_capacity f - i) * sf_elem_size f) = (sf_capacity f - i) * sf_elem_size f"
    "u32 ((n - (sf_capacity f - i)) * sf_elem_size f) = (n - (sf_capacity f - i)) * sf_elem_size f"
proof -
  have b: "sf_capacity f \<le> 4096" "sf_elem_size f \<le> 4096"
    using assms(1) by (auto simp: spsc_shape_def spsc_sane_Some)
  then show "u32_sub (sf_capacity f) i = sf_capacity f - i" using assms(2) by simp
  have "m * sf_elem_size f < 2 ^ 32" if "m \<le> sf_capacity f" for m
  proof -
    have "m * sf_elem_size f \<le> 4096 * 4096" by (rule mult_le_mono) (use that b in linarith)+
    then show ?thesis by simp
  qed
  then have u: "u32 (m * sf_elem_size f) = m * sf_elem_size f" if "m \<le> sf_capacity f" for m
    using that by (intro u32_id)
  show "u32 (i * sf_elem_size f) = i * sf_elem_size f" "u32 (n * sf_elem_size f) = n * sf_elem_size f"
    "u32 ((sf_capacity f - i) * sf_elem_size f) = (sf_capacity f - i) * sf_elem_size f"
    "u32 ((n - (sf_capacity f - i)) * sf_elem_size f) = (n - (sf_capacity f - i)) * sf_elem_size f"
    using assms(2,3) by (intro u; simp)+
qed

lemma spsc_copy_in_ring:
  assumes "spsc_shape f" "head < sf_capacity f" "count \<le> sf_capacity f"
    and "count * sf_elem_size f \<le> length items"
  shows "spsc_copy_in f head items count =
    ring_write (sf_store f) (head * sf_elem_size f) (take (count * sf_elem_size f) items)"
proof -
  let ?es = "sf_elem_size f"
  have es: "0 < ?es" and len: "length (sf_store f) = sf_capacity f * ?es"
    using assms(1) by (auto simp: spsc_shape_def spsc_sane_Some)
  have te: "length (sf_store f) - head * ?es = (sf_capacity f - head) * ?es"
    by (simp add: len diff_mult_distrib)
  have min: "min (length items) (count * ?es) = count * ?es" using assms(4) by simp
  have split: "count * ?es \<le> (sf_capacity f - head) * ?es \<longleftrightarrow> count \<le> sf_capacity f - head"
    using es by simp
  show ?thesis
  proof (cases "count \<le> sf_capacity f - head")
    case True
    then show ?thesis
      using split by (simp add: spsc_copy_in_def spsc_copy_sizes [OF assms(1-3)] ring_write_def te min bytes_at_def Let_def)
  next
    case False
    let ?m = "sf_capacity f - head"
    have m: "?m * ?es \<le> count * ?es" using False by simp
    have "drop (?m * ?es) (take (count * ?es) items) =
        take ((count - ?m) * ?es) (drop (?m * ?es) items)"
      by (simp add: drop_take diff_mult_distrib)
    moreover have "take (?m * ?es) (take (count * ?es) items) = take (?m * ?es) items"
      using m by (simp add: min_def)
    ultimately show ?thesis
      using False split by (simp add: spsc_copy_in_def spsc_copy_sizes [OF assms(1-3)] ring_write_def te min bytes_at_def Let_def)
  qed
qed

lemma spsc_copy_out_ring:
  assumes "spsc_shape f" "tail < sf_capacity f" "count \<le> sf_capacity f"
  shows "spsc_copy_out f tail count =
    ring_view (sf_store f) (tail * sf_elem_size f) (count * sf_elem_size f)"
proof -
  let ?es = "sf_elem_size f"
  have es: "0 < ?es" and len: "length (sf_store f) = sf_capacity f * ?es"
    using assms(1) by (auto simp: spsc_shape_def spsc_sane_Some)
  have "tail * ?es < length (sf_store f)" "count * ?es \<le> length (sf_store f)"
    using assms es len by simp_all
  then have "ring_view (sf_store f) (tail * ?es) (count * ?es) =
    (if count * ?es \<le> length (sf_store f) - tail * ?es
     then bytes_at (sf_store f) (tail * ?es) (count * ?es)
     else bytes_at (sf_store f) (tail * ?es) (length (sf_store f) - tail * ?es) @
       bytes_at (sf_store f) 0 (count * ?es - (length (sf_store f) - tail * ?es)))"
    by (rule ring_view_pieces)
  moreover have te: "length (sf_store f) - tail * ?es = (sf_capacity f - tail) * ?es"
    by (simp add: len diff_mult_distrib)
  moreover have "count * ?es - (sf_capacity f - tail) * ?es =
      (count - (sf_capacity f - tail)) * ?es"
    by (rule diff_mult_distrib [symmetric])
  ultimately show ?thesis
    using es by (simp add: spsc_copy_out_def spsc_copy_sizes [OF assms] Let_def del: diff_mult_distrib)
qed

text \<open>
  Appending to a well-formed queue: \<open>k\<close> elements that fit, copied in at the write index.
\<close>

lemma spsc_append:
  assumes wf: "spsc_wf f" and k: "k \<le> spsc_space (Some f)" "length d = k * sf_elem_size f"
    and g: "sf_buffer g = sf_buffer f" "sf_capacity g = sf_capacity f"
      "sf_elem_size g = sf_elem_size f" "sf_tail g = sf_tail f"
      "sf_head g = (sf_head f + k) mod sf_capacity f"
      "sf_store g = ring_write (sf_store f) (sf_head f * sf_elem_size f) d"
  shows "spsc_wf g" "spsc_contents g = spsc_contents f @ d"
proof -
  let ?es = "sf_elem_size f" and ?u = "spsc_available (Some f)"
  note w = spsc_wfD [OF wf]
  have cap: "?u + k < sf_capacity f"
    using spsc_available_space_clamped [OF w(2)] k(1) w(3) by linarith
  have len: "length (sf_store f) = sf_capacity f * ?es" by (rule w)
  have hd: "sf_head f * ?es = (sf_tail f * ?es + ?u * ?es) mod length (sf_store f)"
    using spsc_head_eq [OF wf] by (simp add: len mult_mod_left add_mult_distrib)
  have t: "sf_tail f * ?es < length (sf_store f)" using w len by simp
  have u: "?u * ?es < length (sf_store f)" using cap w len by simp
  have fit: "?u * ?es + length d \<le> length (sf_store f)"
  proof -
    have "(?u + k) * ?es \<le> sf_capacity f * ?es" using cap by (intro mult_le_mono1) simp
    then show ?thesis by (simp add: k(2) len add_mult_distrib)
  qed
  have h: "sf_head f * ?es < length (sf_store f)" using w len by simp
  have "length (sf_store g) = length (sf_store f)"
    using g(6) h fit by simp
  then show "spsc_wf g"
    using g w by (simp add: spsc_wf_def spsc_shape_def spsc_sane_Some)
  have av: "spsc_available (Some g) = ?u + k"
    by (rule spsc_available_advance [OF wf k(1) g(1-5)])
  have "spsc_contents g = ring_view (sf_store g) (sf_tail f * ?es) (?u * ?es + length d)"
    by (simp add: spsc_contents_def av g k(2) add_mult_distrib)
  also have "\<dots> = ring_view (sf_store f) (sf_tail f * ?es) (?u * ?es) @ d"
    unfolding g(6) hd by (rule ring_view_write [OF t fit u])
  finally show "spsc_contents g = spsc_contents f @ d"
    by (simp add: spsc_contents_def)
qed

text \<open>Retiring \<open>k\<close> elements from the read index.\<close>

lemma spsc_retire:
  assumes wf: "spsc_wf f" and k: "k \<le> spsc_available (Some f)"
    and g: "sf_buffer g = sf_buffer f" "sf_capacity g = sf_capacity f"
      "sf_elem_size g = sf_elem_size f" "sf_head g = sf_head f"
      "sf_tail g = (sf_tail f + k) mod sf_capacity f" "sf_store g = sf_store f"
  shows "spsc_wf g" "spsc_contents g = drop (k * sf_elem_size f) (spsc_contents f)"
    "take (k * sf_elem_size f) (spsc_contents f) =
       ring_view (sf_store f) (sf_tail f * sf_elem_size f) (k * sf_elem_size f)"
proof -
  let ?es = "sf_elem_size f" and ?u = "spsc_available (Some f)"
  note w = spsc_wfD [OF wf]
  have len: "length (sf_store f) = sf_capacity f * ?es" by (rule w)
  show "spsc_wf g"
    using g w by (simp add: spsc_wf_def spsc_shape_def spsc_sane_Some)
  have av: "spsc_available (Some g) = ?u - k"
    by (rule spsc_available_retire [OF wf k g(1-5)])
  have ul: "?u * ?es \<le> length (sf_store f)"
    using spsc_available_less [OF w(2)] len by simp
  have kl: "k * ?es \<le> ?u * ?es" using k by simp
  have split: "spsc_contents f =
      ring_view (sf_store f) (sf_tail f * ?es) (k * ?es) @
      ring_view (sf_store f) ((sf_tail f * ?es + k * ?es) mod length (sf_store f))
        (?u * ?es - k * ?es)"
    unfolding spsc_contents_def by (rule ring_view_split [OF kl ul])
  have l: "length (ring_view (sf_store f) (sf_tail f * ?es) (k * ?es)) = k * ?es"
    by (intro length_ring_view order.trans [OF kl ul])
  show "take (k * ?es) (spsc_contents f) =
      ring_view (sf_store f) (sf_tail f * ?es) (k * ?es)"
    unfolding split using l by simp
  have "?u * ?es - k * ?es = (?u - k) * ?es"
    by (rule diff_mult_distrib [symmetric])
  moreover have "sf_tail g * ?es = (sf_tail f * ?es + k * ?es) mod length (sf_store f)"
    by (simp add: g len mult_mod_left add_mult_distrib)
  ultimately have "spsc_contents g =
      ring_view (sf_store f) ((sf_tail f * ?es + k * ?es) mod length (sf_store f))
        (?u * ?es - k * ?es)"
    by (simp add: spsc_contents_def av g)
  then show "spsc_contents g = drop (k * ?es) (spsc_contents f)"
    unfolding split using l by simp
qed


lemma length_spsc_contents:
  "spsc_wf f \<Longrightarrow> length (spsc_contents f) = spsc_available (Some f) * sf_elem_size f"
  unfolding spsc_contents_def
  by (rule length_ring_view) (simp add: spsc_wfD less_imp_le spsc_available_less)

lemma spsc_note_peak_simps [simp]:
  "sf_buffer (spsc_note_peak f) = sf_buffer f" "sf_store (spsc_note_peak f) = sf_store f"
  "sf_capacity (spsc_note_peak f) = sf_capacity f"
  "sf_elem_size (spsc_note_peak f) = sf_elem_size f"
  "sf_head (spsc_note_peak f) = sf_head f" "sf_tail (spsc_note_peak f) = sf_tail f"
  "sf_policy (spsc_note_peak f) = sf_policy f" "sf_drops (spsc_note_peak f) = sf_drops f"
  by (simp_all add: spsc_note_peak_def Let_def)

lemma spsc_wf_cong:
  "sf_buffer g = sf_buffer f \<Longrightarrow> sf_store g = sf_store f \<Longrightarrow> sf_capacity g = sf_capacity f \<Longrightarrow>
   sf_elem_size g = sf_elem_size f \<Longrightarrow> sf_head g = sf_head f \<Longrightarrow> sf_tail g = sf_tail f \<Longrightarrow>
   spsc_wf g = spsc_wf f \<and> spsc_contents g = spsc_contents f \<and>
   spsc_available (Some g) = spsc_available (Some f) \<and> spsc_space (Some g) = spsc_space (Some f)"
  by (simp add: spsc_wf_def spsc_shape_def spsc_sane_Some spsc_contents_def spsc_clamp_def
      spsc_available_def spsc_space_def Let_def)

lemma spsc_skip_wf:
  assumes "spsc_wf f"
  shows "\<exists>g. spsc_skip (Some f) n = (min n (spsc_available (Some f)), Some g) \<and> spsc_wf g \<and>
    spsc_contents g = drop (min n (spsc_available (Some f)) * sf_elem_size f) (spsc_contents f) \<and>
    spsc_available (Some g) = spsc_available (Some f) - min n (spsc_available (Some f)) \<and>
    sf_capacity g = sf_capacity f \<and> sf_elem_size g = sf_elem_size f \<and>
    sf_head g = sf_head f \<and> sf_policy g = sf_policy f \<and> sf_drops g = sf_drops f \<and>
    sf_peak g = sf_peak f \<and> sf_store g = sf_store f \<and> sf_buffer g = sf_buffer f"
proof -
  let ?k = "min n (spsc_available (Some f))"
  let ?g = "f\<lparr>sf_tail := (sf_tail f + ?k) mod sf_capacity f\<rparr>"
  note w = spsc_wfD [OF assms]
  have k: "(if n > spsc_available (Some f) then spsc_available (Some f) else n) = ?k"
    by simp
  have "sf_tail f + ?k < 2 ^ 32"
    using w spsc_available_less [OF w(2)] by simp
  then have eq: "spsc_skip (Some f) n = (?k, Some ?g)"
    using w unfolding spsc_skip_def Let_def k option.sel by simp
  show ?thesis
    using eq spsc_retire [OF assms, of ?k ?g] spsc_available_retire [OF assms, of ?k ?g]
    by simp
qed

text \<open>The policy step, related to the abstract queue.\<close>

lemma spsc_admit_wf:
  assumes wf: "spsc_wf f" and adm: "spsc_admit f count = (n, g)"
  shows "spsc_wf g" "n \<le> spsc_space (Some g)" "sf_elem_size g = sf_elem_size f"
    "sf_capacity g = sf_capacity f" "n \<le> count" "sf_policy g = sf_policy f"
    "\<And>items. fifo_spec_write (sf_policy f) (sf_capacity f - 1) (sf_elem_size f)
        (spsc_contents f) (spsc_available (Some f)) items count =
      (n, spsc_contents g @ take (n * sf_elem_size f) items)"
proof -
  note w = spsc_wfD [OF wf]
  let ?sp = "spsc_space (Some f)" and ?u = "spsc_available (Some f)"
  note us = spsc_available_space_clamped [OF w(2)]
  have "spsc_wf g \<and> n \<le> spsc_space (Some g) \<and> sf_elem_size g = sf_elem_size f \<and>
    sf_capacity g = sf_capacity f \<and> n \<le> count \<and> sf_policy g = sf_policy f \<and>
    (\<forall>items. fifo_spec_write (sf_policy f) (sf_capacity f - 1) (sf_elem_size f)
        (spsc_contents f) ?u items count =
      (n, spsc_contents g @ take (n * sf_elem_size f) items))"
  proof (cases "count > ?sp")
    case False
    then have ng: "n = count" "g = f" using adm by (simp_all add: spsc_admit_def)
    have a: "min count (sf_capacity f - 1 - ?u) = count" using False us by linarith
    have b: "min count (sf_capacity f - 1) = count" using False us by linarith
    have c: "?u + count - (sf_capacity f - 1) = 0" using False us by linarith
    show ?thesis
      using False wf ng a b c
      by (simp add: fifo_spec_write_def Let_def split: spsc_policy.split)
  next
    case True
    show ?thesis
    proof (cases "sf_policy f")
      case SPSC_POLICY_DROP
      then have ng: "n = ?sp" "g = f\<lparr>sf_drops := sf_drops f + of_nat (count - ?sp)\<rparr>"
        using adm True by (auto simp: spsc_admit_def Let_def)
      have a: "min count (sf_capacity f - 1 - ?u) = ?sp" using True us by linarith
      have cg: "spsc_wf g = spsc_wf f \<and> spsc_contents g = spsc_contents f \<and>
          spsc_available (Some g) = ?u \<and> spsc_space (Some g) = ?sp"
        by (rule spsc_wf_cong) (simp_all add: ng)
      show ?thesis
        using cg wf True SPSC_POLICY_DROP ng a
        by (simp add: fifo_spec_write_def Let_def)
    next
      case SPSC_POLICY_OVERWRITE
      let ?o = "if count - ?sp \<ge> sf_capacity f then sf_capacity f - 1 else count - ?sp"
      let ?f = "f\<lparr>sf_drops := sf_drops f + of_nat ?o\<rparr>"
      have cf: "spsc_wf ?f = spsc_wf f \<and> spsc_contents ?f = spsc_contents f \<and>
          spsc_available (Some ?f) = ?u \<and> spsc_space (Some ?f) = ?sp"
        by (rule spsc_wf_cong) simp_all
      then have wff: "spsc_wf ?f" using wf by simp
      obtain h where h: "spsc_skip (Some ?f) ?o = (min ?o ?u, Some h)" "spsc_wf h"
          "spsc_contents h = drop (min ?o ?u * sf_elem_size f) (spsc_contents f)"
          "spsc_available (Some h) = ?u - min ?o ?u" "sf_capacity h = sf_capacity f"
          "sf_elem_size h = sf_elem_size f" "sf_policy h = sf_policy f"
        using spsc_skip_wf [OF wff, of ?o] cf by auto
      have ng: "n = (if count \<ge> sf_capacity f then sf_capacity f - 1 else count)" "g = h"
        using adm True SPSC_POLICY_OVERWRITE h(1,5)
        by (auto simp: spsc_admit_def Let_def cong: if_cong)
      have n: "n = min count (sf_capacity f - 1)" using ng(1) w(3) by auto
      have o: "min ?o ?u = ?u + n - (sf_capacity f - 1)"
        using us True w(3) spsc_available_less [OF w(2)] unfolding n by (auto simp: min_def)
      have av: "spsc_available (Some h) = ?u - (?u + n - (sf_capacity f - 1))"
        unfolding h(4) o ..
      have n1: "n \<le> sf_capacity f - 1" unfolding n by simp
      have "spsc_available (Some h) + spsc_space (Some h) = sf_capacity f - 1"
        using spsc_available_space_clamped [OF spsc_wfD(2) [OF h(2)]] unfolding h(5) .
      then have "n \<le> spsc_space (Some h)"
        using n1 spsc_available_less [OF w(2)] unfolding av by linarith
      moreover have "n \<le> count" unfolding n by simp
      moreover have "spsc_contents h =
          drop ((?u + n - (sf_capacity f - 1)) * sf_elem_size f) (spsc_contents f)"
        using h(3) unfolding o .
      ultimately show ?thesis
        unfolding ng(2) using h(2,5-7) SPSC_POLICY_OVERWRITE n
        by (simp add: fifo_spec_write_def Let_def)
    qed
  qed
  then show "spsc_wf g" "n \<le> spsc_space (Some g)" "sf_elem_size g = sf_elem_size f"
    "sf_capacity g = sf_capacity f" "n \<le> count" "sf_policy g = sf_policy f"
    "\<And>items. fifo_spec_write (sf_policy f) (sf_capacity f - 1) (sf_elem_size f)
        (spsc_contents f) ?u items count =
      (n, spsc_contents g @ take (n * sf_elem_size f) items)"
    by blast+
qed


section \<open>Properties\<close>

lemma spsc_write_result:
  assumes "spsc_wf f" "count * sf_elem_size f \<le> length items"
  shows "\<exists>n g. spsc_write (Some f) items count = (n, Some g) \<and> spsc_wf g \<and>
    fifo_spec_write (sf_policy f) (sf_capacity f - 1) (sf_elem_size f)
      (spsc_contents f) (spsc_available (Some f)) items count = (n, spsc_contents g)"
proof -
  obtain n g where adm: "spsc_admit f count = (n, g)" by fastforce
  note a = spsc_admit_wf [OF assms(1) adm]
  note w = spsc_wfD [OF a(1)]
  have sane: "spsc_descriptor_sane (Some f)" by (rule spsc_wfD [OF assms(1)])
  show ?thesis
  proof (cases "n = 0")
    case True
    have "spsc_write (Some f) items count = (0, Some (if count = 0 then f else g))"
      using adm sane True by (simp add: spsc_write_def)
    moreover have "count = 0 \<Longrightarrow> g = f"
      using adm by (simp add: spsc_admit_def)
    ultimately show ?thesis using a(1) a(7) [of items] True by auto
  next
    case False
    let ?h = "g\<lparr>sf_store := spsc_copy_in g (sf_head g) items n,
        sf_head := (sf_head g + n) mod sf_capacity g\<rparr>"
    have count: "count \<noteq> 0" using False a(5) by simp
    have eq: "spsc_write (Some f) items count = (n, Some (spsc_note_peak ?h))"
      using adm sane False count w by (simp add: spsc_write_def Let_def)
    have len: "n * sf_elem_size g \<le> length items"
      unfolding a(3) by (rule order.trans [OF mult_le_mono1 [OF a(5)] assms(2)])
    have "n \<le> sf_capacity g"
      using a(2) spsc_available_space_clamped [OF w(2)] by linarith
    then have st: "spsc_copy_in g (sf_head g) items n =
        ring_write (sf_store g) (sf_head g * sf_elem_size g) (take (n * sf_elem_size g) items)"
      by (intro spsc_copy_in_ring w len)
    have "spsc_wf ?h \<and> spsc_contents ?h = spsc_contents g @ take (n * sf_elem_size g) items"
      using spsc_append [OF a(1,2), of "take (n * sf_elem_size g) items" ?h] len st by simp
    moreover have "spsc_wf (spsc_note_peak ?h) = spsc_wf ?h \<and>
        spsc_contents (spsc_note_peak ?h) = spsc_contents ?h \<and>
        spsc_available (Some (spsc_note_peak ?h)) = spsc_available (Some ?h) \<and>
        spsc_space (Some (spsc_note_peak ?h)) = spsc_space (Some ?h)"
      by (rule spsc_wf_cong) simp_all
    ultimately show ?thesis using eq a(3) a(7) [of items] by auto
  qed
qed

text \<open>
  Claim C7. On a well-formed queue, \<open>spsc_write\<close> refines the abstract bounded queue
  under either policy.
\<close>

theorem spsc_write_refines:
  assumes "spsc_wf f" "count * sf_elem_size f \<le> length items"
  shows "\<exists>n g. spsc_write (Some f) items count = (n, Some g) \<and> spsc_wf g \<and>
    fifo_spec_write (sf_policy f) (sf_capacity f - 1) (sf_elem_size f)
      (spsc_contents f) (spsc_available (Some f)) items count = (n, spsc_contents g)"
  by (rule spsc_write_result [OF assms])

theorem spsc_write_refines_witness:
  "\<exists>g. spsc_write (Some spsc_demo) [1, 2] 2 = (2, Some g) \<and> spsc_wf g \<and> spsc_contents g = [7, 1, 2]"
proof -
  have "fifo_spec_write SPSC_POLICY_OVERWRITE 3 1 (spsc_contents spsc_demo)
      (spsc_available (Some spsc_demo)) [1, 2] 2 = (2, [7, 1, 2])"
    by code_simp
  then show ?thesis
    using spsc_write_refines [OF spsc_demo_wf, of 2 "[1, 2]"] by (auto simp: spsc_demo_def)
qed

lemma spsc_copy_out_contents:
  assumes "spsc_wf f" "n \<le> spsc_available (Some f)"
  shows "spsc_copy_out f (sf_tail f) n = take (n * sf_elem_size f) (spsc_contents f)"
proof -
  note w = spsc_wfD [OF assms(1)]
  have "n \<le> sf_capacity f" using assms(2) spsc_available_less [OF w(2)] by simp
  then show ?thesis
    using spsc_copy_out_ring [OF w(1,8)]
      spsc_retire(3) [OF assms, of "f\<lparr>sf_tail := (sf_tail f + n) mod sf_capacity f\<rparr>"]
    by simp
qed

lemma spsc_read_result:
  assumes "spsc_wf f"
  shows "\<exists>g. spsc_read (Some f) count =
      (min count (spsc_available (Some f)),
       take (min count (spsc_available (Some f)) * sf_elem_size f) (spsc_contents f), Some g) \<and>
    spsc_wf g \<and>
    spsc_contents g =
      drop (min count (spsc_available (Some f)) * sf_elem_size f) (spsc_contents f) \<and>
    sf_policy g = sf_policy f \<and> sf_elem_size g = sf_elem_size f \<and> sf_capacity g = sf_capacity f"
proof -
  note w = spsc_wfD [OF assms]
  let ?n = "min count (spsc_available (Some f))"
  have n: "(if count > spsc_available (Some f) then spsc_available (Some f) else count) = ?n"
    by simp
  show ?thesis
  proof (cases "?n = 0")
    case True
    then have "spsc_read (Some f) count = (0, [], Some f)"
      unfolding spsc_read_def Let_def n option.sel by simp
    then show ?thesis using True assms by simp
  next
    case False
    let ?g = "f\<lparr>sf_tail := (sf_tail f + ?n) mod sf_capacity f\<rparr>"
    have "spsc_read (Some f) count = (?n, spsc_copy_out f (sf_tail f) ?n, Some ?g)"
      unfolding spsc_read_def Let_def n option.sel if_not_P [OF False] using w by simp
    then show ?thesis
      using spsc_copy_out_contents [OF assms, of ?n] spsc_retire [OF assms, of ?n ?g] by simp
  qed
qed

text \<open>
  Claim C8. On a well-formed queue, \<open>spsc_read\<close> returns and removes the oldest
  \<open>min count available\<close> elements, in order, and leaves a well-formed queue.
\<close>

theorem spsc_read_refines:
  assumes "spsc_wf f"
  shows "\<exists>g. spsc_read (Some f) count =
      (min count (spsc_available (Some f)),
       take (min count (spsc_available (Some f)) * sf_elem_size f) (spsc_contents f), Some g) \<and>
    spsc_wf g \<and>
    spsc_contents g =
      drop (min count (spsc_available (Some f)) * sf_elem_size f) (spsc_contents f) \<and>
    sf_policy g = sf_policy f \<and> sf_elem_size g = sf_elem_size f \<and> sf_capacity g = sf_capacity f"
  by (rule spsc_read_result [OF assms])

theorem spsc_read_refines_witness:
  "\<exists>g. spsc_read (Some spsc_demo) 1 = (1, [10], Some g) \<and> spsc_contents g = [7]"
proof -
  have "spsc_available (Some spsc_demo) = 2" "spsc_contents spsc_demo = [10, 7]" by code_simp+
  then show ?thesis using spsc_read_refines [OF spsc_demo_wf, of 1] by (auto simp: spsc_demo_def)
qed

lemma spsc_peek_refines:
  assumes "spsc_wf f"
  shows "spsc_peek (Some f) count =
    (min count (spsc_available (Some f)),
     take (min count (spsc_available (Some f)) * sf_elem_size f) (spsc_contents f))"
proof -
  note w = spsc_wfD [OF assms]
  let ?n = "min count (spsc_available (Some f))"
  have n: "(if count > spsc_available (Some f) then spsc_available (Some f) else count) = ?n"
    by simp
  show ?thesis
    using w spsc_copy_out_contents [OF assms, of ?n]
    unfolding spsc_peek_def Let_def n option.sel by simp
qed


lemma spsc_space_le: "spsc_descriptor_sane (Some f) \<Longrightarrow> spsc_space (Some f) \<le> sf_capacity f - 1"
  using spsc_available_space_clamped [of f] by simp

lemma spsc_skip_shape:
  "spsc_shape f \<Longrightarrow> snd (spsc_skip (Some f) n) = Some g \<Longrightarrow>
     spsc_shape g \<and> sf_store g = sf_store f \<and> sf_capacity g = sf_capacity f \<and>
     sf_elem_size g = sf_elem_size f \<and> sf_head g = sf_head f"
  by (auto simp: spsc_skip_def spsc_shape_def spsc_sane_Some Let_def)

lemma spsc_skip_Some: "spsc_descriptor_sane (Some f) \<Longrightarrow> \<exists>g. snd (spsc_skip (Some f) n) = Some g"
  by (simp add: spsc_skip_def Let_def)

lemma spsc_admit_shape:
  assumes "spsc_shape f" "spsc_admit f count = (n, g)"
  shows "spsc_shape g \<and> n \<le> sf_capacity f - 1 \<and> n \<le> count \<and> sf_store g = sf_store f \<and>
    sf_capacity g = sf_capacity f \<and> sf_elem_size g = sf_elem_size f"
proof -
  have sane: "spsc_descriptor_sane (Some f)" using assms(1) by (simp add: spsc_shape_def)
  note sp = spsc_space_le [OF sane]
  show ?thesis
  proof (cases "spsc_space (Some f) < count \<and> sf_policy f \<noteq> SPSC_POLICY_DROP")
    case False
    then show ?thesis
      using assms sp
      by (auto simp: spsc_admit_def spsc_shape_def spsc_sane_Some Let_def split: if_splits)
  next
    case True
    let ?o = "if count - spsc_space (Some f) \<ge> sf_capacity f then sf_capacity f - 1
      else count - spsc_space (Some f)"
    let ?f = "f\<lparr>sf_drops := sf_drops f + of_nat ?o\<rparr>"
    have shf: "spsc_shape ?f" using assms(1) by (simp add: spsc_shape_def spsc_sane_Some)
    then obtain h where h: "snd (spsc_skip (Some ?f) ?o) = Some h"
      using spsc_skip_Some [of ?f ?o] by (auto simp: spsc_shape_def)
    note sk = spsc_skip_shape [OF shf h]
    have "n = (if count \<ge> sf_capacity h then sf_capacity h - 1 else count) \<and> g = h"
      using assms(2) True h by (auto simp: spsc_admit_def Let_def cong: if_cong)
    then show ?thesis using sk by auto
  qed
qed

text \<open>
  Claim C9. The defensive clamping of \<open>structure.c\<close> contains the blast radius of a corrupted
  descriptor: whatever values \<open>head\<close> and \<open>tail\<close> hold, \<open>spsc_write\<close> stores only
  inside the \<open>capacity * elem_size\<close> bytes of the buffer (a copy past its end would make the store
  longer, and with an index left at or above the capacity \<open>to_end\<close> wraps and the copy is one), never takes more than \<open>capacity - 1\<close> items, and leaves
  \<open>head\<close> below \<open>capacity\<close> whenever it wrote something.
\<close>

theorem spsc_write_memory_safe:
  assumes "spsc_shape f" "count * sf_elem_size f \<le> length items"
    and "spsc_write (Some f) items count = (n, Some g)"
  shows "length (sf_store g) = length (sf_store f) \<and> spsc_shape g \<and> n \<le> sf_capacity f - 1 \<and>
    (0 < n \<longrightarrow> sf_head g < sf_capacity f)"
proof (cases "count = 0")
  case True
  then show ?thesis using assms by (simp add: spsc_write_def)
next
  case False
  have sane: "spsc_descriptor_sane (Some f)" using assms(1) by (simp add: spsc_shape_def)
  obtain m h where adm: "spsc_admit f count = (m, h)" by fastforce
  note a = spsc_admit_shape [OF assms(1) adm]
  let ?k = "spsc_clamp h (sf_head h)"
  let ?i = "h\<lparr>sf_store := spsc_copy_in h ?k items m, sf_head := (?k + m) mod sf_capacity h\<rparr>"
  have cap: "0 < sf_capacity h" "0 < sf_elem_size h"
    using a by (simp_all add: spsc_shape_def spsc_sane_Some)
  have k: "?k < sf_capacity h" using cap by simp
  have m: "m \<le> sf_capacity h" "m * sf_elem_size h \<le> length items"
    using a order.trans [OF mult_le_mono1 assms(2), of m] by auto
  have lenh: "length (sf_store h) = sf_capacity h * sf_elem_size h"
    using a by (auto simp: spsc_shape_def)
  have ring: "spsc_copy_in h ?k items m =
      ring_write (sf_store h) (?k * sf_elem_size h) (take (m * sf_elem_size h) items)"
    using a by (intro spsc_copy_in_ring k m) simp
  have "length (spsc_copy_in h ?k items m) = length (sf_store h)"
    unfolding ring by (rule length_ring_write) (use k m cap in \<open>simp_all add: lenh\<close>)
  then have i: "spsc_shape ?i" "length (sf_store ?i) = length (sf_store h)"
    using a by (auto simp: spsc_shape_def spsc_sane_Some)
  have eq: "(n, g) = (if m = 0 then (0, h) else (m, spsc_note_peak ?i))"
    using assms(3) False sane adm by (auto simp: spsc_write_def Let_def split: if_splits)
  have pk: "spsc_shape (spsc_note_peak ?i) = spsc_shape ?i"
    by (simp add: spsc_shape_def spsc_sane_Some)
  show ?thesis
  proof (cases "m = 0")
    case True
    then show ?thesis using eq a by simp
  next
    case False
    then show ?thesis using eq i pk a cap by (simp del: spsc_note_peak_simps)  (simp add: a)
  qed
qed

theorem spsc_write_memory_safe_witness:
  "\<exists>n g. spsc_write (Some (spsc_demo\<lparr>sf_head := 99\<rparr>)) [1, 2] 2 = (n, Some g) \<and>
     length (sf_store g) = 4"
proof -
  let ?f = "spsc_demo\<lparr>sf_head := 99\<rparr>"
  have sh: "spsc_shape ?f" and es: "2 * sf_elem_size ?f \<le> length [1 :: u8, 2]"
    by (simp_all add: spsc_shape_def spsc_descriptor_sane_def spsc_demo_def)
  have "\<exists>n g. spsc_write (Some ?f) [1, 2] 2 = (n, Some g)"
    using sh by (cases "spsc_admit ?f 2", cases "fst (spsc_admit ?f 2) = 0")
      (simp_all add: spsc_write_def spsc_shape_def Let_def)
  then obtain n g where w: "spsc_write (Some ?f) [1, 2] 2 = (n, Some g)" by blast
  have "length (sf_store ?f) = 4" by (simp add: spsc_demo_def)
  then show ?thesis using spsc_write_memory_safe [OF sh es w] w by auto
qed


text \<open>
  Rounding up to a multiple: the aligned address of \<open>spsc_init\<close> is the least multiple of
  \<open>elem_size\<close> at or above the buffer's address, in either branch.
\<close>

definition spsc_align_up :: "nat \<Rightarrow> nat \<Rightarrow> nat" where
  "spsc_align_up addr es = (addr + (es - 1)) div es * es"

lemma spsc_align_up_bounds:
  assumes "0 < es"
  shows "es dvd spsc_align_up addr es" "addr \<le> spsc_align_up addr es"
    "spsc_align_up addr es < addr + es"
proof -
  show "es dvd spsc_align_up addr es" by (simp add: spsc_align_up_def)
  have q: "(addr + (es - 1)) div es * es + (addr + (es - 1)) mod es = addr + (es - 1)"
    by (rule div_mult_mod_eq)
  have r: "(addr + (es - 1)) mod es \<le> es - 1"
    using assms by (simp add: Suc_leI less_Suc_eq_le [symmetric])
  show "addr \<le> spsc_align_up addr es" "spsc_align_up addr es < addr + es"
    using q r assms unfolding spsc_align_up_def by linarith+
qed

lemma spsc_init_aligned_addr:
  assumes "0 < es" "es \<le> 4096" "addr + es \<le> 2 ^ 32"
  shows "(if es > 0 \<and> es AND (es - 1) = 0 then and_not_u32 (addr + (es - 1)) (es - 1)
      else u32 (addr + es - 1) div es * es) = spsc_align_up addr es"
proof -
  have u: "u32 (addr + (es - 1)) = addr + (es - 1)" using assms by (intro u32_id) linarith
  have sum: "addr + es - 1 = addr + (es - 1)" using assms by simp
  show ?thesis
  proof (cases "es AND (es - 1) = 0")
    case True
    then obtain k where k: "es = 2 ^ k" using pow2_test assms(1) by blast
    have "k < 32"
    proof (rule ccontr)
      assume "\<not> k < 32"
      then have "(2 :: nat) ^ 32 \<le> 2 ^ k" by (intro power_increasing) auto
      then show False using k assms(2) by simp
    qed
    then show ?thesis
      using True assms(1) and_not_u32_pow2 [of k "addr + (es - 1)"] u k
      by (simp add: spsc_align_up_def)
  next
    case False
    then show ?thesis unfolding sum u spsc_align_up_def by simp
  qed
qed

text \<open>
  \<open>spsc_init\<close> on a caller's buffer of \<open>capacity\<close> elements yields an empty
  well-formed queue whose storage starts at a multiple of \<open>elem_size\<close> and lies inside the
  caller's bytes: when the address has to be rounded up, giving up one slot is enough.
\<close>

theorem spsc_init_in_bounds:
  assumes "addr \<noteq> 0" "addr + cap * es \<le> 2 ^ 32" "length mem = cap * es"
    and "2 \<le> cap" "cap \<le> 4096" "0 < es" "es \<le> 4096"
  shows "\<exists>f. spsc_init addr mem cap es = Some f \<and> spsc_wf f \<and> spsc_contents f = [] \<and>
    sf_policy f = SPSC_POLICY_DROP \<and> es dvd sf_buffer f \<and> addr \<le> sf_buffer f \<and>
    sf_buffer f + sf_capacity f * es \<le> addr + cap * es \<and>
    sf_store f = bytes_at mem (sf_buffer f - addr) (sf_capacity f * es)"
proof -
  let ?a = "spsc_align_up addr es"
  note b = spsc_align_up_bounds [OF assms(6), of addr]
  have ce: "2 * es \<le> cap * es" using assms(4) by (intro mult_le_mono1)
  have a32: "?a < 2 ^ 32" "addr + es \<le> 2 ^ 32" using b(3) ce assms(2,6) by linarith+
  have off: "u32_sub ?a addr = ?a - addr" using b(2) a32 by simp
  note init = spsc_init_def [of addr mem cap es,
      unfolded spsc_init_aligned_addr [OF assms(6,7) a32(2)] Let_def off]
  show ?thesis
  proof (cases "?a = addr")
    case True
    then have "spsc_init addr mem cap es = Some \<lparr>sf_buffer = addr,
        sf_store = bytes_at mem 0 (cap * es), sf_capacity = cap, sf_elem_size = es,
        sf_head = 0, sf_tail = 0, sf_policy = SPSC_POLICY_DROP, sf_peak = 0, sf_drops = 0\<rparr>"
      using init assms by simp
    then show ?thesis
      using assms b True
      by (auto simp: spsc_wf_def spsc_shape_def spsc_sane_Some spsc_contents_def ring_view_def
          spsc_available_def Let_def spsc_clamp_def)
  next
    case False
    then have "addr < ?a" using b by simp
    then have eq: "spsc_init addr mem cap es = Some \<lparr>sf_buffer = ?a,
        sf_store = bytes_at mem (?a - addr) ((cap - 1) * es), sf_capacity = cap - 1,
        sf_elem_size = es, sf_head = 0, sf_tail = 0, sf_policy = SPSC_POLICY_DROP,
        sf_peak = 0, sf_drops = 0\<rparr>"
      using init assms by simp
    have d: "(cap - 1) * es = cap * es - es" by (simp add: diff_mult_distrib)
    have fits: "?a + (cap - 1) * es \<le> addr + cap * es"
      using b(3) ce assms(6) unfolding d by linarith
    then have "?a - addr + (cap - 1) * es \<le> length mem"
      using b(2) assms(3) by linarith
    then show ?thesis
      using assms b fits eq
      by (auto simp: spsc_wf_def spsc_shape_def spsc_sane_Some spsc_contents_def ring_view_def
          spsc_available_def Let_def spsc_clamp_def)
  qed
qed

theorem spsc_init_in_bounds_witness:
  "\<exists>f. spsc_init 0x101 (replicate 16 0) 4 4 = Some f \<and> spsc_wf f \<and> 4 dvd sf_buffer f"
  using spsc_init_in_bounds [of "0x101" 4 4 "replicate 16 0"] by auto

text \<open>
  The zero-copy producer: writing \<open>k\<close> elements through the pointer of \<open>spsc_write_ptr\<close>
  and committing them appends them.
\<close>

lemma spsc_write_ptr_space:
  assumes "spsc_wf f" "spsc_write_ptr f = (m, p)"
  shows "m \<le> spsc_space (Some f)" "sf_head f + m \<le> sf_capacity f"
    "p = (if m = 0 then None else Some (sf_head f * sf_elem_size f))"
proof -
  note w = spsc_wfD [OF assms(1)]
  have c32: "sf_capacity f < 2 ^ 32" using w(4) by simp
  have sub: "u32_sub (sf_capacity f) (sf_head f) = sf_capacity f - sf_head f"
    using w(7) c32 by simp
  have "spsc_space (Some f) = (if sf_tail f \<le> sf_head f
      then sf_capacity f - sf_head f + sf_tail f - 1 else sf_tail f - sf_head f - 1)"
    using w by (auto simp: spsc_space_def Let_def)
  then show "m \<le> spsc_space (Some f)" "sf_head f + m \<le> sf_capacity f"
    "p = (if m = 0 then None else Some (sf_head f * sf_elem_size f))"
    using assms(2) w(7,8) sub by (auto simp: spsc_write_ptr_def Let_def split: if_splits)
qed

text \<open>
  Claim C10. The zero-copy path agrees with the copying one: a producer that stores \<open>k\<close>
  elements at the address \<open>spsc_write_ptr\<close> hands out, \<open>k\<close> within the count it reports, and
  then calls \<open>spsc_commit_write\<close>, has appended exactly those bytes to the queue; the region
  handed out does not run past the end of the buffer.
\<close>

theorem spsc_zero_copy_write:
  assumes wf: "spsc_wf f" and ptr: "spsc_write_ptr f = (m, Some off)" and k: "k \<le> m"
    and d: "length d = k * sf_elem_size f"
  shows "off + m * sf_elem_size f \<le> length (sf_store f) \<and>
    spsc_wf (spsc_commit_write (f\<lparr>sf_store := memcpy_into (sf_store f) off d\<rparr>) k) \<and>
    spsc_contents (spsc_commit_write (f\<lparr>sf_store := memcpy_into (sf_store f) off d\<rparr>) k) =
      spsc_contents f @ d"
proof -
  let ?g = "f\<lparr>sf_store := memcpy_into (sf_store f) off d\<rparr>" and ?es = "sf_elem_size f"
  let ?h = "?g\<lparr>sf_head := (sf_head f + k) mod sf_capacity f\<rparr>"
  note w = spsc_wfD [OF wf] and p = spsc_write_ptr_space [OF wf ptr]
  have off: "off = sf_head f * ?es" using p(3) by (auto split: if_splits)
  have "(sf_head f + m) * ?es \<le> sf_capacity f * ?es" using p(2) by (intro mult_le_mono1)
  then have room: "off + m * ?es \<le> length (sf_store f)"
    by (simp add: off w(6) add_mult_distrib)
  moreover have "k * ?es \<le> m * ?es" using k by simp
  ultimately have "length d \<le> length (sf_store f) - off" unfolding d by linarith
  then have st: "memcpy_into (sf_store f) off d = ring_write (sf_store f) (sf_head f * ?es) d"
    by (simp add: ring_write_def off)
  have "k \<le> spsc_space (Some f)" using k p(1) by simp
  from spsc_append [OF wf this d, of ?h] st
  have app: "spsc_wf ?h" "spsc_contents ?h = spsc_contents f @ d" by simp_all
  have "sf_head f + k < 2 ^ 32" using k p(2) w(4) by simp
  then have "spsc_commit_write ?g k = (if k = 0 then ?g else spsc_note_peak ?h)"
    using k p(2) w(7) by (auto simp: spsc_commit_write_def Let_def mod_if)
  moreover have "k = 0 \<Longrightarrow> ?g = ?h" using w(7) by simp
  moreover have "spsc_wf (spsc_note_peak ?h) = spsc_wf ?h \<and>
      spsc_contents (spsc_note_peak ?h) = spsc_contents ?h \<and>
      spsc_available (Some (spsc_note_peak ?h)) = spsc_available (Some ?h) \<and>
      spsc_space (Some (spsc_note_peak ?h)) = spsc_space (Some ?h)"
    by (rule spsc_wf_cong) simp_all
  ultimately show ?thesis using room app by auto
qed

theorem spsc_zero_copy_write_witness:
  "spsc_contents (spsc_commit_write (spsc_demo\<lparr>sf_store := memcpy_into (sf_store spsc_demo) 1 [5]\<rparr>) 1) =
     spsc_contents spsc_demo @ [5]"
proof -
  have "spsc_write_ptr spsc_demo = (1, Some 1)" by (simp add: spsc_write_ptr_def spsc_demo_def)
  then show ?thesis
    using spsc_zero_copy_write [OF spsc_demo_wf, of 1 1 1 "[5]"] by (simp add: spsc_demo_def)
qed

text \<open>
  The zero-copy read: the bytes at \<open>spsc_read_ptr\<close> are the oldest ones of the queue,
  and committing \<open>k\<close> of them removes exactly those.
\<close>

theorem spsc_zero_copy_read:
  assumes wf: "spsc_wf f" and ptr: "spsc_read_ptr f = (m, Some off)" and k: "k \<le> m"
  shows "off + m * sf_elem_size f \<le> length (sf_store f) \<and>
    bytes_at (sf_store f) off (k * sf_elem_size f) =
      take (k * sf_elem_size f) (spsc_contents f) \<and>
    spsc_wf (spsc_commit_read f k) \<and>
    spsc_contents (spsc_commit_read f k) = drop (k * sf_elem_size f) (spsc_contents f)"
proof -
  let ?es = "sf_elem_size f"
  let ?h = "f\<lparr>sf_tail := (sf_tail f + k) mod sf_capacity f\<rparr>"
  note w = spsc_wfD [OF wf]
  have c32: "sf_capacity f < 2 ^ 32" using w(4) by simp
  have sub: "u32_sub (sf_capacity f) (sf_tail f) = sf_capacity f - sf_tail f"
    using w(8) c32 by simp
  have m: "m = (if sf_tail f \<le> sf_head f then sf_head f - sf_tail f else sf_capacity f - sf_tail f)"
    and off: "off = sf_tail f * ?es"
    using ptr sub by (auto simp: spsc_read_ptr_def Let_def split: if_splits)
  have mc: "sf_tail f + m \<le> sf_capacity f" and ma: "m \<le> spsc_available (Some f)"
    using m w(7,8) by (auto simp: spsc_available_wf [OF wf])
  have "(sf_tail f + m) * ?es \<le> sf_capacity f * ?es" using mc by (intro mult_le_mono1)
  then have room: "off + m * ?es \<le> length (sf_store f)"
    by (simp add: off w(6) add_mult_distrib)
  have ka: "k \<le> spsc_available (Some f)" using k ma by simp
  have "spsc_copy_out f (sf_tail f) k = bytes_at (sf_store f) off (k * ?es)"
    using k mc spsc_copy_sizes [OF w(1) w(8), of k] by (auto simp: spsc_copy_out_def off Let_def)
  moreover have "sf_tail f + k < 2 ^ 32" using k mc w(4) by simp
  then have "spsc_commit_read f k = ?h"
    using k mc w(8) by (auto simp: spsc_commit_read_def Let_def mod_if)
  ultimately show ?thesis
    using room spsc_retire [OF wf ka, of ?h] spsc_copy_out_contents [OF wf ka] by simp
qed

theorem spsc_zero_copy_read_witness:
  "bytes_at (sf_store spsc_demo) 3 1 = [10] \<and> spsc_contents (spsc_commit_read spsc_demo 1) = [7]"
proof -
  have "spsc_read_ptr spsc_demo = (1, Some 3)" by (simp add: spsc_read_ptr_def spsc_demo_def)
  moreover have "spsc_contents spsc_demo = [10, 7]" by code_simp
  ultimately show ?thesis
    using spsc_zero_copy_read [OF spsc_demo_wf, of 1 3 1] by (simp add: spsc_demo_def)
qed

end
