(* ===== verification/Heap_Base.thy ===== *)
theory Heap_Base
  imports Vaios_Prelude
begin

text \<open>
  What the heap facade (\<open>kernel/memory/memory.c\<close>) and its two free-block index backends
  (\<open>seglist.c\<close>, \<open>tlsf.c\<close>) share, from \<open>kernel/memory/heap_internal.h\<close>,
  \<open>include/memory.h\<close> and the heap counters of \<open>kernel/perf.c\<close>.

  Heap memory is seen through two typed views, both indexed by the address of a block's
  header: the boundary-tag header itself and the free-list links that overlay a free block's
  payload. Addresses and sizes are natural numbers, NULL is 0. The constants are those of the
  32-bit target: a header of 16 bytes, a minimum payload of 8 (two links).

  \<open>index_ops\<close> is the backend contract of \<open>heap_internal.h\<close> as a record of functions
  (the linker picks the backend by \<open>VAIOS_HEAP_ALGO\<close>); the locale \<open>heap_index\<close> states
  what the facade relies on, and the backends interpret it.
\<close>

section \<open>Definitions\<close>

record heap_mem_block =
  hb_magic :: nat
  hb_size :: nat
  hb_status :: nat
  hb_prev :: nat

record free_node =
  next_free :: nat
  prev_free :: nat

record hmem =
  hm_hdr :: "nat \<Rightarrow> heap_mem_block"
  hm_node :: "nat \<Rightarrow> free_node"

abbreviation (input) MEM_FREE :: nat where "MEM_FREE \<equiv> 0"
abbreviation (input) MEM_ALOC :: nat where "MEM_ALOC \<equiv> 1"
abbreviation (input) SANITY_MAGIC_NUMBER :: nat where "SANITY_MAGIC_NUMBER \<equiv> 20"
abbreviation (input) HDR :: nat where "HDR \<equiv> 16"
abbreviation (input) VHEAP_ALIGN :: nat where "VHEAP_ALIGN \<equiv> 8"
abbreviation (input) VHEAP_MIN_PAYLOAD :: nat where "VHEAP_MIN_PAYLOAD \<equiv> 8"

abbreviation set_next_free :: "nat \<Rightarrow> nat \<Rightarrow> hmem \<Rightarrow> hmem" where
  "set_next_free b v m \<equiv> m\<lparr>hm_node := (hm_node m)(b := (hm_node m b)\<lparr>next_free := v\<rparr>)\<rparr>"

abbreviation set_prev_free :: "nat \<Rightarrow> nat \<Rightarrow> hmem \<Rightarrow> hmem" where
  "set_prev_free b v m \<equiv> m\<lparr>hm_node := (hm_node m)(b := (hm_node m b)\<lparr>prev_free := v\<rparr>)\<rparr>"

text \<open>
  What \<open>vheap_index_find\<close> can do: return a block, return NULL, or have no defined
  result (an array indexed out of bounds, a list walk that does not end).
\<close>

datatype find_result = Found nat | NotFound | Undef

record 'i index_ops =
  ix_reset :: "'i \<Rightarrow> 'i"
  ix_insert :: "nat \<Rightarrow> hmem \<times> 'i \<Rightarrow> hmem \<times> 'i"
  ix_remove :: "nat \<Rightarrow> hmem \<times> 'i \<Rightarrow> hmem \<times> 'i"
  ix_find :: "nat \<Rightarrow> hmem \<times> 'i \<Rightarrow> find_result \<times> 'i"

subsection \<open>The heap counters of the perf module\<close>

record perf_heap =
  ph_allocs :: u32w
  ph_frees :: u32w
  ph_oom :: u32w
  ph_splits :: u32w
  ph_coalesces :: u32w
  ph_peak :: nat
  ph_per_class :: "nat \<Rightarrow> u32w"

definition perf_heap_size_class :: "nat \<Rightarrow> nat" where
  "perf_heap_size_class sz =
     (if sz \<le> 8 then 0 else if sz \<le> 16 then 1 else if sz \<le> 32 then 2
      else if sz \<le> 64 then 3 else if sz \<le> 128 then 4 else if sz \<le> 256 then 5
      else if sz \<le> 512 then 6 else 7)"

definition v_perf_on_heap_alloc :: "nat \<Rightarrow> bool \<Rightarrow> nat \<Rightarrow> perf_heap \<Rightarrow> perf_heap" where
  "v_perf_on_heap_alloc sz did_split allocation_size p =
     (let p = p\<lparr>ph_allocs := ph_allocs p + 1\<rparr>;
          p = (if did_split then p\<lparr>ph_splits := ph_splits p + 1\<rparr> else p);
          c = perf_heap_size_class sz;
          p = p\<lparr>ph_per_class := (ph_per_class p)(c := ph_per_class p c + 1)\<rparr>
      in if allocation_size > ph_peak p then p\<lparr>ph_peak := allocation_size\<rparr> else p)"

definition v_perf_on_heap_free :: "nat \<Rightarrow> perf_heap \<Rightarrow> perf_heap" where
  "v_perf_on_heap_free coalesces p =
     p\<lparr>ph_frees := ph_frees p + 1, ph_coalesces := ph_coalesces p + of_nat coalesces\<rparr>"

definition v_perf_on_heap_oom :: "perf_heap \<Rightarrow> perf_heap" where
  "v_perf_on_heap_oom p = p\<lparr>ph_oom := ph_oom p + 1\<rparr>"

section \<open>The backend contract\<close>

text \<open>
  \<open>files m i S\<close>: index \<open>i\<close>, with its links in memory \<open>m\<close>, files exactly the free blocks
  \<open>S\<close>. \<open>can_file\<close> and \<open>can_find\<close> bound the sizes a backend supports.
\<close>

locale heap_index =
  fixes ops :: "'i index_ops"
    and files :: "hmem \<Rightarrow> 'i \<Rightarrow> nat set \<Rightarrow> bool"
    and can_file :: "nat \<Rightarrow> bool"
    and can_find :: "nat \<Rightarrow> bool"
  assumes files_reset: "files m (ix_reset ops i) {}"
    and files_insert: "files m i S \<Longrightarrow> b \<notin> S \<Longrightarrow> b \<noteq> 0 \<Longrightarrow> can_file (hb_size (hm_hdr m b)) \<Longrightarrow>
      ix_insert ops b (m, i) = (m', i') \<Longrightarrow> files m' i' (insert b S) \<and> hm_hdr m' = hm_hdr m"
    and files_remove: "files m i S \<Longrightarrow> b \<in> S \<Longrightarrow> ix_remove ops b (m, i) = (m', i') \<Longrightarrow>
      files m' i' (S - {b}) \<and> hm_hdr m' = hm_hdr m"
    and files_find: "files m i S \<Longrightarrow> can_find n \<Longrightarrow> ix_find ops n (m, i) = (r, i') \<Longrightarrow>
      files m i' S \<and> r \<noteq> Undef \<and> (\<forall>b. r = Found b \<longrightarrow> b \<in> S \<and> n \<le> hb_size (hm_hdr m b))"
    and files_frame: "files m i S \<Longrightarrow> hm_node m' = hm_node m \<Longrightarrow>
      (\<And>b. b \<in> S \<Longrightarrow> hb_size (hm_hdr m' b) = hb_size (hm_hdr m b)) \<Longrightarrow> files m' i S"

text \<open>A backend whose search is exhaustive: it misses no block that fits.\<close>

locale heap_index_first_fit = heap_index +
  assumes find_exhaustive: "files m i S \<Longrightarrow> can_find n \<Longrightarrow> ix_find ops n (m, i) = (NotFound, i') \<Longrightarrow>
      b \<in> S \<Longrightarrow> hb_size (hm_hdr m b) < n"

section \<open>Doubly linked free lists\<close>

text \<open>
  Both backends thread their free lists through \<open>next_free\<close>/\<open>prev_free\<close>; the pushes and
  unlinks below are the link updates of \<open>vheap_index_insert\<close> and \<open>vheap_index_remove\<close>.
\<close>

abbreviation nxf :: "hmem \<Rightarrow> nat \<Rightarrow> nat" where "nxf m b \<equiv> next_free (hm_node m b)"
abbreviation pvf :: "hmem \<Rightarrow> nat \<Rightarrow> nat" where "pvf m b \<equiv> prev_free (hm_node m b)"

definition push_free :: "nat \<Rightarrow> nat \<Rightarrow> hmem \<Rightarrow> hmem" where
  "push_free blk fp m =
     (let m = set_prev_free blk 0 m;
          m = set_next_free blk fp m
      in if fp \<noteq> 0 then set_prev_free fp blk m else m)"

definition free_list :: "hmem \<Rightarrow> nat \<Rightarrow> nat list \<Rightarrow> bool" where
  "free_list m fp xs \<longleftrightarrow> (\<exists>lp. dll (nxf m) (pvf m) fp xs lp) \<and> distinct xs"

lemma push_free_hdr [simp]: "hm_hdr (push_free b h m) = hm_hdr m"
  by (simp add: push_free_def Let_def)

lemma push_free_other: "a \<noteq> b \<Longrightarrow> a \<noteq> fp \<Longrightarrow> hm_node (push_free b fp m) a = hm_node m a"
  by (simp add: push_free_def Let_def)

lemma free_list_Nil [simp]: "free_list m fp [] \<longleftrightarrow> fp = 0"
  by (simp add: free_list_def)

lemma free_list_hd: "free_list m fp xs \<Longrightarrow> fp = (case xs of [] \<Rightarrow> 0 | b # _ \<Rightarrow> b)"
  by (auto simp: free_list_def dest: dll_hd)

lemma free_list_not_null: "free_list m fp xs \<Longrightarrow> 0 \<notin> set xs"
  by (auto simp: free_list_def dest: dll_not_null)

lemma free_list_cong:
  assumes "\<And>b. b \<in> set xs \<Longrightarrow> hm_node m' b = hm_node m b"
  shows "free_list m' fp xs = free_list m fp xs"
proof -
  have "dll (nxf m') (pvf m') fp xs lp = dll (nxf m) (pvf m) fp xs lp" for lp
    by (rule dll_cong) (simp add: assms)
  then show ?thesis by (simp add: free_list_def)
qed

lemma free_list_push:
  assumes "free_list m fp xs" "b \<notin> set xs" "b \<noteq> 0"
  shows "free_list (push_free b fp m) b (b # xs)"
proof -
  obtain lp where lp: "dll (nxf m) (pvf m) fp xs lp" and d: "distinct xs"
    using assms(1) by (auto simp: free_list_def)
  have fp: "fp \<noteq> b"
    using dll_hd [OF lp] assms(2,3) by (auto split: list.splits)
  have "dll (nxf (push_free b fp m)) (pvf (push_free b fp m)) b (b # xs)
      (if xs = [] then b else lp)"
    by (rule dll_push [OF lp d assms(3,2)]) (use assms fp in \<open>auto simp: push_free_def Let_def\<close>)
  then show ?thesis using d assms by (auto simp: free_list_def)
qed

section \<open>Free lists by size class\<close>

text \<open>
  \<open>class_lists cls C m h L\<close>: for each class in \<open>C\<close>, the list from its head \<open>h c\<close> is \<open>L c\<close>, and holds
  blocks of that class only.
\<close>

definition class_lists :: "(nat \<Rightarrow> 'c) \<Rightarrow> 'c set \<Rightarrow> hmem \<Rightarrow> ('c \<Rightarrow> nat) \<Rightarrow> ('c \<Rightarrow> nat list) \<Rightarrow> bool" where
  "class_lists cls C m h L \<longleftrightarrow>
     (\<forall>c \<in> C. free_list m (h c) (L c) \<and> (\<forall>b \<in> set (L c). cls (hb_size (hm_hdr m b)) = c))"

lemma class_listsD:
  assumes "class_lists cls C m h L" "c \<in> C"
  shows "free_list m (h c) (L c)" "distinct (L c)" "0 \<notin> set (L c)"
    "b \<in> set (L c) \<Longrightarrow> cls (hb_size (hm_hdr m b)) = c"
  using assms free_list_not_null [of m "h c" "L c"]
  by (simp_all add: class_lists_def) (simp add: free_list_def)

lemma class_lists_disjoint:
  assumes "class_lists cls C m h L" "c \<in> C" "d \<in> C" "b \<in> set (L c)" "b \<in> set (L d)"
  shows "c = d"
  using class_listsD(4) [OF assms(1,2,4)] class_listsD(4) [OF assms(1,3,5)] by simp

lemma class_head_in:
  assumes "class_lists cls C m h L" "c \<in> C" "h c \<noteq> 0"
  shows "h c \<in> set (L c)"
  using free_list_hd [OF class_listsD(1) [OF assms(1,2)]] assms(3) by (auto split: list.splits)

lemma class_head_empty: "class_lists cls C m h L \<Longrightarrow> c \<in> C \<Longrightarrow> L c = [] \<longleftrightarrow> h c = 0"
  using free_list_hd [OF class_listsD(1), of cls C m h L c] class_listsD(3) [of cls C m h L c]
  by (cases "L c") auto

lemma class_lists_frame:
  assumes "class_lists cls C m h L" "hm_node m' = hm_node m"
    and "\<And>c b. c \<in> C \<Longrightarrow> b \<in> set (L c) \<Longrightarrow> hb_size (hm_hdr m' b) = hb_size (hm_hdr m b)"
  shows "class_lists cls C m' h L"
proof -
  have "free_list m' (h c) (L c) = free_list m (h c) (L c)" for c
    by (rule free_list_cong) (simp add: assms(2))
  then show ?thesis using assms(1,3) by (auto simp: class_lists_def)
qed

lemma class_lists_push:
  assumes L: "class_lists cls C m h L" and b: "\<And>d. d \<in> C \<Longrightarrow> b \<notin> set (L d)" "b \<noteq> 0"
    and c: "c = cls (hb_size (hm_hdr m b))" "c \<in> C"
  shows "class_lists cls C (push_free b (h c) m) (h(c := b)) (L(c := b # L c))"
proof -
  let ?m' = "push_free b (h c) m"
  have other: "free_list ?m' (h d) (L d)" if d: "d \<in> C" "d \<noteq> c" for d
  proof -
    have "hm_node ?m' a = hm_node m a" if a: "a \<in> set (L d)" for a
    proof -
      have "a \<noteq> b" using a b(1) [OF d(1)] by auto
      moreover have "a \<noteq> h c"
        using a class_head_in [OF L c(2)] class_lists_disjoint [OF L d(1) c(2)] class_listsD(3) [OF L d(1)] d(2) by metis
      ultimately show ?thesis by (simp add: push_free_other)
    qed
    then show ?thesis using free_list_cong class_listsD(1) [OF L d(1)] by blast
  qed
  have "free_list ?m' b (b # L c)"
    by (rule free_list_push [OF class_listsD(1) [OF L c(2)] b(1) [OF c(2)] b(2)])
  moreover have "\<forall>a \<in> set (L e). cls (hb_size (hm_hdr ?m' a)) = e" if "e \<in> C" for e
    using class_listsD(4) [OF L that] by simp
  moreover have "cls (hb_size (hm_hdr ?m' b)) = c" by (simp add: c(1))
  ultimately show ?thesis
    using other unfolding class_lists_def by simp
qed

text \<open>Taking \<open>b\<close> out of its list: what an unlink has to do to the links and to the head.\<close>

lemma class_lists_unlink:
  assumes L: "class_lists cls C m h L" and b: "b \<in> set (L c)" "c \<in> C" and hdr: "hm_hdr m' = hm_hdr m"
    and nx: "\<And>a. nxf m' a = (if a = pvf m b \<and> pvf m b \<noteq> 0 then nxf m b else nxf m a)"
    and pv: "\<And>a. pvf m' a = (if a = nxf m b \<and> nxf m b \<noteq> 0 then pvf m b else pvf m a)"
  shows "class_lists cls C m' (if pvf m b \<noteq> 0 then h else h(c := nxf m b)) (L(c := remove1 b (L c)))"
    "pvf m b = 0 \<Longrightarrow> remove1 b (L c) = [] \<longleftrightarrow> nxf m b = 0" "pvf m b \<noteq> 0 \<Longrightarrow> remove1 b (L c) \<noteq> []"
proof -
  let ?p = "pvf m b" and ?n = "nxf m b"
  let ?h = "if ?p \<noteq> 0 then h else h(c := ?n)"
  obtain xs ys where sp: "L c = xs @ b # ys" using b(1) by (meson split_list)
  obtain lp where d: "dll (nxf m) (pvf m) (h c) (xs @ b # ys) lp" and dist: "distinct (xs @ b # ys)"
    using class_listsD(1) [OF L b(2)] sp by (auto simp: free_list_def)
  have r: "remove1 b (L c) = xs @ ys" using dist sp by (simp add: remove1_append)
  have pn: "?p \<noteq> 0 \<Longrightarrow> ?p \<in> set (L c)" "?n \<noteq> 0 \<Longrightarrow> ?n \<in> set (L c)"
    using dll_neighbours [OF d dist] sp by auto
  have node: "hm_node m' a = hm_node m a" if "a \<notin> set (L c)" "a \<noteq> 0" for a
    using nx [of a] pv [of a] that pn by (intro free_node.equality) auto
  have u: "dll (nxf m') (pvf m') (if ?p \<noteq> 0 then h c else ?n) (xs @ ys) (if ?n \<noteq> 0 then lp else ?p)"
    by (rule dll_unlink [OF d dist]) (auto simp: nx pv)
  then have fl: "free_list m' (?h c) (xs @ ys)" using dist by (auto simp: free_list_def)
  have other: "free_list m' (?h e) (L e)" if e: "e \<in> C" "e \<noteq> c" for e
  proof -
    have "hm_node m' a = hm_node m a" if a: "a \<in> set (L e)" for a
      using a class_lists_disjoint [OF L e(1) b(2)] class_listsD(3) [OF L e(1)] e(2)
      by (intro node) (auto intro: ccontr)
    then have "free_list m' (h e) (L e)" using free_list_cong class_listsD(1) [OF L e(1)] by blast
    then show ?thesis using e(2) by simp
  qed
  show "class_lists cls C m' ?h (L(c := remove1 b (L c)))"
    using fl other class_listsD(4) [OF L] sp b(2) unfolding r by (auto simp: class_lists_def hdr)
  show "?p = 0 \<Longrightarrow> remove1 b (L c) = [] \<longleftrightarrow> ?n = 0"
    unfolding r using dll_empty_iff [OF u] by simp
  show "?p \<noteq> 0 \<Longrightarrow> remove1 b (L c) \<noteq> []"
    unfolding r using dll_neighbours(1) [OF d dist] by auto
qed

lemma class_sets_remove:
  assumes L: "class_lists cls C m h L" and b: "b \<in> set (L c)" "c \<in> C"
  shows "(\<Union>e \<in> C. set ((L(c := remove1 b (L c))) e)) = (\<Union>e \<in> C. set (L e)) - {b}"
proof -
  have "set ((L(c := remove1 b (L c))) e) = set (L e) - {b}" if e: "e \<in> C" for e
  proof (cases "e = c")
    case True
    then show ?thesis using class_listsD(2) [OF L b(2)] by (simp add: set_remove1_eq)
  next
    case False
    then have "b \<notin> set (L e)" using class_lists_disjoint [OF L e b(2)] b(1) by blast
    then show ?thesis using False by simp
  qed
  then show ?thesis by blast
qed

end
