(* ===== verification/Heap_Seglist.thy ===== *)
theory Heap_Seglist
  imports Heap_Base
begin

text \<open>
  The segregated-fit free-block index, \<open>kernel/memory/seglist.c\<close>: eight doubly linked
  size-class lists. \<open>sl_probes\<close> is the global \<open>vheap_find_probes\<close> this backend writes.
  The first-fit walk follows \<open>next_free\<close> until NULL; on a circular list it would not end,
  which is \<open>None\<close>.

  The interpretation \<open>seg\<close> shows that the backend meets the contract \<open>heap_index\<close>, and
  that its search is exhaustive.
\<close>

section \<open>Definitions\<close>

record seglist =
  free_lists :: "nat \<Rightarrow> nat"
  sl_probes :: nat

abbreviation (input) NUM_SIZE_CLASSES :: nat where "NUM_SIZE_CLASSES \<equiv> 8"

definition size_class :: "nat \<Rightarrow> nat" where
  "size_class sz =
     (if sz \<le> 8 then 0
      else if sz \<le> 16 then 1
      else if sz \<le> 32 then 2
      else if sz \<le> 64 then 3
      else if sz \<le> 128 then 4
      else if sz \<le> 256 then 5
      else if sz \<le> 512 then 6
      else 7)"

definition seg_index_reset :: "seglist \<Rightarrow> seglist" where
  "seg_index_reset i =
     i\<lparr>free_lists := (\<lambda>c. if c < NUM_SIZE_CLASSES then 0 else free_lists i c)\<rparr>"

definition seg_index_insert :: "nat \<Rightarrow> hmem \<times> seglist \<Rightarrow> hmem \<times> seglist" where
  "seg_index_insert blk = (\<lambda>(m, i).
     let c = size_class (hb_size (hm_hdr m blk));
         m = push_free blk (free_lists i c) m
     in (m, i\<lparr>free_lists := (free_lists i)(c := blk)\<rparr>))"

definition seg_index_remove :: "nat \<Rightarrow> hmem \<times> seglist \<Rightarrow> hmem \<times> seglist" where
  "seg_index_remove blk = (\<lambda>(m, i).
     let n = hm_node m blk;
         (m, i) =
           (if prev_free n \<noteq> 0 then (set_next_free (prev_free n) (next_free n) m, i)
            else (m, i\<lparr>free_lists := (free_lists i)
                          (size_class (hb_size (hm_hdr m blk)) := next_free n)\<rparr>));
         m = (if next_free n \<noteq> 0 then set_prev_free (next_free n) (prev_free n) m else m)
     in (m, i))"

partial_function (option) seg_first_fit ::
    "hmem \<Rightarrow> nat \<Rightarrow> nat \<Rightarrow> nat \<Rightarrow> (nat \<times> nat) option" where
  "seg_first_fit m sz b probes =
     (if b = 0 then Some (0, probes)
      else
        let probes = probes + 1
        in if hb_size (hm_hdr m b) \<ge> sz then Some (b, probes)
           else seg_first_fit m sz (nxf m b) probes)"

declare seg_first_fit.simps [code]

fun seg_higher :: "seglist \<Rightarrow> nat list \<Rightarrow> nat \<Rightarrow> nat \<times> nat" where
  "seg_higher i [] probes = (0, probes)"
| "seg_higher i (k # ks) probes =
     (let probes = probes + 1
      in if free_lists i k \<noteq> 0 then (free_lists i k, probes) else seg_higher i ks probes)"

definition seg_index_find :: "nat \<Rightarrow> hmem \<times> seglist \<Rightarrow> find_result \<times> seglist" where
  "seg_index_find sz = (\<lambda>(m, i).
     let c = size_class sz in
     case seg_first_fit m sz (free_lists i c) 0 of
       None \<Rightarrow> (Undef, i)
     | Some (b, probes) \<Rightarrow>
         if b \<noteq> 0 then (Found b, i\<lparr>sl_probes := probes\<rparr>)
         else
           let (b, probes) = seg_higher i [c + 1..<NUM_SIZE_CLASSES] probes
           in (if b \<noteq> 0 then Found b else NotFound, i\<lparr>sl_probes := probes\<rparr>))"

definition seg_ops :: "seglist index_ops" where
  "seg_ops = \<lparr>ix_reset = seg_index_reset, ix_insert = seg_index_insert,
     ix_remove = seg_index_remove, ix_find = seg_index_find\<rparr>"

section \<open>The filing invariant\<close>

definition seg_lists :: "hmem \<Rightarrow> seglist \<Rightarrow> (nat \<Rightarrow> nat list) \<Rightarrow> bool" where
  "seg_lists m i L \<longleftrightarrow> class_lists size_class {..<NUM_SIZE_CLASSES} m (free_lists i) L"

definition seg_files :: "hmem \<Rightarrow> seglist \<Rightarrow> nat set \<Rightarrow> bool" where
  "seg_files m i S \<longleftrightarrow> (\<exists>L. seg_lists m i L \<and> S = (\<Union>c < NUM_SIZE_CLASSES. set (L c)))"

section \<open>Lemmas\<close>

lemma size_class_less [simp]: "size_class sz < 8"
  by (simp add: size_class_def)

lemma size_class_mono: "size_class a < size_class b \<Longrightarrow> a < b"
  by (auto simp: size_class_def split: if_splits)

lemma seg_listsD:
  assumes "seg_lists m i L" "c < 8"
  shows "free_list m (free_lists i c) (L c)" "distinct (L c)" "0 \<notin> set (L c)"
    "b \<in> set (L c) \<Longrightarrow> size_class (hb_size (hm_hdr m b)) = c"
  using class_listsD [OF assms(1) [unfolded seg_lists_def], of c] assms(2) by simp_all

lemma seg_head_in:
  "seg_lists m i L \<Longrightarrow> c < 8 \<Longrightarrow> free_lists i c \<noteq> 0 \<Longrightarrow> free_lists i c \<in> set (L c)"
  using class_head_in [of size_class "{..<8}" m "free_lists i" L c] by (simp add: seg_lists_def)

lemma seg_files_reset: "seg_files m (seg_index_reset i) {}"
  by (auto simp: seg_files_def seg_lists_def class_lists_def seg_index_reset_def intro!: exI [of _ "\<lambda>_. []"])

lemma seg_files_frame:
  assumes "seg_files m i S" "hm_node m' = hm_node m"
    and "\<And>b. b \<in> S \<Longrightarrow> hb_size (hm_hdr m' b) = hb_size (hm_hdr m b)"
  shows "seg_files m' i S"
proof -
  from assms(1) obtain L where L: "seg_lists m i L" "S = (\<Union>c < 8. set (L c))"
    by (auto simp: seg_files_def)
  have "seg_lists m' i L"
    unfolding seg_lists_def
    by (rule class_lists_frame [OF L(1) [unfolded seg_lists_def] assms(2)]) (use L(2) assms(3) in auto)
  then show ?thesis using L(2) by (auto simp: seg_files_def)
qed

lemma seg_files_insert:
  assumes "seg_files m i S" "b \<notin> S" "b \<noteq> 0" "seg_index_insert b (m, i) = (m', i')"
  shows "seg_files m' i' (insert b S) \<and> hm_hdr m' = hm_hdr m"
proof -
  from assms(1) obtain L where L: "seg_lists m i L" and S: "S = (\<Union>c < 8. set (L c))"
    by (auto simp: seg_files_def)
  define c where "c = size_class (hb_size (hm_hdr m b))"
  have c8: "c < 8" by (simp add: c_def)
  have m': "m' = push_free b (free_lists i c) m" and i': "i' = i\<lparr>free_lists := (free_lists i)(c := b)\<rparr>"
    using assms(4) by (auto simp: seg_index_insert_def c_def Let_def)
  have "class_lists size_class {..<8} m' ((free_lists i)(c := b)) (L(c := b # L c))"
    unfolding m'
    by (rule class_lists_push [OF L [unfolded seg_lists_def] _ assms(3) c_def]) (use assms(2) S c8 in auto)
  then have "seg_lists m' i' (L(c := b # L c))" by (simp add: seg_lists_def i')
  moreover have "insert b S = (\<Union>d < 8. set ((L(c := b # L c)) d))" using c8 by (auto simp: S split: if_splits)
  ultimately have "seg_files m' i' (insert b S)" unfolding seg_files_def by blast
  then show ?thesis by (simp add: m')
qed

lemma seg_files_remove:
  assumes "seg_files m i S" "b \<in> S" "seg_index_remove b (m, i) = (m', i')"
  shows "seg_files m' i' (S - {b}) \<and> hm_hdr m' = hm_hdr m"
proof -
  from assms(1) obtain L where L: "seg_lists m i L" and S: "S = (\<Union>c < 8. set (L c))"
    by (auto simp: seg_files_def)
  note C = L [unfolded seg_lists_def]
  define c where "c = size_class (hb_size (hm_hdr m b))"
  have c8: "c \<in> {..<8}" by (simp add: c_def)
  have bc: "b \<in> set (L c)" using assms(2) S seg_listsD(4) [OF L] by (auto simp: c_def)
  have hdr: "hm_hdr m' = hm_hdr m"
    using assms(3) by (auto simp: seg_index_remove_def Let_def split: if_splits)
  have i': "free_lists i' = (if pvf m b \<noteq> 0 then free_lists i else (free_lists i)(c := nxf m b))"
    using assms(3) by (auto simp: seg_index_remove_def c_def Let_def split: if_splits)
  have "class_lists size_class {..<8} m' (if pvf m b \<noteq> 0 then free_lists i else (free_lists i)(c := nxf m b))
      (L(c := remove1 b (L c)))"
    by (rule class_lists_unlink(1) [OF C bc c8 hdr])
      (use assms(3) in \<open>auto simp: seg_index_remove_def Let_def split: if_splits\<close>)
  then have "seg_lists m' i' (L(c := remove1 b (L c)))" unfolding seg_lists_def i' .
  moreover have "S - {b} = (\<Union>e < 8. set ((L(c := remove1 b (L c))) e))"
    unfolding S by (rule class_sets_remove [OF C bc c8, symmetric])
  ultimately have "seg_files m' i' (S - {b})" unfolding seg_files_def by blast
  then show ?thesis using hdr by simp
qed

text \<open>The walk over one class, and the scan of the higher classes.\<close>

lemma seg_first_fit_list:
  assumes "free_list m b xs"
  shows "\<exists>r probes. seg_first_fit m sz b k = Some (r, probes) \<and>
    (if r = 0 then \<forall>a \<in> set xs. hb_size (hm_hdr m a) < sz
     else r \<in> set xs \<and> sz \<le> hb_size (hm_hdr m r))"
proof -
  obtain lp where "dseg (nxf m) (pvf m) 0 b xs lp 0"
    using assms by (auto simp: free_list_def dll_def)
  then show ?thesis
  proof (induction b xs arbitrary: k rule: dseg_walk_induct)
    case Nil
    then show ?case by (subst seg_first_fit.simps) simp
  next
    case (Cons a as)
    show ?case
    proof (cases "sz \<le> hb_size (hm_hdr m a)")
      case True
      then show ?thesis using Cons by (subst seg_first_fit.simps) simp
    next
      case False
      obtain r probes where r: "seg_first_fit m sz (nxf m a) (k + 1) = Some (r, probes)"
        "if r = 0 then \<forall>c \<in> set as. hb_size (hm_hdr m c) < sz
         else r \<in> set as \<and> sz \<le> hb_size (hm_hdr m r)"
        using Cons(2) [of "k + 1"] by blast
      have "seg_first_fit m sz a k = Some (r, probes)"
        using False Cons r(1) by (subst seg_first_fit.simps) simp
      then show ?thesis using False r(2) by (auto split: if_splits)
    qed
  qed
qed


lemma seg_higher_scan:
  assumes "seg_lists m i L" "\<And>k. k \<in> set ks \<Longrightarrow> k < 8" "seg_higher i ks p = (r, p')"
  shows "if r = 0 then \<forall>k \<in> set ks. L k = [] else \<exists>k \<in> set ks. r \<in> set (L k)"
  using assms(2,3)
proof (induction ks arbitrary: p)
  case Nil
  then show ?case by simp
next
  case (Cons k ks)
  then have k8: "k < 8" by simp
  show ?case
  proof (cases "free_lists i k = 0")
    case True
    then have "L k = []"
      using free_list_hd [OF seg_listsD(1) [OF assms(1) k8]] seg_listsD(3) [OF assms(1) k8]
      by (cases "L k") auto
    then show ?thesis using Cons True by (auto split: if_splits)
  next
    case False
    then show ?thesis using Cons.prems seg_head_in [OF assms(1) k8] by auto
  qed
qed

lemma seg_files_find:
  assumes "seg_files m i S" "seg_index_find n (m, i) = (r, i')"
  shows "seg_files m i' S \<and> r \<noteq> Undef \<and>
    (\<forall>b. r = Found b \<longrightarrow> b \<in> S \<and> n \<le> hb_size (hm_hdr m b)) \<and>
    (r = NotFound \<longrightarrow> (\<forall>b \<in> S. hb_size (hm_hdr m b) < n))"
proof -
  from assms(1) obtain L where L: "seg_lists m i L" and S: "S = (\<Union>c < 8. set (L c))"
    by (auto simp: seg_files_def)
  let ?c = "size_class n"
  obtain b p where w: "seg_first_fit m n (free_lists i ?c) 0 = Some (b, p)"
    "if b = 0 then \<forall>a \<in> set (L ?c). hb_size (hm_hdr m a) < n
     else b \<in> set (L ?c) \<and> n \<le> hb_size (hm_hdr m b)"
    using seg_first_fit_list [OF seg_listsD(1) [OF L size_class_less]] by blast
  obtain b' p' where h: "seg_higher i [?c + 1..<8] p = (b', p')" by fastforce
  have up: "n \<le> hb_size (hm_hdr m a)" if "a \<in> set (L k)" "k \<in> set [?c + 1..<8]" for a k
    using that seg_listsD(4) [OF L, of k a] size_class_mono [of n "hb_size (hm_hdr m a)"] by auto
  have down: "hb_size (hm_hdr m a) < n" if "a \<in> set (L k)" "k < ?c" for a k
    using that seg_listsD(4) [OF L, of k a] size_class_mono [of "hb_size (hm_hdr m a)" n]
      size_class_less [of n] by auto
  have i': "seg_files m i' S"
  proof -
    have "free_lists i' = free_lists i"
      using assms(2) w(1) h by (auto simp: seg_index_find_def Let_def split: if_splits)
    then have "seg_lists m i' L" using L by (simp add: seg_lists_def)
    then show ?thesis unfolding seg_files_def S by blast
  qed
  show ?thesis
  proof (cases "b = 0")
    case False
    then have "r = Found b" using assms(2) w(1) by (auto simp: seg_index_find_def Let_def)
    then show ?thesis using False w(2) i' S size_class_less [of n] by auto
  next
    case b0: True
    have hs: "if b' = 0 then \<forall>k \<in> set [?c + 1..<8]. L k = []
        else \<exists>k \<in> set [?c + 1..<8]. b' \<in> set (L k)"
      by (rule seg_higher_scan [OF L _ h]) simp
    show ?thesis
    proof (cases "b' = 0")
      case True
      then have r: "r = NotFound"
        using assms(2) w(1) h b0 by (auto simp: seg_index_find_def Let_def split: if_splits)
      have "hb_size (hm_hdr m a) < n" if aS: "a \<in> S" for a
      proof -
        obtain k where k: "k < 8" "a \<in> set (L k)" using aS S by auto
        consider "k < ?c" | "k = ?c" | "k \<in> set [?c + 1..<8]" using k by fastforce
        then show ?thesis
          using down k w(2) b0 hs True by cases (auto simp del: set_upt)
      qed
      then show ?thesis using r i' by simp
    next
      case False
      then have r: "r = Found b'"
        using assms(2) w(1) h b0 by (auto simp: seg_index_find_def Let_def split: if_splits)
      obtain k where "k \<in> set [?c + 1..<8]" "b' \<in> set (L k)" using hs False by auto
      then show ?thesis using r i' up S by auto
    qed
  qed
qed

interpretation seg: heap_index_first_fit seg_ops seg_files "\<lambda>_. True" "\<lambda>_. True"
proof unfold_locales
  fix m i
  show "seg_files m (ix_reset seg_ops i) {}" by (simp add: seg_ops_def seg_files_reset)
next
  fix m i S b m' i'
  assume "seg_files m i S" "b \<notin> S" "b \<noteq> 0" "ix_insert seg_ops b (m, i) = (m', i')"
  then show "seg_files m' i' (insert b S) \<and> hm_hdr m' = hm_hdr m"
    by (intro seg_files_insert) (simp_all add: seg_ops_def)
next
  fix m i S b m' i'
  assume "seg_files m i S" "b \<in> S" "ix_remove seg_ops b (m, i) = (m', i')"
  then show "seg_files m' i' (S - {b}) \<and> hm_hdr m' = hm_hdr m"
    by (intro seg_files_remove) (simp_all add: seg_ops_def)
next
  fix m i S n r i'
  assume "seg_files m i S" "ix_find seg_ops n (m, i) = (r, i')"
  then show "seg_files m i' S \<and> r \<noteq> Undef \<and>
      (\<forall>b. r = Found b \<longrightarrow> b \<in> S \<and> n \<le> hb_size (hm_hdr m b))"
    using seg_files_find by (simp add: seg_ops_def)
next
  fix m i S n i' b
  assume "seg_files m i S" "ix_find seg_ops n (m, i) = (NotFound, i')" "b \<in> S"
  then show "hb_size (hm_hdr m b) < n"
    using seg_files_find [of m i S n NotFound i'] by (simp add: seg_ops_def)
qed (rule seg_files_frame)

end
