(* ===== verification/Heap_Tlsf.thy ===== *)
theory Heap_Tlsf
  imports Heap_Base
begin

text \<open>
  The TLSF free-block index, \<open>kernel/memory/tlsf.c\<close>: lists by octave and by sixteenth of an octave,
  with one bitmap of the non-empty octaves and one per octave of its non-empty lists. A list is named by
  the pair \<open>(fl, sl)\<close>. \<open>tl_probes\<close> is the global \<open>vheap_find_probes\<close>. Indexing the arrays beyond octave 13 is
  undefined, as is scanning an empty bitmap.

  The interpretation \<open>tlsf\<close> shows that the backend meets the contract \<open>heap_index\<close>; its search is a good
  fit: it can miss blocks, but only those less than a sixteenth larger than the request.
\<close>

section \<open>Definitions\<close>

record tlsf =
  tl_blocks :: "nat \<times> nat \<Rightarrow> nat"
  fl_bitmap :: u32w
  sl_bitmap :: "nat \<Rightarrow> u32w"
  tl_probes :: nat

abbreviation (input) SL_INDEX_COUNT :: nat where "SL_INDEX_COUNT \<equiv> 16"
abbreviation (input) SL_INDEX_COUNT_LOG2 :: nat where "SL_INDEX_COUNT_LOG2 \<equiv> 4"
abbreviation (input) FL_INDEX_MAX :: nat where "FL_INDEX_MAX \<equiv> 20"
abbreviation (input) FL_INDEX_SHIFT :: nat where "FL_INDEX_SHIFT \<equiv> 7"
abbreviation (input) FL_INDEX_COUNT :: nat where "FL_INDEX_COUNT \<equiv> 14"
abbreviation (input) SMALL_BLOCK_SIZE :: nat where "SMALL_BLOCK_SIZE \<equiv> 128"

definition tlsf_fls :: "nat \<Rightarrow> nat" where
  "tlsf_fls x = bit_fls x"

definition tlsf_ffs :: "u32w \<Rightarrow> nat" where
  "tlsf_ffs x = bit_ffs (unat x)"

definition mapping_insert :: "nat \<Rightarrow> nat \<times> nat" where
  "mapping_insert sz =
     (if sz < SMALL_BLOCK_SIZE then (0, sz div (SMALL_BLOCK_SIZE div SL_INDEX_COUNT))
      else
        let fl = tlsf_fls sz;
            sl = drop_bit (fl - SL_INDEX_COUNT_LOG2) sz XOR SL_INDEX_COUNT
        in (fl - (FL_INDEX_SHIFT - 1), sl))"

definition mapping_search :: "nat \<Rightarrow> nat \<times> nat" where
  "mapping_search sz =
     (let sz = (if sz \<ge> SMALL_BLOCK_SIZE
                  then u32 (sz + (2 ^ (tlsf_fls sz - SL_INDEX_COUNT_LOG2) - 1)) else sz)
      in mapping_insert sz)"

definition tlsf_index_reset :: "tlsf \<Rightarrow> tlsf" where
  "tlsf_index_reset i =
     i\<lparr>fl_bitmap := 0,
       sl_bitmap := (\<lambda>f. if f < FL_INDEX_COUNT then 0 else sl_bitmap i f),
       tl_blocks := (\<lambda>(f, s). if f < FL_INDEX_COUNT \<and> s < SL_INDEX_COUNT then 0 else tl_blocks i (f, s))\<rparr>"

definition tlsf_index_insert :: "nat \<Rightarrow> hmem \<times> tlsf \<Rightarrow> hmem \<times> tlsf" where
  "tlsf_index_insert blk = (\<lambda>(m, i).
     let (fl, sl) = mapping_insert (hb_size (hm_hdr m blk));
         m = push_free blk (tl_blocks i (fl, sl)) m;
         i = i\<lparr>tl_blocks := (tl_blocks i)((fl, sl) := blk)\<rparr>;
         i = i\<lparr>fl_bitmap := fl_bitmap i OR push_bit fl 1\<rparr>
     in (m, i\<lparr>sl_bitmap := (sl_bitmap i)(fl := sl_bitmap i fl OR push_bit sl 1)\<rparr>))"

definition tlsf_index_remove :: "nat \<Rightarrow> hmem \<times> tlsf \<Rightarrow> hmem \<times> tlsf" where
  "tlsf_index_remove blk = (\<lambda>(m, i).
     let (fl, sl) = mapping_insert (hb_size (hm_hdr m blk));
         n = hm_node m blk;
         m = (if next_free n \<noteq> 0 then set_prev_free (next_free n) (prev_free n) m else m)
     in if prev_free n \<noteq> 0 then (set_next_free (prev_free n) (next_free n) m, i)
        else
          let i = i\<lparr>tl_blocks := (tl_blocks i)((fl, sl) := next_free n)\<rparr>
          in if next_free n = 0 then
               let i = i\<lparr>sl_bitmap := (sl_bitmap i)(fl := sl_bitmap i fl AND NOT (push_bit sl 1))\<rparr>
               in (m, if sl_bitmap i fl = 0 then i\<lparr>fl_bitmap := fl_bitmap i AND NOT (push_bit fl 1)\<rparr> else i)
             else (m, i))"

definition tlsf_take :: "nat \<Rightarrow> u32w \<Rightarrow> tlsf \<Rightarrow> find_result \<times> tlsf" where
  "tlsf_take fl sl_map i =
     (if sl_map = 0 then (Undef, i)
      else
        let b = tl_blocks i (fl, tlsf_ffs sl_map)
        in (if b \<noteq> 0 then Found b else NotFound, i))"

definition tlsf_index_find :: "nat \<Rightarrow> hmem \<times> tlsf \<Rightarrow> find_result \<times> tlsf" where
  "tlsf_index_find sz = (\<lambda>(m, i).
     let (fl, sl) = mapping_search sz
     in if fl \<ge> FL_INDEX_COUNT then (Undef, i)
        else
          let sl_map = sl_bitmap i fl AND push_bit sl (- 1)
          in if sl_map = 0 then
               let fl_map = fl_bitmap i AND push_bit (fl + 1) (- 1)
               in if fl_map = 0 then (NotFound, i\<lparr>tl_probes := 1\<rparr>)
                  else
                    let fl = tlsf_ffs fl_map
                    in tlsf_take fl (sl_bitmap i fl) (i\<lparr>tl_probes := 2\<rparr>)
             else tlsf_take fl sl_map (i\<lparr>tl_probes := 1\<rparr>))"

definition tlsf_ops :: "tlsf index_ops" where
  "tlsf_ops = \<lparr>ix_reset = tlsf_index_reset, ix_insert = tlsf_index_insert,
     ix_remove = tlsf_index_remove, ix_find = tlsf_index_find\<rparr>"

section \<open>The mapping of sizes\<close>

text \<open>The least size a list can hold.\<close>

fun slot_min :: "nat \<times> nat \<Rightarrow> nat" where
  "slot_min (f, s) = (if f = 0 then 8 * s else (16 + s) * 2 ^ (f + 2))"

lemma xor_16:
  assumes "16 \<le> x" "x < 32"
  shows "x XOR 16 = x - (16 :: nat)"
proof -
  have "\<forall>x \<in> set [16..<32]. x XOR 16 = x - (16 :: nat)" by code_simp
  moreover have "x \<in> set [16..<32]" using assms by (simp only: set_upt) simp
  ultimately show ?thesis by (rule bspec)
qed

lemma fls_octave:
  assumes "2 ^ k \<le> sz" "sz < 2 ^ Suc k" "7 \<le> k"
  shows "mapping_insert sz = (k - 6, sz div 2 ^ (k - 4) - 16)" "16 \<le> sz div 2 ^ (k - 4)" "sz div 2 ^ (k - 4) < 32"
proof -
  have f: "tlsf_fls sz = k" using assms(1,2) by (simp add: tlsf_fls_def bit_fls_unique)
  have p: "(2 :: nat) ^ k = 16 * 2 ^ (k - 4)" "(2 :: nat) ^ Suc k = 32 * 2 ^ (k - 4)"
    using assms(3) power_add [of "2 :: nat" 4 "k - 4"] by simp_all
  then show "16 \<le> sz div 2 ^ (k - 4)" "sz div 2 ^ (k - 4) < 32"
    using assms(1,2) by (simp_all add: less_eq_div_iff_mult_less_eq less_mult_imp_div_less)
  then have "drop_bit (k - 4) sz XOR 16 = sz div 2 ^ (k - 4) - 16" by (simp add: drop_bit_eq_div xor_16)
  moreover have "(128 :: nat) \<le> 2 ^ k" using assms(3) power_increasing [of 7 k "2 :: nat"] by simp
  ultimately show "mapping_insert sz = (k - 6, sz div 2 ^ (k - 4) - 16)"
    using f assms(1) by (simp add: mapping_insert_def)
qed

text \<open>Where a size is filed: below its slot's end, at or above its start.\<close>

lemma mapping_insert_bounds:
  assumes "mapping_insert sz = (f, s)"
  shows "s < 16" "slot_min (f, s) \<le> sz" "sz < slot_min (f, s) + (if f = 0 then 8 else 2 ^ (f + 2))"
    "sz < 2 ^ 20 \<Longrightarrow> f < 14"
proof -
  have "s < 16 \<and> slot_min (f, s) \<le> sz \<and> sz < slot_min (f, s) + (if f = 0 then 8 else 2 ^ (f + 2)) \<and>
    (sz < 2 ^ 20 \<longrightarrow> f < 14)"
  proof (cases "sz < 128")
    case True
    then show ?thesis using assms by (auto simp: mapping_insert_def)
  next
    case False
    define k where "k = bit_fls sz"
    have k: "2 ^ k \<le> sz" "sz < 2 ^ Suc k" using bit_fls_bounds [of sz] False by (simp_all add: k_def)
    have "(2 :: nat) ^ 7 < 2 ^ Suc k" using k(2) False by simp
    then have k7: "7 \<le> k" by (simp only: power_strict_increasing_iff [of "2 :: nat"])
    note o = fls_octave [OF k k7]
    let ?d = "2 ^ (k - 4) :: nat"
    have fs: "f = k - 6" "s = sz div ?d - 16" using o(1) assms by simp_all
    have "f + 2 = k - 4" "f \<noteq> 0" using k7 fs(1) by simp_all
    then have m: "slot_min (f, s) = sz div ?d * ?d" using o(2) fs(2) by simp
    have "sz = sz div ?d * ?d + sz mod ?d" "sz mod ?d < ?d"
      using div_mult_mod_eq [of sz ?d, symmetric] by simp_all
    then have "slot_min (f, s) \<le> sz" "sz < slot_min (f, s) + ?d" using m by linarith+
    moreover have "f < 14" if "sz < 2 ^ 20"
    proof -
      have "(2 :: nat) ^ k < 2 ^ 20" using k(1) that by linarith
      then have "k < 20" by (simp only: power_strict_increasing_iff [of "2 :: nat"])
      then show ?thesis using fs(1) by simp
    qed
    moreover have "s < 16" using o(3) fs(2) by simp
    ultimately show ?thesis using \<open>f + 2 = k - 4\<close> \<open>f \<noteq> 0\<close> by (simp only: if_False) simp
  qed
  then show "s < 16" "slot_min (f, s) \<le> sz" "sz < slot_min (f, s) + (if f = 0 then 8 else 2 ^ (f + 2))"
    "sz < 2 ^ 20 \<Longrightarrow> f < 14" by simp_all
qed

text \<open>The slots are ordered by octave, then within it.\<close>

lemma slot_min_mono:
  assumes "f < f' \<or> f = f' \<and> s \<le> s'" "s < 16"
  shows "slot_min (f, s) \<le> slot_min (f', s')"
proof (cases "f = f'")
  case False
  then have "f < f'" using assms(1) by simp
  have "slot_min (f, s) \<le> 2 ^ (f + 7)" using assms(2) by (cases "f = 0") (simp_all add: power_add)
  also have "(2 :: nat) ^ (f + 7) \<le> 2 ^ (f' + 6)" using \<open>f < f'\<close> by (intro power_increasing) simp_all
  also have "\<dots> \<le> slot_min (f', s')" using \<open>f < f'\<close> by (simp add: power_add)
  finally show ?thesis .
qed (use assms(1) in simp)

text \<open>The search starts at a slot all of whose blocks are large enough, and close above the request.\<close>

lemma mapping_search_bounds:
  assumes "mapping_search n = (f, s)" "8 dvd n" "n + 2 ^ 28 < 2 ^ 32"
  shows "n \<le> slot_min (f, s)" "s < 16" "slot_min (f, s) \<le> n + n div 16"
proof -
  have "n \<le> slot_min (f, s) \<and> s < 16 \<and> slot_min (f, s) \<le> n + n div 16"
  proof (cases "n < 128")
    case True
    then have "mapping_insert n = (f, s)" using assms(1) by (simp add: mapping_search_def)
    then have "f = 0" "s = n div 8" using True by (simp_all add: mapping_insert_def)
    then show ?thesis using assms(2) True by auto
  next
    case False
    define k where "k = bit_fls n"
    have k: "2 ^ k \<le> n" "n < 2 ^ Suc k" using bit_fls_bounds [of n] False by (simp_all add: k_def)
    have "(2 :: nat) ^ 7 < 2 ^ Suc k" using k(2) False by simp
    then have k7: "7 \<le> k" by (simp only: power_strict_increasing_iff [of "2 :: nat"])
    have "(2 :: nat) ^ k < 2 ^ 32" using k(1) assms(3) by linarith
    then have k31: "k < 32" by (simp only: power_strict_increasing_iff [of "2 :: nat"])
    let ?d = "2 ^ (k - 4) :: nat"
    have p: "(2 :: nat) ^ k = 16 * ?d" "(2 :: nat) ^ Suc k = 32 * ?d" "0 < ?d"
      using k7 power_add [of "2 :: nat" 4 "k - 4"] by simp_all
    have "k - 4 = 2 + (k - 6)" using k7 by simp
    then have e4: "?d = 4 * 2 ^ (k - 6)" by (simp only: power_add) simp
    have "k - 4 = 1 + (k - 5)" using k7 by simp
    then have e5: "?d = 2 * 2 ^ (k - 5)" by (simp only: power_add) simp
    define q where "q = n + (?d - 1)"
    have d: "?d \<le> n div 16" using k(1) p(1) by (simp add: less_eq_div_iff_mult_less_eq)
    have "?d \<le> 2 ^ 27" using k31 by (intro power_increasing) simp_all
    then have "u32 q = q" using assms(3) by (intro u32_id) (simp add: q_def)
    then have ins: "mapping_insert q = (f, s)"
      using assms(1) False by (simp add: mapping_search_def tlsf_fls_def k_def q_def)
    note b = mapping_insert_bounds [OF ins]
    have up: "slot_min (f, s) \<le> n + n div 16" using b(2) d p(3) by (simp add: q_def)
    have "n \<le> slot_min (f, s)"
    proof (cases "q < 2 ^ Suc k")
      case True
      have "2 ^ k \<le> q" unfolding q_def using k(1) by (rule trans_le_add1)
      from fls_octave [OF this True k7] have "slot_min (f, s) = q div ?d * ?d"
        using ins k7 e4 by auto
      moreover have "q = q div ?d * ?d + q mod ?d" "q mod ?d < ?d"
        using div_mult_mod_eq [of q ?d, symmetric] by simp_all
      ultimately show ?thesis using p(3) unfolding q_def by linarith
    next
      case False
      have "q < 2 ^ Suc (Suc k)" using k(2) p by (simp add: q_def)
      from fls_octave [OF _ this] False k7 have "f = Suc k - 6" using ins by auto
      then have "2 ^ Suc k \<le> slot_min (f, s)"
        using k7 p(2) e5 by (simp add: algebra_simps)
      then show ?thesis using k(2) by simp
    qed
    then show ?thesis using up b(1) by simp
  qed
  then show "n \<le> slot_min (f, s)" "s < 16" "slot_min (f, s) \<le> n + n div 16" by simp_all
qed

section \<open>The filing invariant\<close>

abbreviation (input) tlsf_slots :: "(nat \<times> nat) set" where
  "tlsf_slots \<equiv> {..<FL_INDEX_COUNT} \<times> {..<SL_INDEX_COUNT}"

definition tlsf_lists :: "hmem \<Rightarrow> tlsf \<Rightarrow> (nat \<times> nat \<Rightarrow> nat list) \<Rightarrow> bool" where
  "tlsf_lists m i L \<longleftrightarrow> class_lists mapping_insert tlsf_slots m (tl_blocks i) L \<and>
     (\<forall>f < FL_INDEX_COUNT. \<forall>s. bit (sl_bitmap i f) s \<longleftrightarrow> s < SL_INDEX_COUNT \<and> L (f, s) \<noteq> []) \<and>
     (\<forall>f. bit (fl_bitmap i) f \<longleftrightarrow> f < FL_INDEX_COUNT \<and> sl_bitmap i f \<noteq> 0)"

definition tlsf_files :: "hmem \<Rightarrow> tlsf \<Rightarrow> nat set \<Rightarrow> bool" where
  "tlsf_files m i S \<longleftrightarrow> (\<exists>L. tlsf_lists m i L \<and> S = (\<Union>c \<in> tlsf_slots. set (L c)))"

definition tlsf_can_file :: "nat \<Rightarrow> bool" where
  "tlsf_can_file n \<longleftrightarrow> n < 2 ^ FL_INDEX_MAX"

text \<open>The requests of the facade are multiples of 8; the octave of the search must be in the table.\<close>

definition tlsf_can_find :: "nat \<Rightarrow> bool" where
  "tlsf_can_find n \<longleftrightarrow> 8 dvd n \<and> n + 2 ^ 28 < 2 ^ 32 \<and> fst (mapping_search n) < FL_INDEX_COUNT"

lemma bit_or_one: "k < 32 \<Longrightarrow> bit (w OR 2 ^ k :: u32w) j \<longleftrightarrow> bit w j \<or> j = k"
  by (auto simp: bit_or_iff bit_exp_iff)

lemma bit_clear_one: "k < 32 \<Longrightarrow> bit (w AND NOT (2 ^ k) :: u32w) j \<longleftrightarrow> bit w j \<and> j \<noteq> k"
  by (auto simp: bit_and_iff bit_not_iff bit_exp_iff dest: bit_imp_le_length)

lemma bit_mask_from: "bit (w AND NOT (mask k) :: u32w) j \<longleftrightarrow> bit w j \<and> k \<le> j"
  by (auto simp: bit_and_iff bit_not_iff bit_mask_iff dest: bit_imp_le_length)

lemma word_zero_iff: "(w :: u32w) = 0 \<longleftrightarrow> (\<forall>j. \<not> bit w j)"
  by (auto intro: bit_word_eqI)

lemma tlsf_slot_of: "tlsf_can_file sz \<Longrightarrow> mapping_insert sz \<in> tlsf_slots"
  using mapping_insert_bounds(1,4) [of sz] by (cases "mapping_insert sz") (auto simp: tlsf_can_file_def)

lemma tlsf_files_reset: "tlsf_files m (tlsf_index_reset i) {}"
  by (auto simp: tlsf_files_def tlsf_lists_def class_lists_def tlsf_index_reset_def intro!: exI [of _ "\<lambda>_. []"])

lemma tlsf_files_frame:
  assumes "tlsf_files m i S" "hm_node m' = hm_node m"
    and "\<And>b. b \<in> S \<Longrightarrow> hb_size (hm_hdr m' b) = hb_size (hm_hdr m b)"
  shows "tlsf_files m' i S"
proof -
  from assms(1) obtain L where L: "tlsf_lists m i L" "S = (\<Union>c \<in> tlsf_slots. set (L c))"
    by (auto simp: tlsf_files_def)
  have "class_lists mapping_insert tlsf_slots m' (tl_blocks i) L"
    by (rule class_lists_frame [OF _ assms(2)]) (use L assms(3) in \<open>auto simp: tlsf_lists_def\<close>)
  then show ?thesis using L by (auto simp: tlsf_files_def tlsf_lists_def)
qed

lemma tlsf_files_insert:
  assumes "tlsf_files m i S" "b \<notin> S" "b \<noteq> 0" "tlsf_can_file (hb_size (hm_hdr m b))"
    "tlsf_index_insert b (m, i) = (m', i')"
  shows "tlsf_files m' i' (insert b S) \<and> hm_hdr m' = hm_hdr m"
proof -
  from assms(1) obtain L where L: "tlsf_lists m i L" and S: "S = (\<Union>c \<in> tlsf_slots. set (L c))"
    by (auto simp: tlsf_files_def)
  obtain f s where c: "mapping_insert (hb_size (hm_hdr m b)) = (f, s)" by fastforce
  have fs: "f < 14" "s < 16" using tlsf_slot_of [OF assms(4)] c by simp_all
  have m': "m' = push_free b (tl_blocks i (f, s)) m" and i': "tl_blocks i' = (tl_blocks i)((f, s) := b)"
    "fl_bitmap i' = fl_bitmap i OR push_bit f 1" "sl_bitmap i' = (sl_bitmap i)(f := sl_bitmap i f OR push_bit s 1)"
    using assms(5) by (auto simp: tlsf_index_insert_def c Let_def)
  let ?L = "L((f, s) := b # L (f, s))"
  have "class_lists mapping_insert tlsf_slots m' (tl_blocks i') ?L"
    using class_lists_push [of mapping_insert tlsf_slots m "tl_blocks i" L b "(f, s)"] L S assms(2,3) fs c
    by (auto simp: tlsf_lists_def m' i')
  moreover have "bit (sl_bitmap i' f') s' \<longleftrightarrow> s' < 16 \<and> ?L (f', s') \<noteq> []" if "f' < 14" for f' s'
    using L that fs by (auto simp: tlsf_lists_def i' bit_or_one)
  moreover have "bit (fl_bitmap i') f' \<longleftrightarrow> f' < 14 \<and> sl_bitmap i' f' \<noteq> 0" for f'
    using L fs by (auto simp: tlsf_lists_def i' bit_or_one word_zero_iff)
  ultimately have "tlsf_lists m' i' ?L" by (simp add: tlsf_lists_def)
  moreover have "insert b S = (\<Union>c \<in> tlsf_slots. set (?L c))" using fs by (auto simp: S split: if_splits)
  ultimately have "tlsf_files m' i' (insert b S)" unfolding tlsf_files_def by blast
  then show ?thesis by (simp add: m')
qed

lemma tlsf_files_remove:
  assumes "tlsf_files m i S" "b \<in> S" "tlsf_index_remove b (m, i) = (m', i')"
  shows "tlsf_files m' i' (S - {b}) \<and> hm_hdr m' = hm_hdr m"
proof -
  from assms(1) obtain L where L: "tlsf_lists m i L" and S: "S = (\<Union>c \<in> tlsf_slots. set (L c))"
    by (auto simp: tlsf_files_def)
  have C: "class_lists mapping_insert tlsf_slots m (tl_blocks i) L" using L by (simp add: tlsf_lists_def)
  obtain f s where fs: "f < 14" "s < 16" "b \<in> set (L (f, s))" using assms(2) S by auto
  then have slot: "(f, s) \<in> tlsf_slots" by simp
  have c: "mapping_insert (hb_size (hm_hdr m b)) = (f, s)" using class_listsD(4) [OF C slot fs(3)] .
  have hdr: "hm_hdr m' = hm_hdr m"
    using assms(3) by (auto simp: tlsf_index_remove_def c Let_def split: if_splits)
  let ?L = "L((f, s) := remove1 b (L (f, s)))"
  have bl: "tl_blocks i' = (if pvf m b \<noteq> 0 then tl_blocks i else (tl_blocks i)((f, s) := nxf m b))"
    using assms(3) by (auto simp: tlsf_index_remove_def c Let_def split: if_splits)
  have u: "class_lists mapping_insert tlsf_slots m' (if pvf m b \<noteq> 0 then tl_blocks i else (tl_blocks i)((f, s) := nxf m b)) ?L"
    "pvf m b = 0 \<Longrightarrow> remove1 b (L (f, s)) = [] \<longleftrightarrow> nxf m b = 0" "pvf m b \<noteq> 0 \<Longrightarrow> remove1 b (L (f, s)) \<noteq> []"
    by (rule class_lists_unlink [OF C fs(3) slot hdr];
        use assms(3) in \<open>auto simp: tlsf_index_remove_def c Let_def split: if_splits\<close>)+
  define last where "last \<longleftrightarrow> pvf m b = 0 \<and> nxf m b = 0"
  have e: "remove1 b (L (f, s)) = [] \<longleftrightarrow> last" using u(2,3) by (auto simp: last_def)
  have sl: "sl_bitmap i' = (if last then (sl_bitmap i)(f := sl_bitmap i f AND NOT (2 ^ s)) else sl_bitmap i)"
    using assms(3) by (auto simp: tlsf_index_remove_def c Let_def last_def split: if_splits)
  have fl: "fl_bitmap i' = (if last \<and> sl_bitmap i f AND NOT (2 ^ s) = 0 then fl_bitmap i AND NOT (2 ^ f) else fl_bitmap i)"
    using assms(3) by (auto simp: tlsf_index_remove_def c Let_def last_def split: if_splits)
  have ne: "L (f, s) \<noteq> []" using fs(3) by auto
  have "bit (sl_bitmap i' f') s' \<longleftrightarrow> s' < 16 \<and> ?L (f', s') \<noteq> []" if "f' < 14" for f' s'
    using L that fs(2) ne e by (auto simp: tlsf_lists_def sl bit_clear_one)
  moreover have "bit (fl_bitmap i') f' \<longleftrightarrow> f' < 14 \<and> sl_bitmap i' f' \<noteq> 0" for f'
    using L fs(1,2) by (auto simp: tlsf_lists_def sl fl bit_clear_one word_zero_iff)
  ultimately have "tlsf_lists m' i' ?L" using u(1) by (simp add: tlsf_lists_def bl)
  moreover have "S - {b} = (\<Union>c \<in> tlsf_slots. set (?L c))"
    unfolding S by (rule class_sets_remove [OF C fs(3) slot, symmetric])
  ultimately have "tlsf_files m' i' (S - {b})" unfolding tlsf_files_def by blast
  then show ?thesis using hdr by simp
qed

section \<open>The search\<close>

text \<open>The head of the first list at or behind a slot, in the order of the slots.\<close>

lemma tlsf_take_found:
  assumes L: "tlsf_lists m i L" and f: "f < 14" and w: "w \<noteq> 0" "\<And>j. bit w j \<Longrightarrow> bit (sl_bitmap i f) j"
  shows "\<exists>b s. tlsf_take f w i = (Found b, i) \<and> s < 16 \<and> b \<in> set (L (f, s)) \<and> bit w s"
proof -
  let ?s = "tlsf_ffs w"
  have b: "bit w ?s" using word_ffs(1) [OF w(1)] by (simp add: tlsf_ffs_def)
  then have s: "?s < 16" "L (f, ?s) \<noteq> []" using w(2) L f by (auto simp: tlsf_lists_def)
  have C: "class_lists mapping_insert tlsf_slots m (tl_blocks i) L" using L by (simp add: tlsf_lists_def)
  have "tl_blocks i (f, ?s) \<noteq> 0" using class_head_empty [OF C, of "(f, ?s)"] f s by simp
  moreover from this have "tl_blocks i (f, ?s) \<in> set (L (f, ?s))" using class_head_in [OF C, of "(f, ?s)"] f s(1) by simp
  ultimately show ?thesis using w(1) b s(1) by (auto simp: tlsf_take_def Let_def)
qed

lemma tlsf_lists_probes [simp]: "tlsf_lists m (i\<lparr>tl_probes := k\<rparr>) L = tlsf_lists m i L"
  by (simp add: tlsf_lists_def)

lemma tlsf_find_slot:
  assumes L: "tlsf_lists m i L" and n: "mapping_search n = (f, s)" "f < 14"
    and r: "tlsf_index_find n (m, i) = (r, i')"
  shows "tlsf_lists m i' L \<and> tl_probes i' \<in> {1, 2} \<and>
    (case r of
       Undef \<Rightarrow> False
     | Found b \<Rightarrow> \<exists>f' s'. f' < 14 \<and> s' < 16 \<and> b \<in> set (L (f', s')) \<and> (f < f' \<or> f = f' \<and> s \<le> s')
     | NotFound \<Rightarrow> \<forall>f' s'. f' < 14 \<longrightarrow> s' < 16 \<longrightarrow> (f < f' \<or> f = f' \<and> s \<le> s') \<longrightarrow> L (f', s') = [])"
proof -
  let ?sm = "sl_bitmap i f AND NOT (mask s)" and ?fm = "fl_bitmap i AND NOT (mask (f + 1))"
  have slb: "bit (sl_bitmap i f') s' \<longleftrightarrow> s' < 16 \<and> L (f', s') \<noteq> []" if "f' < 14" for f' s'
    using L that by (simp add: tlsf_lists_def)
  have flb: "bit (fl_bitmap i) f' \<longleftrightarrow> f' < 14 \<and> sl_bitmap i f' \<noteq> 0" for f' using L by (simp add: tlsf_lists_def)
  consider (hit) "?sm \<noteq> 0" | (none) "?sm = 0" "?fm = 0" | (climb) "?sm = 0" "?fm \<noteq> 0" by blast
  then show ?thesis
  proof cases
    case hit
    have "\<exists>b s'. tlsf_take f ?sm (i\<lparr>tl_probes := 1\<rparr>) = (Found b, i\<lparr>tl_probes := 1\<rparr>) \<and> s' < 16 \<and>
        b \<in> set (L (f, s')) \<and> bit ?sm s'"
      by (rule tlsf_take_found [OF _ n(2) hit]) (use L in \<open>auto simp: bit_mask_from\<close>)
    then obtain b s' where b: "tlsf_take f ?sm (i\<lparr>tl_probes := 1\<rparr>) = (Found b, i\<lparr>tl_probes := 1\<rparr>)" "s' < 16"
        "b \<in> set (L (f, s'))" "s \<le> s'"
      by (auto simp: bit_mask_from)
    moreover have "r = Found b" "i' = i\<lparr>tl_probes := 1\<rparr>" using r n hit b(1) by (auto simp: tlsf_index_find_def Let_def)
    ultimately show ?thesis using L n(2) by auto
  next
    case none
    have "L (f', s') = []" if "f' < 14" "s' < 16" "f < f' \<or> f = f' \<and> s \<le> s'" for f' s'
    proof (cases "f = f'")
      case True
      then have "\<not> bit ?sm s'" using none(1) by simp
      then show ?thesis using that True slb [of f s'] n(2) by (auto simp: bit_mask_from)
    next
      case False
      then have "\<not> bit ?fm f'" using none(2) by simp
      then show ?thesis using that False slb [of f' s'] flb [of f'] by (auto simp: bit_mask_from word_zero_iff)
    qed
    moreover have "r = NotFound" "i' = i\<lparr>tl_probes := 1\<rparr>"
      using r n none by (auto simp: tlsf_index_find_def Let_def)
    ultimately show ?thesis using L by simp
  next
    case climb
    let ?f = "tlsf_ffs ?fm"
    have "bit ?fm ?f" using word_ffs(1) [OF climb(2)] by (simp add: tlsf_ffs_def)
    then have f': "f < ?f" "?f < 14" "sl_bitmap i ?f \<noteq> 0" using flb by (auto simp: bit_mask_from)
    have "\<exists>b s'. tlsf_take ?f (sl_bitmap i ?f) (i\<lparr>tl_probes := 2\<rparr>) = (Found b, i\<lparr>tl_probes := 2\<rparr>) \<and> s' < 16 \<and>
        b \<in> set (L (?f, s')) \<and> bit (sl_bitmap i ?f) s'"
      by (rule tlsf_take_found [OF _ f'(2,3)]) (use L in simp_all)
    then obtain b s' where b: "tlsf_take ?f (sl_bitmap i ?f) (i\<lparr>tl_probes := 2\<rparr>) = (Found b, i\<lparr>tl_probes := 2\<rparr>)" "s' < 16"
        "b \<in> set (L (?f, s'))"
      by blast
    moreover have "r = Found b" "i' = i\<lparr>tl_probes := 2\<rparr>" using r n climb b(1) by (auto simp: tlsf_index_find_def Let_def)
    ultimately show ?thesis using L f'(1,2) by auto
  qed
qed

text \<open>
  A block that is found is large enough; when none is found, every filed block is smaller than the
  request and its sixteenth.
\<close>

lemma tlsf_files_find:
  assumes "tlsf_files m i S" "tlsf_can_find n" "tlsf_index_find n (m, i) = (r, i')"
  shows "tlsf_files m i' S \<and> r \<noteq> Undef \<and> (\<forall>b. r = Found b \<longrightarrow> b \<in> S \<and> n \<le> hb_size (hm_hdr m b)) \<and>
    (r = NotFound \<longrightarrow> (\<forall>b \<in> S. hb_size (hm_hdr m b) < n + n div 16)) \<and> tl_probes i' \<in> {1, 2}"
proof -
  from assms(1) obtain L where L: "tlsf_lists m i L" and S: "S = (\<Union>c \<in> tlsf_slots. set (L c))"
    by (auto simp: tlsf_files_def)
  obtain f s where fs: "mapping_search n = (f, s)" by fastforce
  have f14: "f < 14" using assms(2) fs by (simp add: tlsf_can_find_def)
  have n: "8 dvd n" "n + 2 ^ 28 < 2 ^ 32" using assms(2) by (simp_all add: tlsf_can_find_def)
  note sb = mapping_search_bounds [OF fs n]
  note r = tlsf_find_slot [OF L fs f14 assms(3)]
  have cls: "mapping_insert (hb_size (hm_hdr m b)) = (f', s')" if "b \<in> set (L (f', s'))" "f' < 14" "s' < 16" for b f' s'
    using class_listsD(4) [of mapping_insert tlsf_slots m "tl_blocks i" L "(f', s')" b] L that by (simp add: tlsf_lists_def)
  have "n \<le> hb_size (hm_hdr m b) \<and> b \<in> S" if rb: "r = Found b" for b
  proof -
    obtain f' s' where b: "f' < 14" "s' < 16" "b \<in> set (L (f', s'))" "f < f' \<or> f = f' \<and> s \<le> s'"
      using r unfolding rb by auto
    have "n \<le> slot_min (f', s')" using sb(1) slot_min_mono [OF b(4) sb(2)] by linarith
    then show ?thesis using mapping_insert_bounds(2) [OF cls [OF b(3,1,2)]] b S by auto
  qed
  moreover have "hb_size (hm_hdr m b) < n + n div 16" if rn: "r = NotFound" "b \<in> S" for b
  proof -
    obtain f' s' where b: "f' < 14" "s' < 16" "b \<in> set (L (f', s'))" using rn(2) S by auto
    note c = cls [OF b(3,1,2)]
    have "f' < f \<or> f' = f \<and> s' < s" using r b unfolding rn(1) by (fastforce simp: not_less)
    then have "f' < f \<or> f' = f \<and> Suc s' \<le> s" by (simp only: Suc_le_eq)
    then have "slot_min (f', s') + (if f' = 0 then 8 else 2 ^ (f' + 2)) \<le> slot_min (f, s)"
    proof
      assume "f' < f"
      have "slot_min (f', s') + (if f' = 0 then 8 else 2 ^ (f' + 2)) \<le> 2 ^ (f' + 7)"
        using b(2) by (cases "f' = 0") (simp_all add: power_add)
      also have "\<dots> \<le> slot_min (Suc f', 0)" by (simp add: power_add)
      also have "\<dots> \<le> slot_min (f, s)" using \<open>f' < f\<close> by (intro slot_min_mono) auto
      finally show ?thesis .
    qed (use mult_le_mono1 [of "17 + s'" "16 + s" "4 * 2 ^ f"] in \<open>auto simp: algebra_simps\<close>)
    then show ?thesis using mapping_insert_bounds(3) [OF c] sb(3) by simp
  qed
  moreover have "tlsf_files m i' S" using r S unfolding tlsf_files_def by blast
  moreover have "r \<noteq> Undef" "tl_probes i' \<in> {1, 2}" using r by auto
  ultimately show ?thesis by blast
qed

interpretation tlsf: heap_index tlsf_ops tlsf_files tlsf_can_file tlsf_can_find
proof unfold_locales
  fix m i
  show "tlsf_files m (ix_reset tlsf_ops i) {}" by (simp add: tlsf_ops_def tlsf_files_reset)
next
  fix m i S b m' i'
  assume "tlsf_files m i S" "b \<notin> S" "b \<noteq> 0" "tlsf_can_file (hb_size (hm_hdr m b))" "ix_insert tlsf_ops b (m, i) = (m', i')"
  then show "tlsf_files m' i' (insert b S) \<and> hm_hdr m' = hm_hdr m"
    by (intro tlsf_files_insert) (simp_all add: tlsf_ops_def)
next
  fix m i S b m' i'
  assume "tlsf_files m i S" "b \<in> S" "ix_remove tlsf_ops b (m, i) = (m', i')"
  then show "tlsf_files m' i' (S - {b}) \<and> hm_hdr m' = hm_hdr m"
    by (intro tlsf_files_remove) (simp_all add: tlsf_ops_def)
next
  fix m i S n r i'
  assume "tlsf_files m i S" "tlsf_can_find n" "ix_find tlsf_ops n (m, i) = (r, i')"
  then show "tlsf_files m i' S \<and> r \<noteq> Undef \<and> (\<forall>b. r = Found b \<longrightarrow> b \<in> S \<and> n \<le> hb_size (hm_hdr m b))"
    using tlsf_files_find by (simp add: tlsf_ops_def)
qed (rule tlsf_files_frame)

end
