(* ===== verification/Kernel_Heap.thy ===== *)
theory Kernel_Heap
  imports Heap_Seglist Heap_Tlsf
begin

text \<open>
  The kernel heap facade, \<open>kernel/memory/memory.c\<close>: initialisation, \<open>v_malloc\<close>,
  \<open>v_memalign_off\<close> and \<open>v_free\<close> over a free-block index given as an \<open>index_ops\<close> record.

  A call ends in \<open>Inr\<close> with its result and the new state, or in \<open>Inl\<close>: \<open>Heap_Panic\<close> where
  the code calls \<open>v_panic\<close>, \<open>Heap_Undefined\<close> where the backend or the alignment loop has no
  defined result. \<open>size_t\<close> arithmetic wraps at 32 bits. \<open>heap_cfg\<close> holds the link-time
  constants (\<open>&_heap_start\<close>, \<open>HEAP_SIZE\<close>, the watermark) and the port's RAM test.

  The invariant \<open>heap_inv\<close> says that the arena is tiled by boundary-tagged blocks, that the
  index files exactly the free ones, that no two free blocks touch and that the counters are
  exact. The abstraction \<open>live\<close> is the map from payload pointers to usable sizes. In the
  context of \<open>heap_index\<close>, hence for every backend that meets the contract, the operations
  are shown to keep the invariant and to act on \<open>live\<close> as \<open>malloc\<close> and \<open>free\<close> should; the
  properties instantiate this for the default backend.
\<close>

section \<open>Definitions\<close>

datatype heap_fault = Heap_Panic | Heap_Undefined

record heap_cfg =
  heap_start :: nat
  HEAP_SIZE :: nat
  HEAP_WATERMARK_ENABLE :: bool
  HEAP_WATERMARK_THRESHOLD :: nat
  ptr_is_ram :: "nat \<Rightarrow> bool"

record 'i heap =
  heap_mem_head :: nat
  hp_mem :: hmem
  hp_index :: 'i
  allocation_size :: nat
  allocation_count :: nat
  hp_perf :: perf_heap

abbreviation hdr :: "'i heap \<Rightarrow> nat \<Rightarrow> heap_mem_block" where
  "hdr h \<equiv> hm_hdr (hp_mem h)"

definition upd_hdr :: "nat \<Rightarrow> (heap_mem_block \<Rightarrow> heap_mem_block) \<Rightarrow> 'i heap \<Rightarrow> 'i heap" where
  "upd_hdr b f h = h\<lparr>hp_mem := (hp_mem h)\<lparr>hm_hdr := (hm_hdr (hp_mem h))(b := f (hdr h b))\<rparr>\<rparr>"

definition vheap_index_insert :: "'i index_ops \<Rightarrow> nat \<Rightarrow> 'i heap \<Rightarrow> 'i heap" where
  "vheap_index_insert ops b h =
     (let (m, i) = ix_insert ops b (hp_mem h, hp_index h) in h\<lparr>hp_mem := m, hp_index := i\<rparr>)"

definition vheap_index_remove :: "'i index_ops \<Rightarrow> nat \<Rightarrow> 'i heap \<Rightarrow> 'i heap" where
  "vheap_index_remove ops b h =
     (let (m, i) = ix_remove ops b (hp_mem h, hp_index h) in h\<lparr>hp_mem := m, hp_index := i\<rparr>)"

definition vheap_index_find :: "'i index_ops \<Rightarrow> nat \<Rightarrow> 'i heap \<Rightarrow> find_result \<times> 'i heap" where
  "vheap_index_find ops n h =
     (let (r, i) = ix_find ops n (hp_mem h, hp_index h) in (r, h\<lparr>hp_index := i\<rparr>))"

definition in_heap :: "heap_cfg \<Rightarrow> 'i heap \<Rightarrow> nat \<Rightarrow> bool" where
  "in_heap cfg h p \<longleftrightarrow> heap_mem_head h \<le> p \<and> p < heap_mem_head h + HEAP_SIZE cfg"

definition fixup_next_prev :: "heap_cfg \<Rightarrow> nat \<Rightarrow> 'i heap \<Rightarrow> 'i heap" where
  "fixup_next_prev cfg blk h =
     (let after = blk + HDR + hb_size (hdr h blk)
      in if in_heap cfg h after \<and> hb_magic (hdr h after) = SANITY_MAGIC_NUMBER
         then upd_hdr after (\<lambda>b. b\<lparr>hb_prev := blk\<rparr>) h else h)"

definition v_heap_memory_init ::
    "'i index_ops \<Rightarrow> heap_cfg \<Rightarrow> 'i heap \<Rightarrow> heap_fault + 'i heap" where
  "v_heap_memory_init ops cfg h =
     (let h = h\<lparr>heap_mem_head := heap_start cfg\<rparr>;
          head = heap_mem_head h;
          heap_last = u32 (head + HEAP_SIZE cfg - 1)
      in if \<not> ptr_is_ram cfg heap_last then Inl Heap_Panic
         else
           let h = h\<lparr>hp_mem := \<lparr>
                 hm_hdr = (\<lambda>a. if in_heap cfg h a
                             then \<lparr>hb_magic = 0, hb_size = 0, hb_status = 0, hb_prev = 0\<rparr>
                             else hdr h a),
                 hm_node = (\<lambda>a. if in_heap cfg h a then \<lparr>next_free = 0, prev_free = 0\<rparr>
                             else hm_node (hp_mem h) a)\<rparr>\<rparr>;
               h = h\<lparr>hp_index := ix_reset ops (hp_index h)\<rparr>;
               h = h\<lparr>allocation_size := 0, allocation_count := 0\<rparr>;
               h = upd_hdr head (\<lambda>b. b\<lparr>hb_magic := SANITY_MAGIC_NUMBER, hb_status := MEM_FREE,
                     hb_size := HEAP_SIZE cfg - HDR, hb_prev := 0\<rparr>) h
           in Inr (vheap_index_insert ops head h))"

definition v_get_heap_size :: "heap_cfg \<Rightarrow> nat" where
  "v_get_heap_size cfg = HEAP_SIZE cfg"

definition v_get_heap_allocation_count :: "'i heap \<Rightarrow> nat" where
  "v_get_heap_allocation_count h = allocation_count h"

definition v_get_heap_allocation_size :: "'i heap \<Rightarrow> nat" where
  "v_get_heap_allocation_size h = u32 (allocation_size h + HDR * allocation_count h)"

text \<open>
  The request rounding, the split of an oversized block and the bookkeeping of a claimed
  block are written once here; \<open>v_malloc\<close> and \<open>v_memalign_off\<close> repeat them inline.
\<close>

definition heap_need :: "nat \<Rightarrow> nat" where
  "heap_need sz =
     (let need = and_not_u32 (u32 (sz + (VHEAP_ALIGN - 1))) (VHEAP_ALIGN - 1)
      in if need < VHEAP_MIN_PAYLOAD then VHEAP_MIN_PAYLOAD else need)"

definition heap_split ::
    "'i index_ops \<Rightarrow> heap_cfg \<Rightarrow> nat \<Rightarrow> nat \<Rightarrow> 'i heap \<Rightarrow> bool \<times> 'i heap" where
  "heap_split ops cfg blk need h =
     (if hb_size (hdr h blk) \<ge> u32 (need + HDR + VHEAP_MIN_PAYLOAD)
      then
        let res = blk + HDR + need;
            h = upd_hdr res (\<lambda>b. b\<lparr>hb_magic := SANITY_MAGIC_NUMBER, hb_status := MEM_FREE\<rparr>) h;
            h = upd_hdr res
                  (\<lambda>b. b\<lparr>hb_size := u32_sub (hb_size (hdr h blk)) (need + HDR)\<rparr>) h;
            h = upd_hdr res (\<lambda>b. b\<lparr>hb_prev := blk\<rparr>) h;
            h = fixup_next_prev cfg res h;
            h = upd_hdr blk (\<lambda>b. b\<lparr>hb_size := need\<rparr>) h
        in (True, vheap_index_insert ops res h)
      else (False, h))"

definition heap_claim :: "nat \<Rightarrow> bool \<Rightarrow> 'i heap \<Rightarrow> 'i heap" where
  "heap_claim blk did_split h =
     (let h = upd_hdr blk (\<lambda>b. b\<lparr>hb_status := MEM_ALOC\<rparr>) h;
          h = h\<lparr>allocation_count := u32 (allocation_count h + 1)\<rparr>;
          h = h\<lparr>allocation_size := u32 (allocation_size h + hb_size (hdr h blk))\<rparr>
      in h\<lparr>hp_perf := v_perf_on_heap_alloc (hb_size (hdr h blk)) did_split
             (allocation_size h) (hp_perf h)\<rparr>)"

definition v_malloc ::
    "'i index_ops \<Rightarrow> heap_cfg \<Rightarrow> nat \<Rightarrow> 'i heap \<Rightarrow> heap_fault + (nat \<times> 'i heap)" where
  "v_malloc ops cfg sz h =
     (if heap_mem_head h = 0 then Inr (0, h)
      else if sz = 0 then Inr (0, h)
      else
        let need = heap_need sz;
            (r, h) = vheap_index_find ops need h
        in case r of
             Undef \<Rightarrow> Inl Heap_Undefined
           | NotFound \<Rightarrow>
               if HEAP_WATERMARK_ENABLE cfg \<and>
                  v_get_heap_allocation_size h > u32_sub (HEAP_SIZE cfg)
                    (HEAP_WATERMARK_THRESHOLD cfg)
               then Inl Heap_Panic
               else Inr (0, h\<lparr>hp_perf := v_perf_on_heap_oom (hp_perf h)\<rparr>)
           | Found blk \<Rightarrow>
               let h = vheap_index_remove ops blk h;
                   (did_split, h) = heap_split ops cfg blk need h
               in Inr (blk + HDR, heap_claim blk did_split h))"

text \<open>The loop that moves the aligned address up until the leading remainder is a block.\<close>

partial_function (option) align_bump :: "nat \<Rightarrow> nat \<Rightarrow> nat \<Rightarrow> nat option" where
  "align_bump align payload0 a =
     (if u32_sub a HDR < payload0 + VHEAP_MIN_PAYLOAD
      then align_bump align payload0 (u32 (a + align)) else Some a)"

declare align_bump.simps [code]

text \<open>The carving of the leading remainder: \<open>blk\<close> keeps it, \<open>aligned\<close> gets the rest.\<close>

definition heap_carve :: "'i index_ops \<Rightarrow> heap_cfg \<Rightarrow> nat \<Rightarrow> nat \<Rightarrow> 'i heap \<Rightarrow> 'i heap" where
  "heap_carve ops cfg blk aligned h =
     (let payload0 = blk + HDR;
          orig_end = payload0 + hb_size (hdr h blk);
          h = upd_hdr aligned (\<lambda>b. b\<lparr>hb_magic := SANITY_MAGIC_NUMBER, hb_prev := blk,
                hb_size := u32_sub orig_end (aligned + HDR)\<rparr>) h;
          h = upd_hdr blk (\<lambda>b. b\<lparr>hb_size := u32_sub aligned payload0, hb_status := MEM_FREE\<rparr>) h;
          h = fixup_next_prev cfg aligned h
      in vheap_index_insert ops blk h)"

text \<open>What \<open>v_memalign_off\<close> does with the block the index found.\<close>

definition memalign_place :: "'i index_ops \<Rightarrow> heap_cfg \<Rightarrow> nat \<Rightarrow> nat \<Rightarrow> nat \<Rightarrow> nat \<Rightarrow> 'i heap \<Rightarrow>
    heap_fault + (nat \<times> 'i heap)" where
  "memalign_place ops cfg align offset need blk h =
     (let h = vheap_index_remove ops blk h;
          payload0 = blk + HDR;
          a = u32 (and_not_u32 (u32 (u32_sub payload0 offset + (align - 1))) (align - 1) + offset)
      in if a = payload0
         then
           let (did_split, h) = heap_split ops cfg blk need h
           in Inr (blk + HDR, heap_claim blk did_split h)
         else (case align_bump align payload0 a of
                 None \<Rightarrow> Inl Heap_Undefined
               | Some a \<Rightarrow>
                   let aligned = u32_sub a HDR;
                       h = heap_carve ops cfg blk aligned h;
                       (did_split, h) = heap_split ops cfg aligned need h
                   in Inr (aligned + HDR, heap_claim aligned did_split h)))"

definition v_memalign_off ::
    "'i index_ops \<Rightarrow> heap_cfg \<Rightarrow> nat \<Rightarrow> nat \<Rightarrow> nat \<Rightarrow> 'i heap \<Rightarrow> heap_fault + (nat \<times> 'i heap)" where
  "v_memalign_off ops cfg align offset sz h =
     (if heap_mem_head h = 0 then Inr (0, h)
      else if sz = 0 \<or> align = 0 \<or> align AND (align - 1) \<noteq> 0 then Inr (0, h)
      else if offset \<ge> align \<or> offset AND (VHEAP_ALIGN - 1) \<noteq> 0 then Inr (0, h)
      else if align \<le> VHEAP_ALIGN then v_malloc ops cfg sz h
      else
        let need = heap_need sz;
            (r, h) = vheap_index_find ops (u32 (need + align + HDR + VHEAP_MIN_PAYLOAD)) h
        in case r of
             Undef \<Rightarrow> Inl Heap_Undefined
           | NotFound \<Rightarrow> Inr (0, h\<lparr>hp_perf := v_perf_on_heap_oom (hp_perf h)\<rparr>)
           | Found blk \<Rightarrow> memalign_place ops cfg align offset need blk h)"

definition v_memalign ::
    "'i index_ops \<Rightarrow> heap_cfg \<Rightarrow> nat \<Rightarrow> nat \<Rightarrow> 'i heap \<Rightarrow> heap_fault + (nat \<times> 'i heap)" where
  "v_memalign ops cfg align sz h = v_memalign_off ops cfg align 0 sz h"

definition heap_absorb :: "'i index_ops \<Rightarrow> heap_cfg \<Rightarrow> nat \<Rightarrow> nat \<Rightarrow> nat \<Rightarrow> 'i heap \<Rightarrow> 'i heap" where
  "heap_absorb ops cfg unfile lo hi h =
     (let h = vheap_index_remove ops unfile h;
          h = upd_hdr lo (\<lambda>b. b\<lparr>hb_size := u32 (hb_size b + (HDR + hb_size (hdr h hi)))\<rparr>) h
      in fixup_next_prev cfg lo h)"

text \<open>The two coalescing steps of \<open>v_free\<close>, each with its contribution to the count.\<close>

definition coalesce_forward :: "'i index_ops \<Rightarrow> heap_cfg \<Rightarrow> nat \<Rightarrow> 'i heap \<Rightarrow> 'i heap \<times> nat" where
  "coalesce_forward ops cfg block h =
     (let nxt = block + HDR + hb_size (hdr h block)
      in if in_heap cfg h nxt \<and> hb_magic (hdr h nxt) = SANITY_MAGIC_NUMBER \<and>
            hb_status (hdr h nxt) = MEM_FREE
         then (heap_absorb ops cfg nxt block nxt h, 1) else (h, 0))"

definition coalesce_backward :: "'i index_ops \<Rightarrow> heap_cfg \<Rightarrow> nat \<Rightarrow> 'i heap \<Rightarrow> 'i heap \<times> nat \<times> nat" where
  "coalesce_backward ops cfg block h =
     (let prv = hb_prev (hdr h block)
      in if prv \<noteq> 0 \<and> hb_magic (hdr h prv) = SANITY_MAGIC_NUMBER \<and>
            hb_status (hdr h prv) = MEM_FREE
         then (heap_absorb ops cfg prv prv block h, prv, 1) else (h, block, 0))"

definition v_free :: "'i index_ops \<Rightarrow> heap_cfg \<Rightarrow> nat \<Rightarrow> 'i heap \<Rightarrow> 'i heap" where
  "v_free ops cfg ptr h =
     (if ptr = 0 then h
      else if heap_mem_head h = 0 then h
      else
        let block = u32_sub ptr HDR
        in if \<not> in_heap cfg h block \<or> hb_magic (hdr h block) \<noteq> SANITY_MAGIC_NUMBER then h
           else if hb_status (hdr h block) \<noteq> MEM_ALOC then h
           else
             let h = upd_hdr block (\<lambda>b. b\<lparr>hb_status := MEM_FREE\<rparr>) h;
                 h = h\<lparr>allocation_count := u32_sub (allocation_count h) 1\<rparr>;
                 h = h\<lparr>allocation_size := u32_sub (allocation_size h) (hb_size (hdr h block))\<rparr>;
                 (h, fwd) = coalesce_forward ops cfg block h;
                 (h, block, bwd) = coalesce_backward ops cfg block h;
                 h = vheap_index_insert ops block h
             in h\<lparr>hp_perf := v_perf_on_heap_free (fwd + bwd) (hp_perf h)\<rparr>)"

section \<open>The invariant\<close>

definition heap_cfg_ok :: "heap_cfg \<Rightarrow> bool" where
  "heap_cfg_ok cfg \<longleftrightarrow> 0 < heap_start cfg \<and> 8 dvd heap_start cfg \<and> 8 dvd HEAP_SIZE cfg \<and>
     24 \<le> HEAP_SIZE cfg \<and> heap_start cfg + HEAP_SIZE cfg < 2 ^ 32"

definition block_ok :: "nat \<Rightarrow> heap_mem_block \<Rightarrow> bool" where
  "block_ok p b \<longleftrightarrow> hb_magic b = SANITY_MAGIC_NUMBER \<and> hb_prev b = p \<and>
     VHEAP_MIN_PAYLOAD \<le> hb_size b \<and> 8 dvd hb_size b"

fun tiles :: "(nat \<Rightarrow> heap_mem_block) \<Rightarrow> nat \<Rightarrow> nat \<Rightarrow> nat \<Rightarrow> nat list \<Rightarrow> bool" where
  "tiles H p a e [] \<longleftrightarrow> a = e"
| "tiles H p a e (b # bs) \<longleftrightarrow> b = a \<and> block_ok p (H a) \<and> tiles H a (a + HDR + hb_size (H a)) e bs"

abbreviation is_free :: "(nat \<Rightarrow> heap_mem_block) \<Rightarrow> nat \<Rightarrow> bool" where
  "is_free H b \<equiv> hb_status (H b) = MEM_FREE"

definition no_free_pair :: "(nat \<Rightarrow> heap_mem_block) \<Rightarrow> nat list \<Rightarrow> bool" where
  "no_free_pair H bs \<longleftrightarrow> successively (\<lambda>a b. \<not> (is_free H a \<and> is_free H b)) bs"

definition free_set :: "(nat \<Rightarrow> heap_mem_block) \<Rightarrow> nat list \<Rightarrow> nat set" where
  "free_set H bs = {b \<in> set bs. is_free H b}"

definition aloc_count :: "(nat \<Rightarrow> heap_mem_block) \<Rightarrow> nat list \<Rightarrow> nat" where
  "aloc_count H bs = length (filter (\<lambda>b. \<not> is_free H b) bs)"

definition aloc_size :: "(nat \<Rightarrow> heap_mem_block) \<Rightarrow> nat list \<Rightarrow> nat" where
  "aloc_size H bs = sum_list (map (\<lambda>b. hb_size (H b)) (filter (\<lambda>b. \<not> is_free H b) bs))"

definition heap_inv ::
    "(hmem \<Rightarrow> 'i \<Rightarrow> nat set \<Rightarrow> bool) \<Rightarrow> heap_cfg \<Rightarrow> 'i heap \<Rightarrow> nat list \<Rightarrow> bool" where
  "heap_inv files cfg h bs \<longleftrightarrow>
     heap_mem_head h = heap_start cfg \<and>
     tiles (hdr h) 0 (heap_start cfg) (heap_start cfg + HEAP_SIZE cfg) bs \<and>
     (\<forall>b \<in> set bs. hb_status (hdr h b) \<le> MEM_ALOC) \<and>
     no_free_pair (hdr h) bs \<and>
     files (hp_mem h) (hp_index h) (free_set (hdr h) bs) \<and>
     allocation_count h = aloc_count (hdr h) bs \<and>
     allocation_size h = aloc_size (hdr h) bs"

definition live :: "'i heap \<Rightarrow> nat list \<Rightarrow> nat \<rightharpoonup> nat" where
  "live h bs p = (if HDR \<le> p \<and> p - HDR \<in> set bs \<and> \<not> is_free (hdr h) (p - HDR)
                  then Some (hb_size (hdr h (p - HDR))) else None)"

section \<open>Tilings\<close>

lemma tiles_cong: "(\<And>b. b \<in> set xs \<Longrightarrow> H' b = H b) \<Longrightarrow> tiles H' p a e xs = tiles H p a e xs"
  by (induction xs arbitrary: p a) auto

lemma tiles_append:
  "tiles H p a e (xs @ b # ys) \<longleftrightarrow> tiles H p a b xs \<and> block_ok (last (p # xs)) (H b) \<and>
     tiles H b (b + 16 + hb_size (H b)) e ys"
  by (induction xs arbitrary: p a) auto

lemma tiles_bounds:
  "tiles H p a e xs \<Longrightarrow> a \<le> e \<and> (\<forall>b \<in> set xs. a \<le> b \<and> b + 24 \<le> b + 16 + hb_size (H b) \<and>
     b + 16 + hb_size (H b) \<le> e)"
  by (induction xs arbitrary: p a) (fastforce simp: block_ok_def)+

lemma tiles_empty_iff: "tiles H p a e xs \<Longrightarrow> xs = [] \<longleftrightarrow> a = e"
  using tiles_bounds [of H p a e xs] by (cases xs) auto

lemma tiles_hd: "tiles H p a e (b # bs) \<Longrightarrow> b = a"
  by simp

lemma tiles_status: "tiles H p a e xs \<Longrightarrow> b \<in> set xs \<Longrightarrow> block_ok (hb_prev (H b)) (H b)"
  by (induction xs arbitrary: p a) (auto simp: block_ok_def)

lemma tiles_aligned: "tiles H p a e xs \<Longrightarrow> 8 dvd a \<Longrightarrow> b \<in> set xs \<Longrightarrow> 8 dvd b"
proof (induction xs arbitrary: p a)
  case (Cons x xs)
  then have "8 dvd a + 16 + hb_size (H a)" by (auto simp: block_ok_def)
  then show ?case using Cons by auto
qed simp

lemma tiles_apart:
  assumes "tiles H p a e xs" "b \<in> set xs" "c \<in> set xs" "b \<noteq> c"
  shows "b + 16 + hb_size (H b) \<le> c \<or> c + 16 + hb_size (H c) \<le> b"
  using assms
proof (induction xs arbitrary: p a)
  case (Cons x xs)
  then have t: "tiles H a (a + 16 + hb_size (H a)) e xs" and x: "x = a" by auto
  note bd = tiles_bounds [OF t]
  show ?case
    using Cons.IH [OF t] Cons.prems(2-4) bd x by auto
qed simp

lemma tiles_distinct: "tiles H p a e xs \<Longrightarrow> distinct xs"
proof (induction xs arbitrary: p a)
  case (Cons x xs)
  then have "tiles H a (a + 16 + hb_size (H a)) e xs" "x = a" by auto
  then show ?case using Cons.IH tiles_bounds by fastforce
qed simp

lemma tiles_mid:
  assumes "tiles H p a e (xs @ b # ys)"
  shows "x \<in> set xs \<Longrightarrow> x + 16 + hb_size (H x) \<le> b" "y \<in> set ys \<Longrightarrow> b + 16 + hb_size (H b) \<le> y"
    "b \<notin> set xs" "b \<notin> set ys" "a \<le> b" "b + 24 \<le> b + 16 + hb_size (H b)"
    "b + 16 + hb_size (H b) \<le> e" "block_ok (last (p # xs)) (H b)"
    "tiles H p a b xs" "tiles H b (b + 16 + hb_size (H b)) e ys"
proof -
  have t: "tiles H p a b xs" "tiles H b (b + 16 + hb_size (H b)) e ys"
    "block_ok (last (p # xs)) (H b)"
    using assms by (simp_all add: tiles_append)
  show "tiles H p a b xs" "tiles H b (b + 16 + hb_size (H b)) e ys"
    "block_ok (last (p # xs)) (H b)" by (fact t)+
  note b1 = tiles_bounds [OF t(1)] and b2 = tiles_bounds [OF t(2)]
  show "x \<in> set xs \<Longrightarrow> x + 16 + hb_size (H x) \<le> b" "y \<in> set ys \<Longrightarrow> b + 16 + hb_size (H b) \<le> y"
    using b1 b2 by auto
  show "b \<notin> set xs" "b \<notin> set ys" "a \<le> b" "b + 16 + hb_size (H b) \<le> e" using b1 b2 by fastforce+
  show "b + 24 \<le> b + 16 + hb_size (H b)" using t(3) by (simp add: block_ok_def)
qed

text \<open>Repointing the \<open>prev\<close> link of the block at \<open>a\<close>, if a block starts there.\<close>

definition set_prev_at :: "bool \<Rightarrow> nat \<Rightarrow> nat \<Rightarrow> (nat \<Rightarrow> heap_mem_block) \<Rightarrow> nat \<Rightarrow> heap_mem_block" where
  "set_prev_at c a p H = (if c then H(a := (H a)\<lparr>hb_prev := p\<rparr>) else H)"

lemma tiles_reprev:
  assumes "tiles H p a e ys"
  shows "tiles (set_prev_at (ys \<noteq> []) a q H) q a e ys"
proof (cases ys)
  case (Cons y zs)
  then have t: "tiles H a (a + 16 + hb_size (H a)) e zs" "block_ok p (H a)" "y = a"
    using assms by auto
  have "b \<noteq> a" if "b \<in> set zs" for b using tiles_bounds [OF t(1)] that by force
  then have "tiles (set_prev_at True a q H) a (a + 16 + hb_size (H a)) e zs"
    using t(1) by (subst tiles_cong [of zs _ H]) (auto simp: set_prev_at_def)
  then show ?thesis using Cons t by (simp add: set_prev_at_def block_ok_def)
qed (use assms in \<open>simp add: set_prev_at_def\<close>)

lemma set_prev_at_simps [simp]:
  "hb_size (set_prev_at c a p H b) = hb_size (H b)"
  "hb_status (set_prev_at c a p H b) = hb_status (H b)"
  "hb_magic (set_prev_at c a p H b) = hb_magic (H b)"
  "b \<noteq> a \<Longrightarrow> set_prev_at c a p H b = H b"
  by (auto simp: set_prev_at_def)

section \<open>Blocks out of the index\<close>

text \<open>
  Between the moment a block leaves the index and the moment it is claimed or filed again,
  the arena is still tiled and the index files every other free block.
\<close>

definition carved :: "(hmem \<Rightarrow> 'i \<Rightarrow> nat set \<Rightarrow> bool) \<Rightarrow> heap_cfg \<Rightarrow> 'i heap \<Rightarrow>
    nat list \<Rightarrow> nat \<Rightarrow> nat list \<Rightarrow> bool" where
  "carved files cfg h xs b ys \<longleftrightarrow>
     heap_mem_head h = heap_start cfg \<and>
     tiles (hdr h) 0 (heap_start cfg) (heap_start cfg + HEAP_SIZE cfg) (xs @ b # ys) \<and>
     (\<forall>c \<in> set (xs @ ys). hb_status (hdr h c) \<le> MEM_ALOC) \<and>
     files (hp_mem h) (hp_index h) (free_set (hdr h) (xs @ ys))"

definition same_blocks :: "nat set \<Rightarrow> 'i heap \<Rightarrow> 'i heap \<Rightarrow> bool" where
  "same_blocks A h h' \<longleftrightarrow> (\<forall>c \<in> A. hb_size (hdr h' c) = hb_size (hdr h c) \<and>
       hb_status (hdr h' c) = hb_status (hdr h c)) \<and>
     allocation_count h' = allocation_count h \<and> allocation_size h' = allocation_size h"

lemma upd_hdr_simps [simp]:
  "hm_hdr (hp_mem (upd_hdr b f h)) = (hdr h)(b := f (hdr h b))"
  "hm_node (hp_mem (upd_hdr b f h)) = hm_node (hp_mem h)"
  "heap_mem_head (upd_hdr b f h) = heap_mem_head h"
  "hp_index (upd_hdr b f h) = hp_index h"
  "allocation_size (upd_hdr b f h) = allocation_size h"
  "allocation_count (upd_hdr b f h) = allocation_count h"
  "hp_perf (upd_hdr b f h) = hp_perf h"
  by (simp_all add: upd_hdr_def)

lemma fixup_simps [simp]:
  "hm_node (hp_mem (fixup_next_prev cfg b h)) = hm_node (hp_mem h)"
  "heap_mem_head (fixup_next_prev cfg b h) = heap_mem_head h"
  "hp_index (fixup_next_prev cfg b h) = hp_index h"
  "allocation_size (fixup_next_prev cfg b h) = allocation_size h"
  "allocation_count (fixup_next_prev cfg b h) = allocation_count h"
  "hp_perf (fixup_next_prev cfg b h) = hp_perf h"
  by (simp_all add: fixup_next_prev_def Let_def)

lemma fixup_hdr:
  assumes "tiles (hdr h) q (b + 16 + hb_size (hdr h b)) (heap_mem_head h + HEAP_SIZE cfg) ys"
    and "heap_mem_head h \<le> b"
  shows "hdr (fixup_next_prev cfg b h) =
    set_prev_at (ys \<noteq> []) (b + 16 + hb_size (hdr h b)) b (hdr h)"
proof (cases ys)
  case Nil
  then show ?thesis using assms by (simp add: fixup_next_prev_def in_heap_def set_prev_at_def Let_def)
next
  case (Cons y zs)
  then have y: "hb_magic (hdr h (b + 16 + hb_size (hdr h b))) = 20"
    and "b + 16 + hb_size (hdr h b) < heap_mem_head h + HEAP_SIZE cfg"
    using assms tiles_bounds [OF assms(1)] by (auto simp: block_ok_def)
  then show ?thesis
    using Cons assms(2) by (simp add: fixup_next_prev_def in_heap_def set_prev_at_def Let_def)
qed

lemma free_set_simps [simp]:
  "free_set H [] = {}"
  "free_set H (b # bs) = (if is_free H b then insert b (free_set H bs) else free_set H bs)"
  "free_set H (xs @ ys) = free_set H xs \<union> free_set H ys"
  by (auto simp: free_set_def)

lemma free_set_cong:
  "(\<And>b. b \<in> set bs \<Longrightarrow> hb_status (H' b) = hb_status (H b)) \<Longrightarrow> free_set H' bs = free_set H bs"
  by (auto simp: free_set_def)

lemma free_set_in: "b \<in> free_set H bs \<Longrightarrow> b \<in> set bs"
  by (simp add: free_set_def)

lemma carved_tiles:
  assumes "carved files cfg h xs b ys"
  shows "tiles (hdr h) 0 (heap_start cfg) (heap_start cfg + HEAP_SIZE cfg) (xs @ b # ys)"
    "heap_mem_head h = heap_start cfg"
    "files (hp_mem h) (hp_index h) (free_set (hdr h) (xs @ ys))"
    "c \<in> set (xs @ ys) \<Longrightarrow> hb_status (hdr h c) \<le> 1"
  using assms by (simp_all add: carved_def)

text \<open>The shape of the headers after a split: the residual \<open>r\<close> behind \<open>b\<close>.\<close>

lemma tiles_split:
  assumes t: "tiles H p a e (xs @ b # ys)"
    and n: "8 \<le> need" "8 dvd need" "need + 24 \<le> hb_size (H b)"
  defines "r \<equiv> b + 16 + need" and "s \<equiv> hb_size (H b)"
  assumes R: "hb_magic R = 20" "hb_size R = s - (need + 16)" "hb_prev R = b"
    and B: "hb_magic B = hb_magic (H b)" "hb_size B = need" "hb_prev B = hb_prev (H b)"
    and H': "H' = (set_prev_at (ys \<noteq> []) (b + 16 + s) r (H(r := R)))(b := B)"
  shows "tiles H' p a e (xs @ b # r # ys)"
proof -
  note m = tiles_mid [OF t]
  have ok: "block_ok b R"
    using m(8) n R by (auto simp: block_ok_def s_def dvd_diff_nat)
  have end_r: "r + 16 + hb_size R = b + 16 + s" using n R by (simp add: r_def s_def)
  have xs: "tiles H' p a b xs"
    using m(9) m(1,3,6) by (subst tiles_cong [of xs _ H]) (force simp: H' r_def s_def)+
  have "tiles (H(r := R)) b (b + 16 + s) e ys"
    using m(10) m(2) n by (subst tiles_cong [of ys _ H]) (force simp: r_def s_def)+
  from tiles_reprev [OF this, of r]
  have "tiles (set_prev_at (ys \<noteq> []) (b + 16 + s) r (H(r := R))) r (b + 16 + s) e ys" .
  then have ys: "tiles H' r (b + 16 + s) e ys"
    using m(4) by (subst tiles_cong [of ys H' "set_prev_at (ys \<noteq> []) (b + 16 + s) r (H(r := R))"])
      (auto simp: H')
  have b: "H' b = B" by (simp add: H')
  have r: "H' r = R" using n by (auto simp: H' r_def s_def set_prev_at_def)
  show ?thesis
    using xs ys ok m(8) n B b r end_r by (auto simp: tiles_append block_ok_def r_def ac_simps)
qed

lemma tiles_merge:
  assumes t: "tiles H p a e (xs @ b # c # ys)"
  defines "s \<equiv> hb_size (H b) + (16 + hb_size (H c))"
  assumes H': "H' = set_prev_at (ys \<noteq> []) (b + 16 + s) b (H(b := (H b)\<lparr>hb_size := s\<rparr>))"
  shows "tiles H' p a e (xs @ b # ys)"
proof -
  note m = tiles_mid [OF t]
  have c: "c = b + 16 + hb_size (H b)" "block_ok b (H c)" using m(10) by auto
  have cy: "tiles H c (b + 16 + s) e ys" using m(10) c by (auto simp: s_def add.assoc)
  have ok: "block_ok q (H b) \<Longrightarrow> block_ok q (H' b)" for q
    using c by (auto simp: block_ok_def H' s_def)
  have xs: "tiles H' p a b xs"
    using m(9) m(1,3,6) by (subst tiles_cong [of xs _ H]) (force simp: H' s_def)+
  have "tiles (H(b := (H b)\<lparr>hb_size := s\<rparr>)) c (b + 16 + s) e ys"
    using cy m(4) by (subst tiles_cong [of ys _ H]) auto
  from tiles_reprev [OF this, of b] have ys: "tiles H' b (b + 16 + s) e ys" by (simp add: H')
  have "hb_size (H' b) = s" by (simp add: H')
  then show ?thesis using xs ys ok m(8) by (simp add: tiles_append)
qed

lemma same_blocksD:
  "same_blocks A h h' \<Longrightarrow> c \<in> A \<Longrightarrow> hb_size (hdr h' c) = hb_size (hdr h c)"
  "same_blocks A h h' \<Longrightarrow> c \<in> A \<Longrightarrow> hb_status (hdr h' c) = hb_status (hdr h c)"
  "same_blocks A h h' \<Longrightarrow> allocation_count h' = allocation_count h"
  "same_blocks A h h' \<Longrightarrow> allocation_size h' = allocation_size h"
  by (simp_all add: same_blocks_def)

lemma same_blocks_trans:
  "same_blocks A h h' \<Longrightarrow> same_blocks A h' h'' \<Longrightarrow> same_blocks A h h''"
  by (simp add: same_blocks_def)

lemma same_blocks_subset: "same_blocks A h h' \<Longrightarrow> B \<subseteq> A \<Longrightarrow> same_blocks B h h'"
  by (auto simp: same_blocks_def)

context heap_index
begin

definition supports :: "heap_cfg \<Rightarrow> bool" where
  "supports cfg \<longleftrightarrow> heap_cfg_ok cfg \<and> (\<forall>n < HEAP_SIZE cfg. can_file n)"

lemma supportsD:
  assumes "supports cfg"
  shows "0 < heap_start cfg" "8 dvd heap_start cfg" "8 dvd HEAP_SIZE cfg" "24 \<le> HEAP_SIZE cfg"
    "heap_start cfg + HEAP_SIZE cfg < 2 ^ 32" "n < HEAP_SIZE cfg \<Longrightarrow> can_file n"
  using assms by (simp_all add: supports_def heap_cfg_ok_def)

lemma carved_size:
  assumes "supports cfg" "carved files cfg h xs b ys"
  shows "heap_start cfg \<le> b" "b \<noteq> 0" "b + 16 + hb_size (hdr h b) < 2 ^ 32"
    "hb_size (hdr h b) < 2 ^ 32" "can_file (hb_size (hdr h b))" "8 dvd b"
  using supportsD [OF assms(1)] tiles_mid [OF carved_tiles(1) [OF assms(2)]]
    tiles_aligned [OF carved_tiles(1) [OF assms(2)], of b] by auto

text \<open>The index operations as they act on whole heaps.\<close>

lemma insert_files:
  assumes "files (hp_mem h) (hp_index h) S" "b \<notin> S" "b \<noteq> 0" "can_file (hb_size (hdr h b))"
  shows "files (hp_mem (vheap_index_insert ops b h)) (hp_index (vheap_index_insert ops b h))
      (insert b S)"
    "hdr (vheap_index_insert ops b h) = hdr h"
    "heap_mem_head (vheap_index_insert ops b h) = heap_mem_head h"
    "same_blocks A h (vheap_index_insert ops b h)"
    "hp_perf (vheap_index_insert ops b h) = hp_perf h"
proof -
  obtain m' i' where e: "ix_insert ops b (hp_mem h, hp_index h) = (m', i')" by fastforce
  note f = files_insert [OF assms e]
  then show "files (hp_mem (vheap_index_insert ops b h)) (hp_index (vheap_index_insert ops b h))
      (insert b S)" "hdr (vheap_index_insert ops b h) = hdr h"
    "heap_mem_head (vheap_index_insert ops b h) = heap_mem_head h"
    "same_blocks A h (vheap_index_insert ops b h)"
    "hp_perf (vheap_index_insert ops b h) = hp_perf h"
    by (simp_all add: vheap_index_insert_def e same_blocks_def)
qed

lemma remove_files:
  assumes "files (hp_mem h) (hp_index h) S" "b \<in> S"
  shows "files (hp_mem (vheap_index_remove ops b h)) (hp_index (vheap_index_remove ops b h))
      (S - {b})"
    "hdr (vheap_index_remove ops b h) = hdr h"
    "heap_mem_head (vheap_index_remove ops b h) = heap_mem_head h"
    "same_blocks A h (vheap_index_remove ops b h)"
    "hp_perf (vheap_index_remove ops b h) = hp_perf h"
proof -
  obtain m' i' where e: "ix_remove ops b (hp_mem h, hp_index h) = (m', i')" by fastforce
  note f = files_remove [OF assms e]
  then show "files (hp_mem (vheap_index_remove ops b h)) (hp_index (vheap_index_remove ops b h))
      (S - {b})" "hdr (vheap_index_remove ops b h) = hdr h"
    "heap_mem_head (vheap_index_remove ops b h) = heap_mem_head h"
    "same_blocks A h (vheap_index_remove ops b h)"
    "hp_perf (vheap_index_remove ops b h) = hp_perf h"
    by (simp_all add: vheap_index_remove_def e same_blocks_def)
qed

lemma files_hdr:
  assumes "files (hp_mem h) (hp_index h) S" "hm_node (hp_mem h') = hm_node (hp_mem h)"
    "hp_index h' = hp_index h" "\<And>b. b \<in> S \<Longrightarrow> hb_size (hdr h' b) = hb_size (hdr h b)"
  shows "files (hp_mem h') (hp_index h') S"
  using files_frame [OF assms(1), of "hp_mem h'"] assms by auto

text \<open>Splitting off a residual.\<close>

lemma heap_split_carved:
  assumes sup: "supports cfg" and c: "carved files cfg h xs b ys"
    and n: "8 \<le> need" "8 dvd need" "need \<le> hb_size (hdr h b)"
    and e: "heap_split ops cfg b need h = (d, h')"
  defines "r \<equiv> b + 16 + need"
  shows "carved files cfg h' xs b (if d then r # ys else ys)"
    "need \<le> hb_size (hdr h' b)" "same_blocks (set xs \<union> set ys) h h'" "d \<Longrightarrow> is_free (hdr h') r"
proof -
  let ?s = "hb_size (hdr h b)"
  note m = tiles_mid [OF carved_tiles(1) [OF c]] and z = carved_size [OF sup c]
  have "carved files cfg h' xs b (if d then r # ys else ys) \<and> need \<le> hb_size (hdr h' b) \<and>
    same_blocks (set xs \<union> set ys) h h' \<and> (d \<longrightarrow> is_free (hdr h') r)"
  proof (cases "need + 24 \<le> ?s")
    case False
    then have "u32 (need + 24) = need + 24"
      using z n dvd_imp_le [of 8 b] by (intro u32_id) simp
    then have "\<not> d" "h' = h" using False e by (auto simp: heap_split_def add.assoc Let_def)
    then show ?thesis using c n by (simp add: same_blocks_def)
  next
    case True
    then have u: "u32 (need + 24) = need + 24" using z by (intro u32_id) simp
    have us: "u32_sub ?s (need + 16) = ?s - (need + 16)" using True z by simp
    define R where "R = (hdr h r)\<lparr>hb_magic := 20, hb_status := 0, hb_size := ?s - (need + 16),
      hb_prev := b\<rparr>"
    define h1 where "h1 = upd_hdr r (\<lambda>_. R) h"
    define h2 where "h2 = upd_hdr b (\<lambda>b. b\<lparr>hb_size := need\<rparr>) (fixup_next_prev cfg r h1)"
    have h2: "hm_node (hp_mem h2) = hm_node (hp_mem h)" "hp_index h2 = hp_index h"
      "heap_mem_head h2 = heap_mem_head h" "allocation_count h2 = allocation_count h"
      "allocation_size h2 = allocation_size h"
      by (simp_all add: h2_def h1_def)
    have rb: "r \<noteq> b" by (simp add: r_def)
    have d: "d" and h': "h' = vheap_index_insert ops r h2"
      using e True rb unfolding heap_split_def h2_def h1_def R_def r_def
      by (auto simp: u us Let_def add.assoc upd_hdr_def)
    have ry: "r \<notin> set ys" "r \<notin> set xs" using m True n by (fastforce simp: r_def)+
    have "tiles ((hdr h)(r := R)) b (b + 16 + ?s) (heap_start cfg + HEAP_SIZE cfg) ys"
      using m(10) ry by (subst tiles_cong [of ys _ "hdr h"]) auto
    then have "tiles (hdr h1) b (r + 16 + hb_size (hdr h1 r))
        (heap_mem_head h1 + HEAP_SIZE cfg) ys"
      using True carved_tiles(2) [OF c] by (simp add: h1_def R_def r_def add.assoc)
    from fixup_hdr [OF this]
    have fx: "hdr (fixup_next_prev cfg r h1) =
        set_prev_at (ys \<noteq> []) (b + 16 + ?s) r ((hdr h)(r := R))"
      using z True carved_tiles(2) [OF c] by (simp add: h1_def R_def r_def add.assoc)
    have H2: "hdr h2 = (set_prev_at (ys \<noteq> []) (b + 16 + ?s) r ((hdr h)(r := R)))
        (b := (hdr h b)\<lparr>hb_size := need\<rparr>)"
      using rb by (auto simp: h2_def fx set_prev_at_def)
    have t2: "tiles (hdr h2) 0 (heap_start cfg) (heap_start cfg + HEAP_SIZE cfg) (xs @ b # r # ys)"
      using tiles_split [OF carved_tiles(1) [OF c] n(1,2) True, of R "(hdr h b)\<lparr>hb_size := need\<rparr>" "hdr h2"] H2
      by (simp add: R_def r_def)
    have other: "hb_size (hdr h2 x) = hb_size (hdr h x) \<and> hb_status (hdr h2 x) = hb_status (hdr h x)"
      if "x \<in> set xs \<union> set ys" for x
      using that m(3,4) ry by (auto simp: H2)
    have fr: "is_free (hdr h2) r" "hb_size (hdr h2 b) = need" using rb by (simp_all add: H2 R_def)
    have "files (hp_mem h2) (hp_index h2) (free_set (hdr h) (xs @ ys))"
      by (rule files_hdr [OF carved_tiles(3) [OF c]])
        (use other h2 in \<open>auto simp del: free_set_simps dest!: free_set_in\<close>)
    moreover have fs: "free_set (hdr h2) (xs @ ys) = free_set (hdr h) (xs @ ys)"
      by (rule free_set_cong) (use other in auto)
    ultimately have f2: "files (hp_mem h2) (hp_index h2) (free_set (hdr h2) (xs @ ys))" by simp
    have rs: "hb_size (hdr h2 r) < HEAP_SIZE cfg"
      using tiles_bounds [OF t2] carved_tiles(2) [OF c] z(1) by (fastforce simp: r_def)
    have "r \<notin> free_set (hdr h2) (xs @ ys)" using ry by (auto simp: free_set_def)
    note ins = insert_files [OF f2 this _ supportsD(6) [OF sup rs]]
    have r0: "r \<noteq> 0" by (simp add: r_def)
    have "carved files cfg h' xs b (r # ys)"
      using ins(1-3) [OF r0] t2 fr other carved_tiles(2,4) [OF c]
      by (auto simp: carved_def h' h2)
    moreover have "same_blocks (set xs \<union> set ys) h h'"
      using ins(2,4) [OF r0] other by (auto simp: same_blocks_def h' h2)
    ultimately show ?thesis using d fr ins(2) [OF r0] by (simp add: h')
  qed
  then show "carved files cfg h' xs b (if d then r # ys else ys)" "need \<le> hb_size (hdr h' b)"
    "same_blocks (set xs \<union> set ys) h h'" "d \<Longrightarrow> is_free (hdr h') r" by blast+
qed

end

lemma free_set_append_remove:
  "b \<notin> set xs \<Longrightarrow> b \<notin> set ys \<Longrightarrow> is_free H b \<Longrightarrow> free_set H (xs @ b # ys) - {b} = free_set H (xs @ ys)"
  by (auto simp: free_set_def)

context heap_index
begin

text \<open>Carving an aligned block: \<open>b\<close> keeps the leading remainder and is filed.\<close>

lemma heap_carve_carved:
  assumes sup: "supports cfg" and c: "carved files cfg h xs b ys"
    and al: "b + 24 \<le> al" "8 dvd al" "al + 24 \<le> b + 16 + hb_size (hdr h b)"
  defines "h' \<equiv> heap_carve ops cfg b al h"
  shows "carved files cfg h' (xs @ [b]) al ys" "is_free (hdr h') b"
    "hb_size (hdr h' al) = b + hb_size (hdr h b) - al" "same_blocks (set xs \<union> set ys) h h'"
proof -
  let ?s = "hb_size (hdr h b)" and ?need = "al - (b + 16)"
  note m = tiles_mid [OF carved_tiles(1) [OF c]] and z = carved_size [OF sup c]
  have us: "u32_sub (b + 16 + ?s) (al + 16) = ?s - (?need + 16)" "u32_sub al (b + 16) = ?need"
    using al z by simp_all
  define R where "R = (hdr h al)\<lparr>hb_magic := 20, hb_prev := b, hb_size := ?s - (?need + 16)\<rparr>"
  define B where "B = (hdr h b)\<lparr>hb_size := ?need, hb_status := 0\<rparr>"
  define h1 where "h1 = upd_hdr b (\<lambda>_. B) (upd_hdr al (\<lambda>_. R) h)"
  define h2 where "h2 = fixup_next_prev cfg al h1"
  have ab: "al \<noteq> b" "b \<noteq> al" using al by auto
  have h': "h' = vheap_index_insert ops b h2"
    using ab by (simp add: h'_def heap_carve_def h2_def h1_def R_def B_def us Let_def upd_hdr_def)
  have h2: "hm_node (hp_mem h2) = hm_node (hp_mem h)" "hp_index h2 = hp_index h"
    "heap_mem_head h2 = heap_mem_head h" "allocation_count h2 = allocation_count h"
    "allocation_size h2 = allocation_size h"
    by (simp_all add: h2_def h1_def)
  have aly: "al \<notin> set ys" "al \<notin> set xs" using m al by fastforce+
  have ay: "al + 16 + hb_size R = b + 16 + ?s" using al by (simp add: R_def)
  have H1: "hdr h1 = (hdr h)(al := R, b := B)" "heap_mem_head h1 = heap_start cfg"
    "((hdr h)(al := R, b := B)) al = R"
    using ab carved_tiles(2) [OF c] by (simp_all add: h1_def)
  have "tiles ((hdr h)(al := R, b := B)) b (b + 16 + ?s) (heap_start cfg + HEAP_SIZE cfg) ys"
    using m(10,4) aly by (subst tiles_cong [of ys _ "hdr h"]) auto
  then have "tiles (hdr h1) b (al + 16 + hb_size (hdr h1 al)) (heap_mem_head h1 + HEAP_SIZE cfg) ys"
    by (simp only: H1 ay)
  from fixup_hdr [OF this]
  have fx: "hdr h2 = set_prev_at (ys \<noteq> []) (b + 16 + ?s) al ((hdr h)(al := R, b := B))"
    using z(1) al(1) unfolding H1 ay h2_def by simp
  then have H2: "hdr h2 = (set_prev_at (ys \<noteq> []) (b + 16 + ?s) al ((hdr h)(al := R)))(b := B)"
    using m(6) by (auto simp: set_prev_at_def fun_upd_twist)
  have al_eq: "b + 16 + ?need = al" using al by simp
  have n: "8 \<le> ?need" "8 dvd ?need" "?need + 24 \<le> ?s"
    using al z(6) by (auto intro!: dvd_diff_nat)
  have "tiles (hdr h2) 0 (heap_start cfg) (heap_start cfg + HEAP_SIZE cfg)
      (xs @ b # (b + 16 + ?need) # ys)"
    by (rule tiles_split [OF carved_tiles(1) [OF c] n, of R B])
      (use H2 in \<open>simp_all add: R_def B_def al_eq\<close>)
  then have t2: "tiles (hdr h2) 0 (heap_start cfg) (heap_start cfg + HEAP_SIZE cfg)
      (xs @ b # al # ys)" by (simp only: al_eq)
  have other: "hb_size (hdr h2 x) = hb_size (hdr h x) \<and> hb_status (hdr h2 x) = hb_status (hdr h x)"
    if "x \<in> set xs \<union> set ys" for x
    using that m(3,4) aly by (auto simp: H2)
  have fr: "is_free (hdr h2) b" "hb_size (hdr h2 b) = ?need" "hb_size (hdr h2 al) = hb_size R"
    using ab by (simp_all add: H2 B_def)
  have "files (hp_mem h2) (hp_index h2) (free_set (hdr h) (xs @ ys))"
    by (rule files_hdr [OF carved_tiles(3) [OF c]])
      (use other h2 in \<open>auto simp del: free_set_simps dest!: free_set_in\<close>)
  moreover have fs: "free_set (hdr h2) (xs @ ys) = free_set (hdr h) (xs @ ys)"
    by (rule free_set_cong) (use other in auto)
  ultimately have f2: "files (hp_mem h2) (hp_index h2) (free_set (hdr h2) (xs @ ys))" by simp
  have bs: "hb_size (hdr h2 b) < HEAP_SIZE cfg"
    using tiles_bounds [OF t2] z(1) by fastforce
  have "b \<notin> free_set (hdr h2) (xs @ ys)" using m(3,4) by (auto simp: free_set_def)
  note ins = insert_files [OF f2 this z(2) supportsD(6) [OF sup bs]]
  show "carved files cfg h' (xs @ [b]) al ys"
    using ins(1-3) t2 fr other carved_tiles(2,4) [OF c] by (auto simp: carved_def h' h2)
  show "is_free (hdr h') b" "hb_size (hdr h' al) = b + hb_size (hdr h b) - al"
    using ins(2) fr al by (simp_all add: h' R_def)
  show "same_blocks (set xs \<union> set ys) h h'"
    using ins(2,4) other by (auto simp: same_blocks_def h' h2)
qed

text \<open>Absorbing the right neighbour, either by the freed block or into the one before it.\<close>

lemma heap_absorb_tiles:
  assumes sup: "supports cfg" and hd: "heap_mem_head h = heap_start cfg"
    and t: "tiles (hdr h) 0 (heap_start cfg) (heap_start cfg + HEAP_SIZE cfg) (xs @ b # c # ys)"
    and f: "files (hp_mem h) (hp_index h) (insert u (free_set (hdr h) (xs @ ys)))"
    and u: "u \<in> {b, c}" and st: "\<forall>x \<in> set (xs @ ys). hb_status (hdr h x) \<le> 1"
  defines "h' \<equiv> heap_absorb ops cfg u b c h"
  shows "carved files cfg h' xs b ys" "same_blocks (set xs \<union> set ys) h h'"
    "hb_status (hdr h' b) = hb_status (hdr h b)"
    "hb_status (hdr h' c) = hb_status (hdr h c)" "hb_magic (hdr h' c) = hb_magic (hdr h c)"
    "hb_prev (hdr h' b) = hb_prev (hdr h b)"
proof -
  let ?s = "hb_size (hdr h b) + (16 + hb_size (hdr h c))"
  note m = tiles_mid [OF t]
  have mc: "c = b + 16 + hb_size (hdr h b)" "b + 16 + ?s \<le> heap_start cfg + HEAP_SIZE cfg"
    using m(10) tiles_bounds [OF m(10)] by auto
  have "?s < 2 ^ 32" using mc(2) supportsD(5) [OF sup] by simp
  then have us: "u32 ?s = ?s" by (rule u32_id)
  have un: "u \<notin> free_set (hdr h) (xs @ ys)"
    using u m tiles_distinct [OF t] by (auto simp: free_set_def)
  define h0 where "h0 = vheap_index_remove ops u h"
  define h1 where "h1 = upd_hdr b (\<lambda>x. x\<lparr>hb_size := ?s\<rparr>) h0"
  note rm = remove_files [OF f, of u, simplified]
  have h0: "hdr h0 = hdr h" "heap_mem_head h0 = heap_mem_head h"
    "files (hp_mem h0) (hp_index h0) (free_set (hdr h) (xs @ ys))"
    "same_blocks A h h0" for A
    using rm un by (auto simp: h0_def)
  have h': "h' = fixup_next_prev cfg b h1"
  proof -
    have "upd_hdr b (\<lambda>x. x\<lparr>hb_size := u32 (hb_size x + (16 + hb_size (hdr h0 c)))\<rparr>) h0 = h1"
      by (simp add: h1_def upd_hdr_def h0(1) us)
    then show ?thesis by (simp add: h'_def heap_absorb_def h0_def Let_def)
  qed
  have bc: "b \<noteq> c" using mc by simp
  have bn: "b \<notin> set ys" "c \<notin> set ys" "b \<notin> set xs" "c \<notin> set xs"
    using tiles_distinct [OF t] by auto
  have "tiles (hdr h) c (b + 16 + ?s) (heap_start cfg + HEAP_SIZE cfg) ys"
    using m(10) mc by (auto simp: add.assoc)
  then have "tiles (hdr h1) c (b + 16 + hb_size (hdr h1 b)) (heap_mem_head h1 + HEAP_SIZE cfg) ys"
    using bn hd h0 by (subst tiles_cong [of ys _ "hdr h"]) (auto simp: h1_def)
  from fixup_hdr [OF this]
  have H': "hdr h' = set_prev_at (ys \<noteq> []) (b + 16 + ?s) b ((hdr h)(b := (hdr h b)\<lparr>hb_size := ?s\<rparr>))"
    using m(5) hd h0 by (simp add: h' h1_def)
  have t': "tiles (hdr h') 0 (heap_start cfg) (heap_start cfg + HEAP_SIZE cfg) (xs @ b # ys)"
    using tiles_merge [OF t] H' by simp
  have other: "hb_size (hdr h' x) = hb_size (hdr h x) \<and> hb_status (hdr h' x) = hb_status (hdr h x)"
    if "x \<in> set xs \<union> set ys" for x
    using that bn by (auto simp: H')
  have h'eq: "hm_node (hp_mem h') = hm_node (hp_mem h0)" "hp_index h' = hp_index h0"
    "heap_mem_head h' = heap_mem_head h0" "allocation_count h' = allocation_count h0"
    "allocation_size h' = allocation_size h0"
    by (simp_all add: h' h1_def)
  have "files (hp_mem h') (hp_index h') (free_set (hdr h) (xs @ ys))"
    by (rule files_hdr [OF h0(3) h'eq(1,2)])
      (use other bn h0(1) in \<open>auto simp del: free_set_simps dest!: free_set_in\<close>)
  moreover have "free_set (hdr h') (xs @ ys) = free_set (hdr h) (xs @ ys)"
    by (rule free_set_cong) (use other bn in auto)
  ultimately show "carved files cfg h' xs b ys"
    using t' h'eq h0 hd st other bn by (auto simp: carved_def)
  show "same_blocks (set xs \<union> set ys) h h'"
    using other bn h'eq h0(4) by (auto simp: same_blocks_def)
  show "hb_status (hdr h' b) = hb_status (hdr h b)" "hb_prev (hdr h' b) = hb_prev (hdr h b)"
    by (auto simp: H' set_prev_at_def)
  show "hb_status (hdr h' c) = hb_status (hdr h c)" "hb_magic (hdr h' c) = hb_magic (hdr h c)"
    using bc by (simp_all add: H')
qed

end

section \<open>Counters, adjacency and live blocks\<close>

lemma aloc_simps [simp]:
  "aloc_count H [] = 0" "aloc_size H [] = 0"
  "aloc_count H (b # bs) = (if is_free H b then 0 else 1) + aloc_count H bs"
  "aloc_size H (b # bs) = (if is_free H b then 0 else hb_size (H b)) + aloc_size H bs"
  "aloc_count H (xs @ ys) = aloc_count H xs + aloc_count H ys"
  "aloc_size H (xs @ ys) = aloc_size H xs + aloc_size H ys"
  by (simp_all add: aloc_count_def aloc_size_def)

lemma aloc_cong:
  assumes "\<And>b. b \<in> set bs \<Longrightarrow> hb_status (H' b) = hb_status (H b) \<and> hb_size (H' b) = hb_size (H b)"
  shows "aloc_count H' bs = aloc_count H bs" "aloc_size H' bs = aloc_size H bs"
  using assms by (induction bs) auto

lemma aloc_bound: "tiles H p a e bs \<Longrightarrow> a + 16 * aloc_count H bs + aloc_size H bs \<le> e"
proof (induction bs arbitrary: p a)
  case (Cons b bs)
  then have "a + 16 + hb_size (H a) + 16 * aloc_count H bs + aloc_size H bs \<le> e" "b = a"
    using Cons.IH by auto
  then show ?case by auto
qed simp

lemma no_free_pair_cong:
  "(\<And>b. b \<in> set bs \<Longrightarrow> hb_status (H' b) = hb_status (H b)) \<Longrightarrow>
    no_free_pair H' bs = no_free_pair H bs"
  unfolding no_free_pair_def by (rule successively_cong) auto

lemma no_free_pair_Nil [simp]: "no_free_pair H []"
  by (simp add: no_free_pair_def)

lemma no_free_pair_mid:
  "no_free_pair H (xs @ b # ys) \<longleftrightarrow> no_free_pair H xs \<and> no_free_pair H ys \<and>
     (is_free H b \<longrightarrow> (xs \<noteq> [] \<longrightarrow> \<not> is_free H (last xs)) \<and> (ys \<noteq> [] \<longrightarrow> \<not> is_free H (hd ys)))"
  by (auto simp: no_free_pair_def successively_append_iff successively_Cons)

lemma no_free_pair_Cons:
  "no_free_pair H (b # ys) \<longleftrightarrow> no_free_pair H ys \<and>
     (is_free H b \<longrightarrow> (ys \<noteq> [] \<longrightarrow> \<not> is_free H (hd ys)))"
  using no_free_pair_mid [of H "[]"] by simp

lemma live_eq:
  assumes "\<And>c. c \<in> A \<Longrightarrow> hb_status (hdr h' c) = hb_status (hdr h c) \<and> hb_size (hdr h' c) = hb_size (hdr h c)"
    "\<And>c. c \<in> set bs \<Longrightarrow> \<not> is_free (hdr h) c \<Longrightarrow> c \<in> A"
    "\<And>c. c \<in> set bs' \<Longrightarrow> \<not> is_free (hdr h') c \<Longrightarrow> c \<in> A"
    "\<And>c. c \<in> A \<Longrightarrow> c \<in> set bs \<longleftrightarrow> c \<in> set bs'"
  shows "live h' bs' = live h bs"
proof
  fix p
  show "live h' bs' p = live h bs p"
  proof (cases "p - 16 \<in> A")
    case True
    then show ?thesis using assms(1) assms(4) [OF True] by (simp add: live_def)
  next
    case False
    then show ?thesis using assms(2,3) by (auto simp: live_def)
  qed
qed

lemma live_Some:
  "live h bs p = Some n \<longleftrightarrow> 16 \<le> p \<and> p - 16 \<in> set bs \<and> \<not> is_free (hdr h) (p - 16) \<and>
     n = hb_size (hdr h (p - 16))"
  by (auto simp: live_def)

text \<open>The abstract effect of an allocation: a fresh region, disjoint from every live one.\<close>

definition alloc_spec :: "(nat \<rightharpoonup> nat) \<Rightarrow> nat \<Rightarrow> nat \<Rightarrow> (nat \<rightharpoonup> nat) \<Rightarrow> bool" where
  "alloc_spec L p n L' \<longleftrightarrow> L p = None \<and> L' = L(p \<mapsto> n) \<and>
     (\<forall>q m. L q = Some m \<longrightarrow> p + n \<le> q \<or> q + m \<le> p)"

lemma heap_need_props:
  shows "8 \<le> heap_need sz" "8 dvd heap_need sz" "heap_need sz < 2 ^ 32"
    "0 < sz \<Longrightarrow> sz \<le> 2 ^ 32 - 8 \<Longrightarrow> sz \<le> heap_need sz"
    "0 < sz \<Longrightarrow> sz \<le> 2 ^ 32 - 8 \<Longrightarrow> heap_need sz < sz + 8"
proof -
  have e: "and_not_u32 (u32 (sz + 7)) 7 = u32 (sz + 7) div 8 * 8"
    by (simp add: and_not_u32_7)
  have lt: "u32 (sz + 7) < 2 ^ 32" by (rule u32_less)
  show "8 \<le> heap_need sz" "8 dvd heap_need sz" by (simp_all add: heap_need_def e Let_def)
  show "heap_need sz < 2 ^ 32" using lt by (simp add: heap_need_def e Let_def) linarith
  show "sz \<le> heap_need sz" "heap_need sz < sz + 8" if "0 < sz" "sz \<le> 2 ^ 32 - 8"
  proof -
    have "u32 (sz + 7) = sz + 7" using that by simp
    with e have "heap_need sz = (if (sz + 7) div 8 * 8 < 8 then 8 else (sz + 7) div 8 * 8)"
      by (simp add: heap_need_def)
    then show "sz \<le> heap_need sz" "heap_need sz < sz + 8"
      using that(1) by auto
  qed
qed

section \<open>The operations keep the invariant\<close>

lemma heap_invD:
  assumes "heap_inv files cfg h bs"
  shows "heap_mem_head h = heap_start cfg"
    "tiles (hdr h) 0 (heap_start cfg) (heap_start cfg + HEAP_SIZE cfg) bs"
    "b \<in> set bs \<Longrightarrow> hb_status (hdr h b) \<le> 1" "no_free_pair (hdr h) bs"
    "files (hp_mem h) (hp_index h) (free_set (hdr h) bs)"
    "allocation_count h = aloc_count (hdr h) bs" "allocation_size h = aloc_size (hdr h) bs"
  using assms by (simp_all add: heap_inv_def)

text \<open>Two live blocks of a heap never overlap.\<close>

lemma live_disjoint:
  assumes "heap_inv files cfg h bs" "live h bs p = Some n" "live h bs q = Some m" "p \<noteq> q"
  shows "p + n \<le> q \<or> q + m \<le> p"
proof -
  have "p - 16 \<noteq> q - 16" "16 \<le> p" "16 \<le> q" using assms(2-4) by (auto simp: live_Some)
  then show ?thesis
    using tiles_apart [OF heap_invD(2) [OF assms(1)], of "p - 16" "q - 16"] assms(2,3)
    unfolding live_Some by linarith
qed

lemma live_in_arena:
  assumes "heap_inv files cfg h bs" "heap_cfg_ok cfg" "live h bs p = Some n"
  shows "heap_start cfg < p" "p + n \<le> heap_start cfg + HEAP_SIZE cfg" "8 dvd p" "8 \<le> n" "8 dvd n"
proof -
  note t = heap_invD(2) [OF assms(1)]
  have p: "16 \<le> p" "p - 16 \<in> set bs" "n = hb_size (hdr h (p - 16))"
    using assms(3) by (auto simp: live_Some)
  have b: "heap_start cfg \<le> p - 16" "p - 16 + 16 + n \<le> heap_start cfg + HEAP_SIZE cfg"
    using tiles_bounds [OF t] p by auto
  show "heap_start cfg < p" "p + n \<le> heap_start cfg + HEAP_SIZE cfg" using b p(1) by auto
  have "8 dvd p - 16" using tiles_aligned [OF t _ p(2)] assms(2) by (simp add: heap_cfg_ok_def)
  then have "8 dvd p - 16 + 16" by (rule dvd_add) simp
  then show "8 dvd p" using p(1) by simp
  show "8 \<le> n" "8 dvd n" using tiles_status [OF t p(2)] p(3) by (simp_all add: block_ok_def)
qed

context heap_index
begin

lemma inv_remove:
  assumes "heap_inv files cfg h (xs @ b # ys)" "is_free (hdr h) b"
  shows "carved files cfg (vheap_index_remove ops b h) xs b ys"
    "hdr (vheap_index_remove ops b h) = hdr h" "same_blocks A h (vheap_index_remove ops b h)"
proof -
  have d: "b \<notin> set xs" "b \<notin> set ys" using tiles_distinct [OF heap_invD(2) [OF assms(1)]] by auto
  have "b \<in> free_set (hdr h) (xs @ b # ys)" using assms(2) by (simp add: free_set_def)
  note rm = remove_files [OF heap_invD(5) [OF assms(1)] this]
  show "hdr (vheap_index_remove ops b h) = hdr h" "same_blocks A h (vheap_index_remove ops b h)"
    by (rule rm)+
  show "carved files cfg (vheap_index_remove ops b h) xs b ys"
    using rm heap_invD(1-3) [OF assms(1)] free_set_append_remove [OF d, of "hdr h"] assms(2)
    by (auto simp: carved_def)
qed

text \<open>Handing out the carved block.\<close>

lemma heap_claim_inv:
  assumes sup: "supports cfg" and c: "carved files cfg h xs b ys"
    and n: "allocation_count h = aloc_count (hdr h) (xs @ ys)"
      "allocation_size h = aloc_size (hdr h) (xs @ ys)"
    and p: "no_free_pair (hdr h) xs" "no_free_pair (hdr h) ys"
  shows "heap_inv files cfg (heap_claim b d h) (xs @ b # ys)"
    "hdr (heap_claim b d h) = (hdr h)(b := (hdr h b)\<lparr>hb_status := 1\<rparr>)"
proof -
  let ?h = "heap_claim b d h" and ?H = "(hdr h)(b := (hdr h b)\<lparr>hb_status := 1\<rparr>)"
  note t = carved_tiles [OF c] and m = tiles_mid [OF carved_tiles(1) [OF c]]
  show H: "hdr ?h = ?H" by (simp add: heap_claim_def Let_def)
  have frame: "hm_node (hp_mem ?h) = hm_node (hp_mem h)" "hp_index ?h = hp_index h"
    "heap_mem_head ?h = heap_mem_head h"
    by (simp_all add: heap_claim_def Let_def)
  have st: "?H x = hdr h x" if "x \<in> set xs \<union> set ys" for x using that m(3,4) by auto
  have tl: "tiles ?H 0 (heap_start cfg) (heap_start cfg + HEAP_SIZE cfg) (xs @ b # ys)"
    using t(1) st unfolding tiles_append
    by (subst tiles_cong [of xs ?H "hdr h"], simp, subst tiles_cong [of ys ?H "hdr h"], simp)
      (simp add: block_ok_def)
  have fs: "free_set ?H (xs @ b # ys) = free_set (hdr h) (xs @ ys)"
    using m(3,4) by (auto simp: free_set_def)
  have f: "files (hp_mem ?h) (hp_index ?h) (free_set (hdr h) (xs @ ys))"
    by (rule files_hdr [OF t(3) frame(1,2)]) (simp add: H)
  have ac: "aloc_count ?H xs = aloc_count (hdr h) xs" "aloc_size ?H xs = aloc_size (hdr h) xs"
    "aloc_count ?H ys = aloc_count (hdr h) ys" "aloc_size ?H ys = aloc_size (hdr h) ys"
    by (rule aloc_cong; use st in simp)+
  have "heap_start cfg + 16 * aloc_count ?H (xs @ b # ys) + aloc_size ?H (xs @ b # ys)
      \<le> heap_start cfg + HEAP_SIZE cfg" by (rule aloc_bound [OF tl])
  then have "aloc_count (hdr h) (xs @ ys) + 1 < 2 ^ 32"
    "aloc_size (hdr h) (xs @ ys) + hb_size (hdr h b) < 2 ^ 32"
    using supportsD(5) [OF sup] ac by simp_all
  then have cnt: "allocation_count ?h = aloc_count ?H (xs @ b # ys)"
    "allocation_size ?h = aloc_size ?H (xs @ b # ys)"
    using n ac by (simp_all add: heap_claim_def Let_def)
  have np: "no_free_pair ?H (xs @ b # ys)"
    using p no_free_pair_cong [of xs ?H "hdr h"] no_free_pair_cong [of ys ?H "hdr h"] st
    by (simp add: no_free_pair_mid)
  show "heap_inv files cfg ?h (xs @ b # ys)"
    unfolding heap_inv_def H using t tl fs f cnt np frame by auto
qed

text \<open>
  From a free block of a good heap to a live one: the block is taken off the index, perhaps
  cut, and claimed.
\<close>

lemma take_and_claim:
  assumes sup: "supports cfg" and c: "carved files cfg h xs b ys"
    and n: "8 \<le> need" "8 dvd need" "need \<le> hb_size (hdr h b)"
    and cnt: "allocation_count h = aloc_count (hdr h) (xs @ ys)"
      "allocation_size h = aloc_size (hdr h) (xs @ ys)"
    and p: "no_free_pair (hdr h) xs" "no_free_pair (hdr h) ys"
      "ys \<noteq> [] \<Longrightarrow> \<not> is_free (hdr h) (hd ys)"
    and e: "heap_split ops cfg b need h = (d, h1)"
  defines "h' \<equiv> heap_claim b d h1"
  shows "\<exists>zs m. heap_inv files cfg h' (xs @ b # zs) \<and> need \<le> m \<and>
    live h' (xs @ b # zs) = (live h (xs @ ys))(b + 16 \<mapsto> m)"
proof -
  define zs where "zs = (if d then (b + 16 + need) # ys else ys)"
  let ?r = "b + 16 + need"
  note s = heap_split_carved [OF sup c n e]
  have c1: "carved files cfg h1 xs b zs" using s(1) by (simp add: zs_def)
  note same = same_blocksD [OF s(3)]
  have ac: "aloc_count (hdr h1) xs = aloc_count (hdr h) xs" "aloc_size (hdr h1) xs = aloc_size (hdr h) xs"
    "aloc_count (hdr h1) ys = aloc_count (hdr h) ys" "aloc_size (hdr h1) ys = aloc_size (hdr h) ys"
    by (rule aloc_cong; use same in simp)+
  have npx: "no_free_pair (hdr h1) xs" and npy: "no_free_pair (hdr h1) ys"
    using p(1,2) same(2) no_free_pair_cong [of xs "hdr h1" "hdr h"]
      no_free_pair_cong [of ys "hdr h1" "hdr h"] by auto
  have npz: "no_free_pair (hdr h1) zs"
    using npy p(3) same(2) [of "hd ys"] by (auto simp: zs_def no_free_pair_Cons)
  have cnt1: "allocation_count h1 = aloc_count (hdr h1) (xs @ zs)"
    "allocation_size h1 = aloc_size (hdr h1) (xs @ zs)"
    using cnt ac same(3,4) s(4) by (auto simp: zs_def)
  note k = heap_claim_inv [OF sup c1 cnt1 npx npz, of d]
  note m = tiles_mid [OF carved_tiles(1) [OF c1]]
  have "live h' (xs @ b # zs) q = ((live h (xs @ ys))(b + 16 \<mapsto> hb_size (hdr h1 b))) q" for q
  proof (cases "q - 16 = b \<and> 16 \<le> q")
    case True
    then have "q = b + 16" by auto
    then show ?thesis using k(2) by (simp add: live_def h'_def)
  next
    case False
    have "q \<noteq> b + 16" using False by auto
    have "?thesis" if "16 \<le> q" "q - 16 \<in> set xs \<union> set ys"
      using that k(2) same(1,2) [of "q - 16"] False \<open>q \<noteq> b + 16\<close>
      by (auto simp: live_def h'_def zs_def)
    moreover have "?thesis" if "\<not> (16 \<le> q \<and> q - 16 \<in> set xs \<union> set ys)"
      using that False k(2) s(4) \<open>q \<noteq> b + 16\<close>
      by (auto simp: live_def h'_def zs_def split: if_splits)
    ultimately show ?thesis by blast
  qed
  then have "live h' (xs @ b # zs) = (live h (xs @ ys))(b + 16 \<mapsto> hb_size (hdr h1 b))" by blast
  then show ?thesis using k(1) s(2) h'_def by blast
qed

end

lemma live_skip_free:
  assumes "is_free (hdr h) b" "hdr h' = hdr h"
  shows "live h' (xs @ ys) = live h (xs @ b # ys)"
  by (rule live_eq [where A = "set xs \<union> set ys - {b}"]) (use assms in auto)

lemma alloc_specI:
  assumes "heap_inv files cfg h' bs'" "live h' bs' = L(p \<mapsto> n)" "L p = None"
  shows "alloc_spec L p n (live h' bs')"
proof -
  have "p + n \<le> q \<or> q + m \<le> p" if "L q = Some m" for q m
    using live_disjoint [OF assms(1), of p n q m] that assms(2,3) by (cases "p = q") auto
  then show ?thesis using assms(2,3) by (simp add: alloc_spec_def)
qed

text \<open>What an allocator call may do: fail with the heap as it was, or hand out a block.\<close>

definition alloc_result :: "(hmem \<Rightarrow> 'i \<Rightarrow> nat set \<Rightarrow> bool) \<Rightarrow> heap_cfg \<Rightarrow> 'i heap \<Rightarrow> nat list \<Rightarrow>
    nat \<Rightarrow> nat \<Rightarrow> 'i heap \<Rightarrow> bool" where
  "alloc_result files cfg h bs need p h' \<longleftrightarrow>
     (if p = 0 then heap_inv files cfg h' bs \<and> hp_mem h' = hp_mem h
      else \<exists>bs' n. heap_inv files cfg h' bs' \<and> need \<le> n \<and> 8 dvd p \<and>
        heap_start cfg < p \<and> p + n \<le> heap_start cfg + HEAP_SIZE cfg \<and>
        alloc_spec (live h bs) p n (live h' bs'))"

lemma alloc_resultI:
  assumes i: "heap_inv files cfg h' bs'" "heap_cfg_ok cfg"
    and l: "live h' bs' = (live h bs)(p \<mapsto> n)" "live h bs p = None" "need \<le> n"
  shows "alloc_result files cfg h bs need p h'"
proof -
  have "live h' bs' p = Some n" using l(1) by simp
  note a = live_in_arena [OF i this]
  then have "p \<noteq> 0" by simp
  then show ?thesis
    using i(1) a l(3) alloc_specI [OF i(1) l(1,2)] unfolding alloc_result_def by auto
qed

context heap_index
begin

lemma find_inv:
  assumes i: "heap_inv files cfg h bs" and n: "can_find need"
    and e: "vheap_index_find ops need h = (r, h1)"
  shows "heap_inv files cfg h1 bs" "hp_mem h1 = hp_mem h" "r \<noteq> Undef"
    "r = Found b \<Longrightarrow> b \<in> set bs \<and> is_free (hdr h) b \<and> need \<le> hb_size (hdr h b)"
proof -
  obtain ix where ix: "ix_find ops need (hp_mem h, hp_index h) = (r, ix)"
    and h1: "h1 = h\<lparr>hp_index := ix\<rparr>"
    using e by (auto simp: vheap_index_find_def split: prod.splits)
  note f = files_find [OF heap_invD(5) [OF i] n ix]
  then show "heap_inv files cfg h1 bs" using i by (simp add: h1 heap_inv_def)
  show "hp_mem h1 = hp_mem h" by (simp add: h1)
  show "r \<noteq> Undef" "r = Found b \<Longrightarrow> b \<in> set bs \<and> is_free (hdr h) b \<and> need \<le> hb_size (hdr h b)"
    using f by (auto simp: free_set_def)
qed

lemma inv_oom: "heap_inv files cfg h bs \<Longrightarrow> heap_inv files cfg (h\<lparr>hp_perf := p\<rparr>) bs"
  by (simp add: heap_inv_def)

text \<open>The common tail of the allocators, from the index hit on.\<close>

lemma claim_found:
  assumes sup: "supports cfg" and i: "heap_inv files cfg h bs"
    and b: "b \<in> set bs" "is_free (hdr h) b" and n: "8 \<le> need" "8 dvd need" "need \<le> hb_size (hdr h b)"
    and e: "heap_split ops cfg b need (vheap_index_remove ops b h) = (d, h1)"
  shows "alloc_result files cfg h bs need (b + 16) (heap_claim b d h1)"
proof -
  let ?h = "vheap_index_remove ops b h"
  obtain xs ys where bs: "bs = xs @ b # ys" using b(1) by (meson split_list)
  note rm = inv_remove [OF i [unfolded bs] b(2)]
  have cnt: "allocation_count ?h = aloc_count (hdr ?h) (xs @ ys)"
    "allocation_size ?h = aloc_size (hdr ?h) (xs @ ys)"
    using heap_invD(6,7) [OF i] b(2) rm(2) rm(3) [of "{}"] by (simp_all add: bs same_blocks_def)
  have np: "no_free_pair (hdr ?h) xs" "no_free_pair (hdr ?h) ys"
    "ys \<noteq> [] \<Longrightarrow> \<not> is_free (hdr ?h) (hd ys)"
    using heap_invD(4) [OF i] b(2) rm(2) by (simp_all add: bs no_free_pair_mid)
  have "need \<le> hb_size (hdr ?h b)" using n(3) rm(2) by simp
  from take_and_claim [OF sup rm(1) n(1,2) this cnt np e]
  obtain zs m where z: "heap_inv files cfg (heap_claim b d h1) (xs @ b # zs)" "need \<le> m"
    "live (heap_claim b d h1) (xs @ b # zs) = (live ?h (xs @ ys))(b + 16 \<mapsto> m)" by blast
  have "live ?h (xs @ ys) = live h bs" using live_skip_free [OF b(2) rm(2)] by (simp add: bs)
  with z(3) have l: "live (heap_claim b d h1) (xs @ b # zs) = (live h bs)(b + 16 \<mapsto> m)" by simp
  have "live h bs (b + 16) = None" using b(2) by (simp add: live_def)
  with z l sup show ?thesis by (intro alloc_resultI) (auto simp: supports_def)
qed

text \<open>A size the backend finds, or for which its search has no defined result.\<close>

definition answers :: "nat \<Rightarrow> bool" where
  "answers n \<longleftrightarrow> can_find n \<or> (\<forall>x. fst (ix_find ops n x) = Undef)"

lemma answers_can_find:
  assumes "answers n" "vheap_index_find ops n h = (r, h1)" "r \<noteq> Undef"
  shows "can_find n"
  using assms by (auto simp: answers_def vheap_index_find_def split: prod.splits) (metis fst_conv)

lemma malloc_result:
  assumes sup: "supports cfg" and i: "heap_inv files cfg h bs" and a: "answers (heap_need sz)"
    and e: "v_malloc ops cfg sz h = Inr (p, h')"
  shows "alloc_result files cfg h bs (heap_need sz) p h'"
proof (cases "sz = 0")
  case True
  then show ?thesis using e i by (auto simp: v_malloc_def alloc_result_def split: if_splits)
next
  case sz: False
  have hd: "heap_mem_head h \<noteq> 0" using heap_invD(1) [OF i] supportsD(1) [OF sup] by simp
  obtain r h1 where fd: "vheap_index_find ops (heap_need sz) h = (r, h1)" by fastforce
  have "r \<noteq> Undef" using e sz hd fd by (auto simp: v_malloc_def)
  note f = find_inv [OF i answers_can_find [OF a fd this] fd]
  show ?thesis
  proof (cases r)
    case (Found b)
    obtain d h2 where s: "heap_split ops cfg b (heap_need sz) (vheap_index_remove ops b h1) = (d, h2)"
      by fastforce
    have ph: "p = b + 16" "h' = heap_claim b d h2"
      using e sz hd fd Found s by (simp_all add: v_malloc_def Let_def)
    have "alloc_result files cfg h1 bs (heap_need sz) (b + 16) (heap_claim b d h2)"
      using f(2) f(4) [OF Found] heap_need_props(1,2) s
      by (intro claim_found [OF sup f(1)]) auto
    moreover have "live h1 bs = live h bs" using f(2) by (intro ext) (simp add: live_def)
    ultimately show ?thesis by (simp add: ph alloc_result_def)
  next
    case NotFound
    then have "p = 0" "h' = h1\<lparr>hp_perf := v_perf_on_heap_oom (hp_perf h1)\<rparr>"
      using e sz hd fd by (auto simp: v_malloc_def Let_def split: if_splits)
    then show ?thesis using inv_oom [OF f(1)] f(2) by (simp add: alloc_result_def)
  next
    case Undef
    then show ?thesis using f(3) by simp
  qed
qed


lemma carve_and_claim:
  assumes sup: "supports cfg" and i: "heap_inv files cfg h bs"
    and b: "b \<in> set bs" "is_free (hdr h) b" and n: "8 \<le> need" "8 dvd need"
    and al: "b + 24 \<le> al" "8 dvd al" "al + need \<le> b + hb_size (hdr h b)"
    and e: "heap_split ops cfg al need (heap_carve ops cfg b al (vheap_index_remove ops b h)) = (d, h1)"
  shows "alloc_result files cfg h bs need (al + 16) (heap_claim al d h1)"
proof -
  let ?h = "vheap_index_remove ops b h"
  let ?k = "heap_carve ops cfg b al ?h"
  obtain xs ys where bs: "bs = xs @ b # ys" using b(1) by (meson split_list)
  note rm = inv_remove [OF i [unfolded bs] b(2)]
  have al3: "al + 24 \<le> b + 16 + hb_size (hdr ?h b)" using al(3) n(1) rm(2) by simp
  note cv = heap_carve_carved [OF sup rm(1) al(1,2) al3]
  note same = same_blocksD [OF same_blocks_trans [OF rm(3) cv(4)]]
  have ac: "aloc_count (hdr ?k) xs = aloc_count (hdr h) xs" "aloc_size (hdr ?k) xs = aloc_size (hdr h) xs"
    "aloc_count (hdr ?k) ys = aloc_count (hdr h) ys" "aloc_size (hdr ?k) ys = aloc_size (hdr h) ys"
    by (rule aloc_cong; use same in simp)+
  have cnt: "allocation_count ?k = aloc_count (hdr ?k) ((xs @ [b]) @ ys)"
    "allocation_size ?k = aloc_size (hdr ?k) ((xs @ [b]) @ ys)"
    using heap_invD(6,7) [OF i] b(2) cv(2) same(3,4) ac by (simp_all add: bs)
  have st: "hb_status (hdr ?k c) = hb_status (hdr h c)" if "c \<in> set xs \<union> set ys" for c
    using same(2) that by simp
  have np0: "no_free_pair (hdr h) xs" "no_free_pair (hdr h) ys"
    "xs \<noteq> [] \<Longrightarrow> \<not> is_free (hdr h) (last xs)" "ys \<noteq> [] \<Longrightarrow> \<not> is_free (hdr h) (hd ys)"
    using heap_invD(4) [OF i] b(2) by (simp_all add: bs no_free_pair_mid)
  have np: "no_free_pair (hdr ?k) (xs @ [b])" "no_free_pair (hdr ?k) ys"
    "ys \<noteq> [] \<Longrightarrow> \<not> is_free (hdr ?k) (hd ys)"
    using np0 st no_free_pair_cong [of xs "hdr ?k" "hdr h"] no_free_pair_cong [of ys "hdr ?k" "hdr h"]
    by (auto simp: no_free_pair_mid)
  have "need \<le> hb_size (hdr ?k al)" using cv(3) al rm(2) by simp
  from take_and_claim [OF sup cv(1) n this cnt np e]
  obtain zs m where z: "heap_inv files cfg (heap_claim al d h1) ((xs @ [b]) @ al # zs)" "need \<le> m"
    "live (heap_claim al d h1) ((xs @ [b]) @ al # zs) = (live ?k ((xs @ [b]) @ ys))(al + 16 \<mapsto> m)"
    by blast
  have "live ?k ((xs @ [b]) @ ys) = live h bs"
    by (rule live_eq [where A = "set xs \<union> set ys - {b}"])
      (use b(2) cv(2) same in \<open>auto simp: bs\<close>)
  with z(3) have l: "live (heap_claim al d h1) ((xs @ [b]) @ al # zs) = (live h bs)(al + 16 \<mapsto> m)"
    by simp
  have "al \<notin> set bs"
    using tiles_apart [OF heap_invD(2) [OF i] b(1), of al] al
      tiles_bounds [OF heap_invD(2) [OF i]] n(1) by fastforce
  then have "live h bs (al + 16) = None" by (simp add: live_def)
  with z l sup show ?thesis by (intro alloc_resultI) (auto simp: supports_def)
qed

end

subsection \<open>Aligned allocation\<close>

lemma aligned_address:
  assumes al: "0 < (align :: nat)" "off < align" and a: "a = (p0 + (align - 1 - off)) div align * align + off"
  shows "p0 \<le> a" "a < p0 + align" "a mod align = off"
proof -
  let ?x = "p0 + (align - 1 - off)"
  let ?q = "?x div align"
  have "?q * align + ?x mod align = ?x" by (rule div_mult_mod_eq)
  moreover have "?x mod align < align" using al by simp
  ultimately have "?x < ?q * align + align" "?q * align \<le> ?x" by linarith+
  then show "p0 \<le> a" "a < p0 + align" using a al by linarith+
  show "a mod align = off" using a al by simp
qed

lemma align_bump_result:
  assumes "16 \<le> align" "8 dvd a" "8 dvd p0" "p0 < a" "a < p0 + align" "p0 + align + 24 < 2 ^ 32"
    "16 \<le> p0"
  shows "\<exists>a'. align_bump align p0 a = Some a' \<and> p0 + 24 \<le> a' \<and> a' < p0 + align + 24 \<and>
    (a' = a \<or> a' = a + align)"
proof -
  have a8: "p0 + 8 \<le> a"
  proof -
    obtain j k where "a = 8 * j" "p0 = 8 * k" using assms(2,3) by (auto elim!: dvdE)
    then show ?thesis using assms(4) by auto
  qed
  show ?thesis
  proof (cases "a < p0 + 24")
    case True
    have u: "u32 (a + align) = a + align" using assms True by simp
    have s: "u32_sub a 16 = a - 16" "u32_sub (a + align) 16 = a + align - 16"
      using assms True by simp_all
    have ge: "\<not> a + align - 16 < p0 + 8" using assms(1) a8 by linarith
    have "align_bump align p0 (a + align) = Some (a + align)"
      using ge by (subst align_bump.simps) (simp add: s)
    then have "align_bump align p0 a = Some (a + align)"
      using True assms by (subst align_bump.simps) (simp add: s u)
    then show ?thesis using True assms a8 by auto
  next
    case False
    have s: "u32_sub a 16 = a - 16" using assms by simp
    have "align_bump align p0 a = Some a"
      using le_diff_conv2 False assms(7) by (subst align_bump.simps) (simp add: s, linarith)
    then show ?thesis using False assms by auto
  qed
qed

lemma u32_align:
  assumes "p0 + align + 24 < 2 ^ 32" "off < align"
  shows "u32 (u32_sub p0 off + (align - 1)) = p0 + (align - 1 - off)"
proof -
  have "u32 off = off" using assms by simp
  then have "u32 (u32_sub p0 off + (align - 1)) = u32 (p0 + 2 ^ 32 - off + (align - 1))"
    by (simp add: u32_sub_def u32_def mod_add_left_eq)
  also have "p0 + 2 ^ 32 - off + (align - 1) = 2 ^ 32 + (p0 + (align - 1 - off))"
    using assms by simp
  also have "u32 \<dots> = u32 (p0 + (align - 1 - off))" unfolding u32_def by (rule mod_add_self1)
  also have "\<dots> = p0 + (align - 1 - off)" using assms by (intro u32_id) simp
  finally show ?thesis .
qed

lemma pow2_align:
  assumes "8 < (align :: nat)" "align AND (align - 1) = 0"
  obtains k where "align = 2 ^ k" "16 \<le> align" "8 dvd align"
proof -
  obtain k where k: "align = 2 ^ k" using pow2_test [of align] assms by auto
  have "(2 :: nat) ^ 3 < 2 ^ k" using assms(1) k by simp
  then have "3 < k" by (rule power_less_imp_less_exp [rotated]) simp
  then have "(2 :: nat) ^ 4 dvd 2 ^ k" by (intro le_imp_power_dvd) simp
  then have "16 dvd align" using k by simp
  moreover have "(8 :: nat) dvd 16" by simp
  ultimately have "8 dvd align" "16 \<le> align" using assms(1) by (auto intro: dvd_imp_le)
  then show ?thesis using that k by blast
qed


context heap_index
begin

lemma memalign_degenerate:
  assumes sup: "supports cfg" and i: "heap_inv files cfg h bs" and n: "answers (heap_need sz)"
    and d: "sz = 0 \<or> align \<le> 8 \<or> align AND (align - 1) \<noteq> 0 \<or> off \<ge> align \<or> off AND 7 \<noteq> 0"
    and e: "v_memalign_off ops cfg align off sz h = Inr (p, h')"
  shows "alloc_result files cfg h bs (heap_need sz) p h'"
proof -
  have hd: "heap_mem_head h \<noteq> 0" using heap_invD(1) [OF i] supportsD(1) [OF sup] by simp
  show ?thesis
  proof (cases "sz = 0 \<or> align = 0 \<or> align AND (align - 1) \<noteq> 0 \<or> off \<ge> align \<or> off AND 7 \<noteq> 0")
    case True
    then have "p = 0" "h' = h" using e hd by (auto simp: v_memalign_off_def split: if_splits)
    then show ?thesis using i by (simp add: alloc_result_def)
  next
    case False
    then show ?thesis
      using e d hd malloc_result [OF sup i n] by (auto simp: v_memalign_off_def split: if_splits)
  qed
qed

lemma memalign_place_result:
  assumes sup: "supports cfg" and i: "heap_inv files cfg h bs"
    and big: "align AND (align - 1) = 0" "off < align" "off AND 7 = 0" "8 < align"
    and need: "8 \<le> need" "8 dvd need"
    and fb: "b \<in> set bs" "is_free (hdr h) b" "need + align + 24 \<le> hb_size (hdr h b)"
  shows "\<exists>p h'. memalign_place ops cfg align off need b h = Inr (p, h') \<and>
    alloc_result files cfg h bs need p h' \<and> p mod align = off"
proof -
  let ?h = "vheap_index_remove ops b h" and ?p0 = "b + 16"
  let ?a = "(?p0 + (align - 1 - off)) div align * align + off"
  obtain k where k: "align = 2 ^ k" and al: "16 \<le> align" "8 dvd align"
    using pow2_align [OF big(4,1)] by blast
  have off8: "8 dvd off"
    using big(3) take_bit_eq_mask [of 3 off]
    by (simp add: mask_eq_exp_minus_1 take_bit_eq_mod dvd_eq_mod_eq_0)
  have sz: "b + 16 + hb_size (hdr h b) < 2 ^ 32" "8 dvd b"
    using tiles_bounds [OF heap_invD(2) [OF i]] tiles_aligned [OF heap_invD(2) [OF i]]
      supportsD [OF sup] fb by fastforce+
  have up: "?p0 + align + 24 < 2 ^ 32" using sz fb by simp
  have "(2 :: nat) ^ k < 2 ^ 32" using up k by linarith
  then have k32: "k < 32" by (rule power_less_imp_less_exp [rotated]) simp
  note aa = aligned_address [of align off ?a ?p0, OF _ big(2) refl]
  have x: "u32 (u32_sub ?p0 off + (align - 1)) = ?p0 + (align - 1 - off)"
    using up big(2) by (rule u32_align)
  have a: "u32 (and_not_u32 (u32 (u32_sub ?p0 off + (align - 1))) (align - 1) + off) = ?a"
    unfolding x using and_not_u32_pow2 [OF k32, of "?p0 + (align - 1 - off)"] k aa up al(1)
    by simp
  have a8: "8 dvd ?a" using al(2) off8 by simp
  show ?thesis
  proof (cases "?a = ?p0")
    case True
    obtain d h2 where sp: "heap_split ops cfg b need ?h = (d, h2)" by fastforce
    have "memalign_place ops cfg align off need b h = Inr (b + 16, heap_claim b d h2)"
      using sp a True unfolding memalign_place_def by (simp add: Let_def)
    moreover have "alloc_result files cfg h bs need (b + 16) (heap_claim b d h2)"
      using fb need sp by (intro claim_found [OF sup i]) auto
    moreover have "(b + 16) mod align = off" using aa(3) al(1) unfolding True by simp
    ultimately show ?thesis by blast
  next
    case False
    have g: "?p0 < ?a" "?a < ?p0 + align" using aa(1,2) al False by auto
    obtain a' where a': "align_bump align ?p0 ?a = Some a'" "?p0 + 24 \<le> a'"
        "a' < ?p0 + align + 24" "a' = ?a \<or> a' = ?a + align"
      using align_bump_result [OF al(1) a8 _ g up] sz(2) by auto
    have us: "u32_sub a' 16 = a' - 16" using a' up by simp
    obtain d h2 where sp: "heap_split ops cfg (a' - 16) need
        (heap_carve ops cfg b (a' - 16) ?h) = (d, h2)" by fastforce
    have "memalign_place ops cfg align off need b h =
        Inr (a' - 16 + 16, heap_claim (a' - 16) d h2)"
      using sp a False a'(1) us unfolding memalign_place_def by (simp add: Let_def)
    moreover have c8: "8 dvd a' - 16" using a'(4) a8 al(2) by (intro dvd_diff_nat) auto
    then have "alloc_result files cfg h bs need (a' - 16 + 16) (heap_claim (a' - 16) d h2)"
      using fb need sp a'(2,3) by (intro carve_and_claim [OF sup i]) auto
    moreover have "(a' - 16 + 16) mod align = off" using a'(2,4) aa(3) al by auto
    ultimately show ?thesis by blast
  qed
qed

lemma memalign_result:
  assumes sup: "supports cfg" and i: "heap_inv files cfg h bs"
    and big: "0 < sz" "align AND (align - 1) = 0" "off < align" "off AND 7 = 0" "8 < align"
    and n: "can_find (heap_need sz + align + 24)"
    and w: "heap_need sz + align + 24 < 2 ^ 32"
  shows "\<exists>p h'. v_memalign_off ops cfg align off sz h = Inr (p, h') \<and>
    alloc_result files cfg h bs (heap_need sz) p h' \<and> (p \<noteq> 0 \<longrightarrow> p mod align = off)"
proof -
  let ?need = "heap_need sz"
  have hd: "heap_mem_head h \<noteq> 0" using heap_invD(1) [OF i] supportsD(1) [OF sup] by simp
  obtain r h1 where fd: "vheap_index_find ops (?need + align + 24) h = (r, h1)" by fastforce
  note f = find_inv [OF i n fd]
  have "u32 (?need + align + 24) = ?need + align + 24" using w by simp
  then have e: "v_memalign_off ops cfg align off sz h = (case r of Undef \<Rightarrow> Inl Heap_Undefined
      | NotFound \<Rightarrow> Inr (0, h1\<lparr>hp_perf := v_perf_on_heap_oom (hp_perf h1)\<rparr>)
      | Found blk \<Rightarrow> memalign_place ops cfg align off ?need blk h1)"
    using big hd fd by (simp add: v_memalign_off_def Let_def add.assoc)
  have lv: "live h1 bs = live h bs" using f(2) by (intro ext) (simp add: live_def)
  show ?thesis
  proof (cases r)
    case (Found b)
    obtain p h' where "memalign_place ops cfg align off ?need b h1 = Inr (p, h')"
      "alloc_result files cfg h1 bs ?need p h'" "p mod align = off"
      using memalign_place_result [OF sup f(1) big(2-5) heap_need_props(1,2) [of sz], of b]
        f(2) f(4) [OF Found] by auto
    then show ?thesis using e Found lv f(2) by (auto simp: alloc_result_def)
  next
    case NotFound
    then show ?thesis using e inv_oom [OF f(1)] f(2) by (simp add: alloc_result_def)
  next
    case Undef
    then show ?thesis using f(3) by simp
  qed
qed

end

subsection \<open>Freeing\<close>

context heap_index
begin

text \<open>A freed block on its way back to the index.\<close>

definition pending :: "heap_cfg \<Rightarrow> 'i heap \<Rightarrow> nat list \<Rightarrow> nat \<Rightarrow> nat list \<Rightarrow> bool" where
  "pending cfg h xs b ys \<longleftrightarrow> carved files cfg h xs b ys \<and> is_free (hdr h) b \<and>
     allocation_count h = aloc_count (hdr h) (xs @ ys) \<and>
     allocation_size h = aloc_size (hdr h) (xs @ ys) \<and>
     no_free_pair (hdr h) xs \<and> no_free_pair (hdr h) ys"

lemma pending_step:
  assumes "pending cfg h xs b ys" "same_blocks (set xs' \<union> set ys') h h'"
    "carved files cfg h' xs' b' ys'" "is_free (hdr h') b'"
    "set xs' \<subseteq> set xs" "set ys' \<subseteq> set ys" "no_free_pair (hdr h) xs'" "no_free_pair (hdr h) ys'"
    "aloc_count (hdr h) (xs @ ys) = aloc_count (hdr h) (xs' @ ys')"
    "aloc_size (hdr h) (xs @ ys) = aloc_size (hdr h) (xs' @ ys')"
  shows "pending cfg h' xs' b' ys'"
proof -
  note same = same_blocksD [OF assms(2)]
  have "aloc_count (hdr h') xs' = aloc_count (hdr h) xs'" "aloc_size (hdr h') xs' = aloc_size (hdr h) xs'"
    "aloc_count (hdr h') ys' = aloc_count (hdr h) ys'" "aloc_size (hdr h') ys' = aloc_size (hdr h) ys'"
    by (rule aloc_cong; use same in simp)+
  moreover have "no_free_pair (hdr h') xs' = no_free_pair (hdr h) xs'"
    "no_free_pair (hdr h') ys' = no_free_pair (hdr h) ys'"
    by (rule no_free_pair_cong; use same in simp)+
  ultimately show ?thesis using assms same(3,4) by (simp add: pending_def)
qed

lemma file_pending:
  assumes sup: "supports cfg" and p: "pending cfg h xs b ys"
    and edge: "xs \<noteq> [] \<Longrightarrow> \<not> is_free (hdr h) (last xs)" "ys \<noteq> [] \<Longrightarrow> \<not> is_free (hdr h) (hd ys)"
  defines "h' \<equiv> vheap_index_insert ops b h"
  shows "heap_inv files cfg h' (xs @ b # ys)" "live h' (xs @ b # ys) = live h (xs @ ys)"
    "hdr h' = hdr h"
proof -
  have c: "carved files cfg h xs b ys" and f: "is_free (hdr h) b" using p by (simp_all add: pending_def)
  note m = tiles_mid [OF carved_tiles(1) [OF c]] and z = carved_size [OF sup c]
  have "b \<notin> free_set (hdr h) (xs @ ys)" using m(3,4) by (auto simp: free_set_def)
  note ins = insert_files [OF carved_tiles(3) [OF c] this z(2,5)]
  show H: "hdr h' = hdr h" using ins(2) by (simp add: h'_def)
  show "heap_inv files cfg h' (xs @ b # ys)"
    using p ins(1,3) ins(4) [of "{}"] carved_tiles [OF c] f edge
    by (auto simp: heap_inv_def pending_def h'_def H [unfolded h'_def] no_free_pair_mid same_blocks_def)
  have "live h (xs @ b # ys) = live h (xs @ ys)" using live_skip_free [OF f refl] by simp
  moreover have "live h' bs = live h bs" for bs by (rule ext) (simp add: live_def H)
  ultimately show "live h' (xs @ b # ys) = live h (xs @ ys)" by simp
qed

lemma forward_pending:
  assumes sup: "supports cfg" and p: "pending cfg h xs b ys"
    and e: "coalesce_forward ops cfg b h = (h', k)"
  shows "\<exists>ys'. pending cfg h' xs b ys' \<and> (ys' \<noteq> [] \<longrightarrow> \<not> is_free (hdr h') (hd ys')) \<and>
    live h' (xs @ ys') = live h (xs @ ys)"
proof -
  have c: "carved files cfg h xs b ys" and f: "is_free (hdr h) b" using p by (simp_all add: pending_def)
  note m = tiles_mid [OF carved_tiles(1) [OF c]] and z = carved_size [OF sup c]
  let ?n = "b + 16 + hb_size (hdr h b)"
  have in_h: "in_heap cfg h ?n \<longleftrightarrow> ys \<noteq> []"
    using tiles_empty_iff [OF m(10)] m(5,7) carved_tiles(2) [OF c] by (auto simp: in_heap_def)
  show ?thesis
  proof (cases "ys \<noteq> [] \<and> is_free (hdr h) (hd ys)")
    case True
    then obtain ys' where ys: "ys = ?n # ys'" and nf: "is_free (hdr h) ?n"
      using m(10) by (cases ys) auto
    have nm: "hb_magic (hdr h ?n) = 20" using m(10) ys by (auto simp: block_ok_def)
    then have h': "h' = heap_absorb ops cfg ?n b ?n h" using e in_h nf ys by (simp add: coalesce_forward_def Let_def)
    have fs: "free_set (hdr h) (xs @ ys) = insert ?n (free_set (hdr h) (xs @ ys'))"
      using ys nf by auto
    note ab = heap_absorb_tiles [OF sup carved_tiles(2) [OF c], of xs b ?n ys' ?n, folded ys h',
        OF carved_tiles(1) [OF c] carved_tiles(3) [OF c, unfolded fs]]
    have st: "\<forall>x \<in> set (xs @ ys'). hb_status (hdr h x) \<le> 1" using carved_tiles(4) [OF c] ys by auto
    note ab = ab [OF _ st, simplified]
    have np: "no_free_pair (hdr h) ys'" "ys' \<noteq> [] \<Longrightarrow> \<not> is_free (hdr h) (hd ys')"
      using p ys nf by (auto simp: pending_def no_free_pair_Cons)
    have "pending cfg h' xs b ys'"
      by (rule pending_step [OF p ab(2,1)]) (use p f nf np ab(3) ys in \<open>auto simp: pending_def\<close>)
    moreover have "\<not> is_free (hdr h') (hd ys')" if "ys' \<noteq> []"
      using np(2) that same_blocksD(2) [OF ab(2), of "hd ys'"] by auto
    moreover have "live h' (xs @ ys') = live h (xs @ ys)"
      by (rule live_eq [where A = "set xs \<union> set ys'"])
        (use same_blocksD [OF ab(2)] nf ys in auto)
    ultimately show ?thesis by blast
  next
    case False
    have "\<not> (in_heap cfg h ?n \<and> hb_magic (hdr h ?n) = 20 \<and> is_free (hdr h) ?n)"
      using False in_h m(10) by (cases ys) auto
    then have "h' = h" using e by (auto simp: coalesce_forward_def Let_def)
    then show ?thesis using p False by blast
  qed
qed

lemma backward_pending:
  assumes sup: "supports cfg" and p: "pending cfg h xs b ys"
    and e: "coalesce_backward ops cfg b h = (h', b', k)"
    and y: "ys \<noteq> [] \<Longrightarrow> \<not> is_free (hdr h) (hd ys)"
  shows "\<exists>xs'. pending cfg h' xs' b' ys \<and> (xs' \<noteq> [] \<longrightarrow> \<not> is_free (hdr h') (last xs')) \<and>
    (ys \<noteq> [] \<longrightarrow> \<not> is_free (hdr h') (hd ys)) \<and>
    live h' (xs' @ ys) = live h (xs @ ys) \<and> is_free (hdr h') b"
proof -
  have c: "carved files cfg h xs b ys" and f: "is_free (hdr h) b" using p by (simp_all add: pending_def)
  note m = tiles_mid [OF carved_tiles(1) [OF c]] and z = carved_size [OF sup c]
  have pv: "hb_prev (hdr h b) = last (0 # xs)" using m(8) by (simp add: block_ok_def)
  show ?thesis
  proof (cases "xs \<noteq> [] \<and> is_free (hdr h) (last xs)")
    case True
    then obtain xs' q where xs: "xs = xs' @ [q]" and qf: "is_free (hdr h) q"
      by (metis append_butlast_last_id)
    note t = carved_tiles(1) [OF c, unfolded xs, simplified]
    have q0: "q \<noteq> 0" and qm: "hb_magic (hdr h q) = 20"
      using tiles_mid(5,8) [OF t] supportsD(1) [OF sup] by (auto simp: block_ok_def)
    have h': "h' = heap_absorb ops cfg q q b h" and b': "b' = q"
      using e pv xs q0 qm qf by (auto simp: coalesce_backward_def)
    have fs: "free_set (hdr h) (xs @ ys) = insert q (free_set (hdr h) (xs' @ ys))"
      using xs qf by auto
    have st: "\<forall>x \<in> set (xs' @ ys). hb_status (hdr h x) \<le> 1" using carved_tiles(4) [OF c] xs by auto
    note ab = heap_absorb_tiles [OF sup carved_tiles(2) [OF c] t
        carved_tiles(3) [OF c, unfolded fs] _ st, folded h', simplified]
    have np: "no_free_pair (hdr h) xs'" "xs' \<noteq> [] \<Longrightarrow> \<not> is_free (hdr h) (last xs')"
      using p xs qf by (auto simp: pending_def no_free_pair_mid)
    have "pending cfg h' xs' b' ys"
      unfolding b'
      by (rule pending_step [OF p ab(2,1)]) (use p f qf np ab(3) xs in \<open>auto simp: pending_def\<close>)
    moreover have "xs' \<noteq> [] \<longrightarrow> \<not> is_free (hdr h') (last xs')" "ys \<noteq> [] \<longrightarrow> \<not> is_free (hdr h') (hd ys)"
      using np(2) y same_blocksD(2) [OF ab(2)] by auto
    moreover have "live h' (xs' @ ys) = live h (xs @ ys)"
      by (rule live_eq [where A = "set xs' \<union> set ys"])
        (use same_blocksD [OF ab(2)] qf xs in auto)
    moreover have "is_free (hdr h') b" using ab(4) f by simp
    ultimately show ?thesis by blast
  next
    case False
    have "hb_prev (hdr h b) = 0 \<or> \<not> is_free (hdr h) (hb_prev (hdr h b))"
      using False pv by auto
    then have "h' = h" "b' = b" using e by (auto simp: coalesce_backward_def Let_def)
    then show ?thesis using p False y f by blast
  qed
qed

end

lemma all_free_single:
  assumes i: "heap_inv files cfg h bs" and ok: "heap_cfg_ok cfg" and l: "live h bs = Map.empty"
  shows "bs = [heap_start cfg]" "hb_size (hdr h (heap_start cfg)) = HEAP_SIZE cfg - 16"
    "is_free (hdr h) (heap_start cfg)"
proof -
  note t = heap_invD(2) [OF i]
  have fr: "is_free (hdr h) b" if "b \<in> set bs" for b
    using that fun_cong [OF l, of "b + 16"] by (auto simp: live_def split: if_splits)
  have ne: "bs \<noteq> []" using tiles_empty_iff [OF t] ok by (auto simp: heap_cfg_ok_def)
  show bs: "bs = [heap_start cfg]"
  proof (cases bs)
    case (Cons b cs)
    have "cs = []"
    proof (rule ccontr)
      assume "cs \<noteq> []"
      then show False using heap_invD(4) [OF i] fr Cons by (auto simp: no_free_pair_Cons)
    qed
    then show ?thesis using Cons t by simp
  qed (use ne in simp)
  show "hb_size (hdr h (heap_start cfg)) = HEAP_SIZE cfg - 16"
    using t bs by (simp add: eq_diff_iff) linarith
  show "is_free (hdr h) (heap_start cfg)" using fr bs by simp
qed

text \<open>
  A client of the heap: it starts from \<open>v_heap_memory_init\<close>, keeps the sizes it asked for
  by pointer, and frees only what it holds. Requests are small enough that the rounding of
  the size does not wrap.
\<close>

inductive heap_client :: "'i index_ops \<Rightarrow> heap_cfg \<Rightarrow> 'i heap \<Rightarrow> (nat \<rightharpoonup> nat) \<Rightarrow> bool"
  for ops cfg where
  client_init: "v_heap_memory_init ops cfg h0 = Inr h \<Longrightarrow> heap_client ops cfg h Map.empty"
| client_malloc: "heap_client ops cfg h L \<Longrightarrow> v_malloc ops cfg sz h = Inr (p, h') \<Longrightarrow>
    sz < 2 ^ 31 \<Longrightarrow> heap_client ops cfg h' (if p = 0 then L else L(p \<mapsto> sz))"
| client_memalign: "heap_client ops cfg h L \<Longrightarrow> v_memalign_off ops cfg align off sz h = Inr (p, h') \<Longrightarrow>
    sz + align < 2 ^ 31 \<Longrightarrow> heap_client ops cfg h' (if p = 0 then L else L(p \<mapsto> sz))"
| client_free: "heap_client ops cfg h L \<Longrightarrow> L p = Some sz \<Longrightarrow>
    heap_client ops cfg (v_free ops cfg p h) (L(p := None))"

definition holds :: "(nat \<rightharpoonup> nat) \<Rightarrow> (nat \<rightharpoonup> nat) \<Rightarrow> bool" where
  "holds L M \<longleftrightarrow> dom L = dom M \<and> (\<forall>p sz. L p = Some sz \<longrightarrow> (\<exists>n. M p = Some n \<and> sz \<le> n))"

lemma holds_upd:
  "holds L M \<Longrightarrow> sz \<le> n \<Longrightarrow> holds (L(p \<mapsto> sz)) (M(p \<mapsto> n))"
  "holds L M \<Longrightarrow> holds (L(p := None)) (M(p := None))"
  by (auto simp: holds_def)

context heap_index
begin

lemma init_inv:
  assumes sup: "supports cfg" and e: "v_heap_memory_init ops cfg h0 = Inr h"
  shows "heap_inv files cfg h [heap_start cfg]" "live h [heap_start cfg] = Map.empty"
proof -
  let ?s = "heap_start cfg"
  define h1 where "h1 = h0\<lparr>heap_mem_head := ?s, hp_mem := \<lparr>
      hm_hdr = (\<lambda>a. if ?s \<le> a \<and> a < ?s + HEAP_SIZE cfg
                  then \<lparr>hb_magic = 0, hb_size = 0, hb_status = 0, hb_prev = 0\<rparr> else hdr h0 a),
      hm_node = (\<lambda>a. if ?s \<le> a \<and> a < ?s + HEAP_SIZE cfg then \<lparr>next_free = 0, prev_free = 0\<rparr>
                  else hm_node (hp_mem h0) a)\<rparr>,
      hp_index := ix_reset ops (hp_index h0), allocation_size := 0, allocation_count := 0\<rparr>"
  define h2 where "h2 = upd_hdr ?s (\<lambda>b. b\<lparr>hb_magic := 20, hb_status := 0,
      hb_size := HEAP_SIZE cfg - 16, hb_prev := 0\<rparr>) h1"
  have h: "h = vheap_index_insert ops ?s h2"
    using e unfolding v_heap_memory_init_def h2_def h1_def Let_def
    by (auto simp: in_heap_def split: if_splits cong: if_cong)
  note sp = supportsD [OF sup]
  have f: "files (hp_mem h2) (hp_index h2) {}"
    by (simp add: h2_def h1_def upd_hdr_def files_reset)
  have H: "hb_size (hdr h2 ?s) = HEAP_SIZE cfg - 16" "hb_magic (hdr h2 ?s) = 20"
    "is_free (hdr h2) ?s" "hb_prev (hdr h2 ?s) = 0" "heap_mem_head h2 = ?s"
    "allocation_count h2 = 0" "allocation_size h2 = 0"
    by (simp_all add: h2_def h1_def)
  have cf: "can_file (hb_size (hdr h2 ?s))" using sp(4) sp(6) [of "HEAP_SIZE cfg - 16"] H(1) by simp
  note ins = insert_files [OF f _ _ cf]
  have "8 dvd HEAP_SIZE cfg - 16" using sp(3) by (intro dvd_diff_nat) auto
  then show "heap_inv files cfg h [?s]"
    using ins(1-3) ins(4) [of "{}"] sp(1,4) H
    by (simp add: heap_inv_def h block_ok_def no_free_pair_Cons same_blocks_def)
  show "live h [?s] = Map.empty"
    using ins(2) sp(1) H(3) by (intro ext) (simp add: live_def h)
qed

lemma free_result:
  assumes sup: "supports cfg" and i: "heap_inv files cfg h bs" and l: "live h bs p = Some n"
  shows "\<exists>bs'. heap_inv files cfg (v_free ops cfg p h) bs' \<and>
    live (v_free ops cfg p h) bs' = (live h bs)(p := None)"
    "is_free (hdr (v_free ops cfg p h)) (p - 16)"
proof -
  define b where "b = p - 16"
  have p: "p = b + 16" "b \<in> set bs" "\<not> is_free (hdr h) b" "n = hb_size (hdr h b)"
    using l by (auto simp: live_Some b_def)
  obtain xs ys where bs: "bs = xs @ b # ys" using p(2) by (meson split_list)
  note t = heap_invD(2) [OF i, unfolded bs]
  note m = tiles_mid [OF t] and sp = supportsD [OF sup]
  have blk: "u32_sub p 16 = b" using p(1) m(6,7) sp(5) by (simp add: u32_sub_ge)
  have st: "hb_status (hdr h b) = 1" "hb_magic (hdr h b) = 20" "in_heap cfg h b"
    using heap_invD(3) [OF i p(2)] p(3) m(5-8) heap_invD(1) [OF i]
    by (auto simp: block_ok_def in_heap_def)
  define h1 where "h1 = (upd_hdr b (\<lambda>b. b\<lparr>hb_status := 0\<rparr>) h)
      \<lparr>allocation_count := u32_sub (allocation_count h) 1,
       allocation_size := u32_sub (allocation_size h) (hb_size (hdr h b))\<rparr>"
  obtain h2 k where h2: "coalesce_forward ops cfg b h1 = (h2, k)" by fastforce
  obtain h3 b' k' where h3: "coalesce_backward ops cfg b h2 = (h3, b', k')"
    using prod_cases3 by blast
  have fr: "v_free ops cfg p h = (vheap_index_insert ops b' h3)
      \<lparr>hp_perf := v_perf_on_heap_free (k + k') (hp_perf (vheap_index_insert ops b' h3))\<rparr>"
    using h2 h3 st blk p(1) sp(1) heap_invD(1) [OF i]
    by (simp add: v_free_def h1_def Let_def)
  have H1: "hdr h1 = (hdr h)(b := (hdr h b)\<lparr>hb_status := 0\<rparr>)" by (simp add: h1_def)
  have o: "hdr h1 c = hdr h c" if "c \<in> set xs \<union> set ys" for c using that m(3,4) by (auto simp: H1)
  have ac: "aloc_count (hdr h1) xs = aloc_count (hdr h) xs" "aloc_size (hdr h1) xs = aloc_size (hdr h) xs"
    "aloc_count (hdr h1) ys = aloc_count (hdr h) ys" "aloc_size (hdr h1) ys = aloc_size (hdr h) ys"
    by (rule aloc_cong; use o in simp)+
  have bd: "aloc_count (hdr h) bs < 2 ^ 32" "aloc_size (hdr h) bs < 2 ^ 32"
    using aloc_bound [OF heap_invD(2) [OF i]] sp(5) by linarith+
  have t1: "tiles (hdr h1) 0 (heap_start cfg) (heap_start cfg + HEAP_SIZE cfg) (xs @ b # ys)"
    using t o unfolding tiles_append
    by (subst tiles_cong [of xs _ "hdr h"], simp, subst tiles_cong [of ys _ "hdr h"], simp)
      (simp add: H1 block_ok_def)
  have fs: "free_set (hdr h1) (xs @ ys) = free_set (hdr h) bs"
    using st(1) o by (auto simp: free_set_def bs)
  have "files (hp_mem h1) (hp_index h1) (free_set (hdr h) bs)"
    by (rule files_hdr [OF heap_invD(5) [OF i]]) (simp_all add: h1_def)
  then have c1: "carved files cfg h1 xs b ys"
    using t1 fs o heap_invD(1,3) [OF i] by (auto simp: carved_def bs h1_def)
  have np: "no_free_pair (hdr h1) xs" "no_free_pair (hdr h1) ys"
    using heap_invD(4) [OF i] no_free_pair_cong [of xs "hdr h1" "hdr h"] o
      no_free_pair_cong [of ys "hdr h1" "hdr h"] by (auto simp: bs no_free_pair_mid)
  have p1: "pending cfg h1 xs b ys"
    using c1 np ac heap_invD(6,7) [OF i] p(3) bd
    by (simp add: pending_def H1) (simp add: h1_def bs u32_sub_ge)
  have live1: "live h1 (xs @ ys) = (live h bs)(p := None)"
  proof
    fix q
    show "live h1 (xs @ ys) q = ((live h bs)(p := None)) q"
      using m(3,4) p(1) o [of "q - 16"] by (cases "q - 16 = b") (auto simp: live_def bs)
  qed
  obtain ys' where y: "pending cfg h2 xs b ys'" "ys' \<noteq> [] \<longrightarrow> \<not> is_free (hdr h2) (hd ys')"
    "live h2 (xs @ ys') = live h1 (xs @ ys)"
    using forward_pending [OF sup p1 h2] by blast
  obtain xs' where x: "pending cfg h3 xs' b' ys'" "xs' \<noteq> [] \<longrightarrow> \<not> is_free (hdr h3) (last xs')"
    "ys' \<noteq> [] \<longrightarrow> \<not> is_free (hdr h3) (hd ys')" "live h3 (xs' @ ys') = live h2 (xs @ ys')"
    "is_free (hdr h3) b"
    using backward_pending [OF sup y(1) h3] y(2) by blast
  note r = file_pending [OF sup x(1)]
  have "live (v_free ops cfg p h) bs' = live (vheap_index_insert ops b' h3) bs'" for bs'
    by (rule ext) (simp add: fr live_def)
  then show "\<exists>bs'. heap_inv files cfg (v_free ops cfg p h) bs' \<and>
      live (v_free ops cfg p h) bs' = (live h bs)(p := None)"
    using r x(2-4) y(3) live1 inv_oom [of cfg "vheap_index_insert ops b' h3"] unfolding fr by metis
  show "is_free (hdr (v_free ops cfg p h)) (p - 16)"
    using r(3) x(2,3,5) unfolding fr b_def [symmetric] by simp
qed


lemma alloc_result_holds:
  assumes "alloc_result files cfg h bs need p h'" "holds L (live h bs)" "p \<noteq> 0 \<Longrightarrow> sz \<le> need"
  shows "\<exists>bs'. heap_inv files cfg h' bs' \<and> holds (if p = 0 then L else L(p \<mapsto> sz)) (live h' bs')"
proof (cases "p = 0")
  case True
  then have i: "heap_inv files cfg h' bs" and m: "hp_mem h' = hp_mem h"
    using assms(1) by (simp_all add: alloc_result_def)
  have "live h' bs = live h bs" by (rule ext) (simp add: live_def m)
  then show ?thesis using i assms(2) True by auto
next
  case False
  then obtain bs' n where "heap_inv files cfg h' bs'" "need \<le> n" "live h' bs' = (live h bs)(p \<mapsto> n)"
    using assms(1) by (auto simp: alloc_result_def alloc_spec_def)
  then show ?thesis
    using holds_upd(1) [OF assms(2), of sz n p] assms(3) False le_trans by auto
qed

lemma heap_need_less: "sz < 2 ^ 31 \<Longrightarrow> heap_need sz < sz + 16"
proof (cases "sz = 0")
  case True
  then show ?thesis by (simp add: heap_need_def and_not_u32_7 u32_def)
next
  case False
  assume "sz < 2 ^ 31"
  then show ?thesis using False heap_need_props(5) [of sz] by simp
qed

lemma client_inv:
  assumes sup: "supports cfg" and cf: "\<And>n. n < 2 ^ 31 + 64 \<Longrightarrow> 8 dvd n \<Longrightarrow> answers n"
    and c: "heap_client ops cfg h L"
  shows "\<exists>bs. heap_inv files cfg h bs \<and> holds L (live h bs)"
  using c
proof (induction rule: heap_client.induct)
  case (client_init h0 h)
  then show ?case using init_inv [OF sup client_init] by (metis holds_def dom_empty option.distinct(1))
next
  case (client_malloc h L sz p h')
  then obtain bs where bs: "heap_inv files cfg h bs" "holds L (live h bs)" by blast
  have "answers (heap_need sz)"
    using cf [OF _ heap_need_props(2)] heap_need_less [of sz] client_malloc.hyps(3) by simp
  from malloc_result [OF sup bs(1) this client_malloc.hyps(2)]
  have r: "alloc_result files cfg h bs (heap_need sz) p h'" .
  have "sz \<noteq> 0" if "p \<noteq> 0" using that client_malloc.hyps(2) by (auto simp: v_malloc_def split: if_splits)
  then show ?case
    using alloc_result_holds [OF r bs(2)] heap_need_props(4) [of sz] client_malloc.hyps(3) by auto
next
  case (client_memalign h L align off sz p h')
  then obtain bs where bs: "heap_inv files cfg h bs" "holds L (live h bs)" by blast
  have n: "p \<noteq> 0 \<Longrightarrow> sz \<noteq> 0"
    using client_memalign.hyps(2) by (auto simp: v_memalign_off_def split: if_splits)
  have "alloc_result files cfg h bs (heap_need sz) p h'"
  proof (cases "sz = 0 \<or> align \<le> 8 \<or> align AND (align - 1) \<noteq> 0 \<or> off \<ge> align \<or> off AND 7 \<noteq> 0")
    case True
    have "answers (heap_need sz)"
      using cf [OF _ heap_need_props(2)] heap_need_less [of sz] client_memalign.hyps(3) by simp
    from memalign_degenerate [OF sup bs(1) this True client_memalign.hyps(2)] show ?thesis .
  next
    case False
    then have k: "8 dvd align" using pow2_align [of align] by auto
    have w: "heap_need sz + align + 24 < 2 ^ 32"
      using heap_need_props(5) [of sz] client_memalign.hyps(3) False by auto
    have "answers (heap_need sz + align + 24)"
      using cf heap_need_props(2) [of sz] heap_need_less [of sz] client_memalign.hyps(3) k by (auto intro!: dvd_add)
    moreover obtain r h1 where fd: "vheap_index_find ops (heap_need sz + align + 24) h = (r, h1)" by fastforce
    moreover have "r \<noteq> Undef"
    proof
      assume "r = Undef"
      moreover have "heap_mem_head h \<noteq> 0" using heap_invD(1) [OF bs(1)] supportsD(1) [OF sup] by simp
      ultimately have "v_memalign_off ops cfg align off sz h = Inl Heap_Undefined"
        using False w fd by (auto simp: v_memalign_off_def Let_def add.assoc)
      then show False using client_memalign.hyps(2) by simp
    qed
    ultimately have "can_find (heap_need sz + align + 24)" by (rule answers_can_find)
    then show ?thesis
      using memalign_result [OF sup bs(1) _ _ _ _ _ _ w, of off] client_memalign.hyps(2) False by auto
  qed
  then show ?case
    using alloc_result_holds [OF _ bs(2)] heap_need_props(4) [of sz] client_memalign.hyps(3) n by auto
next
  case (client_free h L p sz)
  then obtain bs where bs: "heap_inv files cfg h bs" "holds L (live h bs)" by blast
  then obtain n where "live h bs p = Some n"
    using client_free.hyps(2) unfolding holds_def by blast
  from free_result(1) [OF sup bs(1) this] show ?case using holds_upd(2) [OF bs(2)] by metis
qed

end

end
