(* ===== verification/Heap_Properties.thy ===== *)
theory Heap_Properties
  imports Kernel_Heap
begin

text \<open>
  The properties of the kernel heap on its default configuration: the facade of
  \<open>memory.c\<close> over the segregated-fit index of \<open>seglist.c\<close>, for every arena the linker may
  give (\<open>heap_cfg_ok\<close>). They instantiate the lemmas of the context \<open>heap_index\<close> through the
  interpretation \<open>seg\<close>.
\<close>

section \<open>A sample heap\<close>

text \<open>
  The concrete heap of the witnesses: a 4 KB arena at the bottom of SRAM, initialised from
  power-up state.
\<close>

definition sample_cfg :: heap_cfg where
  "sample_cfg = \<lparr>heap_start = 0x20000000, HEAP_SIZE = 4096, HEAP_WATERMARK_ENABLE = True,
     HEAP_WATERMARK_THRESHOLD = 1024, ptr_is_ram = (\<lambda>p. 0x20000000 \<le> p \<and> p < 0x20020000)\<rparr>"

definition boot_heap :: "seglist heap" where
  "boot_heap = \<lparr>heap_mem_head = 0,
     hp_mem = \<lparr>hm_hdr = (\<lambda>_. \<lparr>hb_magic = 0, hb_size = 0, hb_status = 0, hb_prev = 0\<rparr>),
               hm_node = (\<lambda>_. \<lparr>next_free = 0, prev_free = 0\<rparr>)\<rparr>,
     hp_index = \<lparr>free_lists = (\<lambda>_. 0), sl_probes = 0\<rparr>,
     allocation_size = 0, allocation_count = 0,
     hp_perf = \<lparr>ph_allocs = 0, ph_frees = 0, ph_oom = 0, ph_splits = 0, ph_coalesces = 0,
       ph_peak = 0, ph_per_class = (\<lambda>_. 0)\<rparr>\<rparr>"

definition sample_heap :: "seglist heap" where
  "sample_heap = (case v_heap_memory_init seg_ops sample_cfg boot_heap of Inr h \<Rightarrow> h | _ \<Rightarrow> boot_heap)"

lemma sample_cfg_ok: "heap_cfg_ok sample_cfg"
  by (simp add: heap_cfg_ok_def sample_cfg_def)

lemma sample_heap_init: "v_heap_memory_init seg_ops sample_cfg boot_heap = Inr sample_heap"
  by (simp add: v_heap_memory_init_def sample_heap_def sample_cfg_def Let_def)

lemma sample_malloc: "\<exists>h. v_malloc seg_ops sample_cfg 100 sample_heap = Inr (0x20000010, h)"
proof -
  have hd: "heap_mem_head sample_heap \<noteq> 0" "hb_size (hdr sample_heap 0x20000000) = 4080"
    "free_lists (hp_index sample_heap) 4 = 0" "free_lists (hp_index sample_heap) 5 = 0"
    "free_lists (hp_index sample_heap) 6 = 0" "free_lists (hp_index sample_heap) 7 = 0x20000000"
    by (simp_all add: sample_heap_def sample_cfg_def boot_heap_def v_heap_memory_init_def Let_def
        vheap_index_insert_def seg_ops_def seg_index_insert_def seg_index_reset_def upd_hdr_def
        in_heap_def u32_def size_class_def)
  have n: "heap_need 100 = 104" by (simp add: heap_need_def and_not_u32_7 u32_def)
  have "\<exists>h. vheap_index_find seg_ops 104 sample_heap = (Found 0x20000000, h)"
    using hd by (simp add: vheap_index_find_def seg_ops_def seg_index_find_def size_class_def
        seg_first_fit.simps Let_def upt_rec)
  then show ?thesis using hd(1) by (auto simp: v_malloc_def n Let_def split: prod.splits)
qed

section \<open>Lemmas\<close>

lemma seg_supports: "heap_cfg_ok cfg \<Longrightarrow> seg.supports cfg"
  by (simp add: seg.supports_def)

lemma seg_answers: "seg.answers n"
  by (simp add: seg.answers_def)

lemma sample_heap_inv: "heap_inv seg_files sample_cfg sample_heap [0x20000000]"
    "live sample_heap [0x20000000] = Map.empty"
  using seg.init_inv [OF seg_supports [OF sample_cfg_ok] sample_heap_init]
  by (simp_all add: sample_cfg_def)

lemma sample_live:
  "\<exists>h bs n. heap_inv seg_files sample_cfg h bs \<and> live h bs 0x20000010 = Some n"
proof -
  obtain h where h: "v_malloc seg_ops sample_cfg 100 sample_heap = Inr (0x20000010, h)"
    using sample_malloc by blast
  have "alloc_result seg_files sample_cfg sample_heap [0x20000000] (heap_need 100) 0x20000010 h"
    using seg.malloc_result [OF seg_supports [OF sample_cfg_ok] sample_heap_inv(1) seg_answers h] .
  then obtain bs n where "heap_inv seg_files sample_cfg h bs"
      "live h bs = (live sample_heap [0x20000000])(0x20000010 \<mapsto> n)"
    by (auto simp: alloc_result_def alloc_spec_def)
  then have "heap_inv seg_files sample_cfg h bs \<and> live h bs 0x20000010 = Some n" by simp
  then show ?thesis by blast
qed

lemma card_live:
  assumes "heap_inv files cfg h bs"
  shows "card (dom (live h bs)) = allocation_count h"
proof -
  let ?A = "{b \<in> set bs. \<not> is_free (hdr h) b}"
  have "dom (live h bs) = (\<lambda>b. b + 16) ` ?A"
  proof (rule set_eqI)
    fix p
    show "p \<in> dom (live h bs) \<longleftrightarrow> p \<in> (\<lambda>b. b + 16) ` ?A"
      by (auto simp: dom_def live_def image_iff split: if_splits intro!: bexI [of _ "p - 16"])
  qed
  moreover have "card ?A = aloc_count (hdr h) bs"
    using tiles_distinct [OF heap_invD(2) [OF assms]]
    by (simp add: aloc_count_def distinct_length_filter Int_def conj_commute)
  ultimately show ?thesis
    using heap_invD(6) [OF assms] by (simp add: card_image)
qed

text \<open>What the invariant says about the blocks a client holds, whichever backend files the free ones.\<close>

lemma held_blocks_apart:
  assumes i: "heap_inv files cfg h bs" and c: "heap_cfg_ok cfg" and l: "holds L (live h bs)"
  shows "(\<forall>p sz. L p = Some sz \<longrightarrow> heap_start cfg < p \<and> p + sz \<le> heap_start cfg + HEAP_SIZE cfg \<and> 8 dvd p) \<and>
    (\<forall>p sz q m. L p = Some sz \<and> L q = Some m \<and> p \<noteq> q \<longrightarrow> p + sz \<le> q \<or> q + m \<le> p) \<and>
    allocation_count h = card (dom L)"
proof -
  have ex: "\<exists>n. live h bs p = Some n \<and> sz \<le> n" if "L p = Some sz" for p sz
    using l that unfolding holds_def by blast
  have "heap_start cfg < p \<and> p + sz \<le> heap_start cfg + HEAP_SIZE cfg \<and> 8 dvd p"
    if a: "L p = Some sz" for p sz
    using live_in_arena [OF i c] ex [OF a] by fastforce
  moreover have "p + sz \<le> q \<or> q + m \<le> p" if a: "L p = Some sz" "L q = Some m" "p \<noteq> q" for p sz q m
    using live_disjoint [OF i _ _ a(3)] ex [OF a(1)] ex [OF a(2)] by fastforce
  moreover have "allocation_count h = card (dom L)"
    using card_live [OF i] l by (simp add: holds_def)
  ultimately show ?thesis by blast
qed

section \<open>Properties\<close>

text \<open>
  Claim C1. Whatever sequence of \<open>v_malloc\<close>, \<open>v_memalign_off\<close> and \<open>v_free\<close> calls a
  well-behaved client makes after \<open>v_heap_memory_init\<close>, every allocation it holds lies
  inside the arena, is 8-byte aligned and overlaps no other one, and
  \<open>allocation_count\<close> is exactly the number of allocations held.
\<close>

theorem heap_client_isolation:
  assumes "heap_cfg_ok cfg" "heap_client seg_ops cfg h L"
  shows "(\<forall>p sz. L p = Some sz \<longrightarrow> heap_start cfg < p \<and>
            p + sz \<le> heap_start cfg + HEAP_SIZE cfg \<and> 8 dvd p) \<and>
         (\<forall>p sz q m. L p = Some sz \<and> L q = Some m \<and> p \<noteq> q \<longrightarrow> p + sz \<le> q \<or> q + m \<le> p) \<and>
         allocation_count h = card (dom L)"
  using seg.client_inv [OF seg_supports [OF assms(1)] seg_answers assms(2)] held_blocks_apart [OF _ assms(1)]
  by blast

theorem heap_client_isolation_witness:
  "\<exists>h. heap_client seg_ops sample_cfg h [0x20000010 \<mapsto> 100] \<and> allocation_count h = 1"
proof -
  obtain h where h: "v_malloc seg_ops sample_cfg 100 sample_heap = Inr (0x20000010, h)"
    using sample_malloc by blast
  have c: "heap_client seg_ops sample_cfg h [0x20000010 \<mapsto> 100]"
    using client_malloc [OF client_init [OF sample_heap_init] h] by simp
  then show ?thesis using heap_client_isolation [OF sample_cfg_ok c] by auto
qed

text \<open>
  Claim C2. When the client has freed everything, the heap is again one free block that
  spans the arena: coalescing leaves no fragmentation behind.
\<close>

theorem heap_client_drained:
  assumes "heap_cfg_ok cfg" "heap_client seg_ops cfg h Map.empty"
  shows "heap_inv seg_files cfg h [heap_start cfg] \<and>
    hb_size (hdr h (heap_start cfg)) = HEAP_SIZE cfg - 16 \<and>
    allocation_count h = 0 \<and> allocation_size h = 0"
proof -
  obtain bs where bs: "heap_inv seg_files cfg h bs" "holds Map.empty (live h bs)"
    using seg.client_inv [OF seg_supports [OF assms(1)] seg_answers assms(2)] by auto
  then have "live h bs = Map.empty" by (auto simp: holds_def)
  note s = all_free_single [OF bs(1) assms(1) this]
  show ?thesis using bs(1) s heap_invD(6,7) [OF bs(1)] by simp
qed

theorem heap_client_drained_witness:
  "\<exists>h. heap_client seg_ops sample_cfg h Map.empty \<and> allocation_size h = 0 \<and>
     heap_inv seg_files sample_cfg h [0x20000000]"
proof -
  obtain h where h: "v_malloc seg_ops sample_cfg 100 sample_heap = Inr (0x20000010, h)"
    using sample_malloc by blast
  have c: "heap_client seg_ops sample_cfg h [0x20000010 \<mapsto> 100]"
    using client_malloc [OF client_init [OF sample_heap_init] h] by simp
  have "heap_client seg_ops sample_cfg (v_free seg_ops sample_cfg 0x20000010 h)
      ([0x20000010 \<mapsto> 100](0x20000010 := None))"
    by (rule client_free [OF c]) simp
  then have "heap_client seg_ops sample_cfg (v_free seg_ops sample_cfg 0x20000010 h) Map.empty"
    by simp
  then show ?thesis
    using heap_client_drained [OF sample_cfg_ok, of "v_free seg_ops sample_cfg 0x20000010 h"]
    by (auto simp: sample_cfg_def)
qed

text \<open>
  Claim C3. \<open>v_malloc\<close> on a good heap either returns NULL and leaves every block as it was, or
  returns an 8-byte aligned payload of at least the rounded request, inside the arena and
  disjoint from every live block, and the heap it leaves is good again; the live blocks are
  the old ones and the new one.
\<close>

theorem v_malloc_refines:
  assumes "heap_cfg_ok cfg" "heap_inv seg_files cfg h bs" "v_malloc seg_ops cfg sz h = Inr (p, h')"
  shows "alloc_result seg_files cfg h bs (heap_need sz) p h'"
  using seg.malloc_result [OF seg_supports [OF assms(1)] assms(2) seg_answers assms(3)] .

theorem v_malloc_refines_witness:
  "\<exists>h'. alloc_result seg_files sample_cfg sample_heap [0x20000000] 104 0x20000010 h'"
proof -
  obtain h where h: "v_malloc seg_ops sample_cfg 100 sample_heap = Inr (0x20000010, h)"
    using sample_malloc by blast
  have "heap_need 100 = 104" by (simp add: heap_need_def and_not_u32_7 u32_def)
  then show ?thesis
    using v_malloc_refines [OF sample_cfg_ok sample_heap_inv(1) h] by auto
qed

text \<open>
  Claim C4. \<open>v_memalign_off\<close> with a power-of-two alignment above 8 and an 8-aligned offset
  below it, when the padded request does not wrap: the same contract as \<open>v_malloc\<close>, and the
  payload it returns is exactly \<open>offset\<close> past a multiple of \<open>align\<close>. The alignment loop ends.
\<close>

theorem v_memalign_off_refines:
  assumes "heap_cfg_ok cfg" "heap_inv seg_files cfg h bs"
    and "0 < sz" "align AND (align - 1) = 0" "off < align" "off AND 7 = 0" "8 < align"
    and "heap_need sz + align + 24 < 2 ^ 32"
  shows "\<exists>p h'. v_memalign_off seg_ops cfg align off sz h = Inr (p, h') \<and>
    alloc_result seg_files cfg h bs (heap_need sz) p h' \<and> (p \<noteq> 0 \<longrightarrow> p mod align = off)"
  using seg.memalign_result [OF seg_supports [OF assms(1)] assms(2-7) _ assms(8)] by simp

theorem v_memalign_off_refines_witness:
  "\<exists>p h'. v_memalign_off seg_ops sample_cfg 256 32 100 sample_heap = Inr (p, h') \<and>
     (p \<noteq> 0 \<longrightarrow> p mod 256 = 32)"
proof -
  have "heap_need 100 = 104" by (simp add: heap_need_def and_not_u32_7 u32_def)
  then show ?thesis
    using v_memalign_off_refines [OF sample_cfg_ok sample_heap_inv(1), of 100 256 32] by auto
qed

text \<open>
  Claim C5. \<open>v_free\<close> of a live block removes exactly that block from the live ones and leaves a
  good heap: coalescing with either neighbour touches no other allocation.
\<close>

theorem v_free_refines:
  assumes "heap_cfg_ok cfg" "heap_inv seg_files cfg h bs" "live h bs p = Some n"
  shows "\<exists>bs'. heap_inv seg_files cfg (v_free seg_ops cfg p h) bs' \<and>
    live (v_free seg_ops cfg p h) bs' = (live h bs)(p := None)"
  by (rule seg.free_result(1) [OF seg_supports [OF assms(1)] assms(2,3)])

theorem v_free_refines_witness:
  "\<exists>h bs. live h bs 0x20000010 \<noteq> None \<and>
     (\<exists>bs'. heap_inv seg_files sample_cfg (v_free seg_ops sample_cfg 0x20000010 h) bs' \<and>
        live (v_free seg_ops sample_cfg 0x20000010 h) bs' = (live h bs)(0x20000010 := None))"
proof -
  obtain h bs n where "heap_inv seg_files sample_cfg h bs" "live h bs 0x20000010 = Some n"
    using sample_live by blast
  then show ?thesis using v_free_refines [OF sample_cfg_ok] by blast
qed

text \<open>
  Claim C6. \<open>v_malloc\<close> never goes wrong in the index, and it refuses a non-zero request exactly
  when every free block is smaller than the rounded request: with a panic when the usage is
  above the watermark, with NULL otherwise.
\<close>

theorem v_malloc_refuses_iff:
  assumes "heap_cfg_ok cfg" "heap_inv seg_files cfg h bs" "0 < sz"
  defines "full \<equiv> \<forall>b \<in> set bs. is_free (hdr h) b \<longrightarrow> hb_size (hdr h b) < heap_need sz"
    and "over_mark \<equiv> HEAP_WATERMARK_ENABLE cfg \<and>
      v_get_heap_allocation_size h > u32_sub (HEAP_SIZE cfg) (HEAP_WATERMARK_THRESHOLD cfg)"
  shows "v_malloc seg_ops cfg sz h \<noteq> Inl Heap_Undefined \<and>
    (v_malloc seg_ops cfg sz h = Inl Heap_Panic \<longleftrightarrow> full \<and> over_mark) \<and>
    ((\<exists>h'. v_malloc seg_ops cfg sz h = Inr (0, h')) \<longleftrightarrow> full \<and> \<not> over_mark)"
proof -
  have hd: "heap_mem_head h \<noteq> 0"
    using heap_invD(1) [OF assms(2)] assms(1) by (simp add: heap_cfg_ok_def)
  obtain r h1 where fd: "vheap_index_find seg_ops (heap_need sz) h = (r, h1)" by fastforce
  note f = seg.find_inv [OF assms(2) _ fd]
  have e: "(r = NotFound) = full"
  proof
    assume r: "r = NotFound"
    obtain i' where "ix_find seg_ops (heap_need sz) (hp_mem h, hp_index h) = (NotFound, i')"
      using fd r by (auto simp: vheap_index_find_def split: prod.splits)
    then show full
      using seg.find_exhaustive [OF heap_invD(5) [OF assms(2)]]
      by (auto simp: full_def free_set_def)
  next
    assume full
    then show "r = NotFound" using f(3,4) by (cases r) (auto simp: full_def)
  qed
  have u: "v_get_heap_allocation_size h1 = v_get_heap_allocation_size h"
    using fd by (auto simp: v_get_heap_allocation_size_def vheap_index_find_def split: prod.splits)
  show ?thesis
    using hd assms(3) fd f(3) u e
    by (cases r) (auto simp: v_malloc_def over_mark_def Let_def split: prod.splits)
qed

theorem v_malloc_refuses_iff_witness:
  "\<exists>h'. v_malloc seg_ops sample_cfg 5000 sample_heap = Inr (0, h')"
proof -
  have n: "heap_need 5000 = 5000" by (simp add: heap_need_def and_not_u32_7 u32_def)
  have "hb_size (hdr sample_heap 0x20000000) = 4080"
    using tiles_bounds [OF heap_invD(2) [OF sample_heap_inv(1)]] heap_invD(2) [OF sample_heap_inv(1)]
    by (simp add: sample_cfg_def)
  moreover have "v_get_heap_allocation_size sample_heap = 0"
    using heap_invD(6,7) [OF sample_heap_inv(1)] all_free_single(3) [OF sample_heap_inv(1) sample_cfg_ok
        sample_heap_inv(2)] by (simp add: v_get_heap_allocation_size_def sample_cfg_def u32_def)
  ultimately show ?thesis
    using v_malloc_refuses_iff [OF sample_cfg_ok sample_heap_inv(1), of 5000] n by simp
qed

text \<open>
  A second \<open>v_free\<close> of the same pointer, with no allocation in between, is caught:
  it changes nothing, even when the block was coalesced away by the first one.
\<close>

theorem v_free_twice:
  assumes "heap_cfg_ok cfg" "heap_inv seg_files cfg h bs" "live h bs p = Some n"
  shows "v_free seg_ops cfg p (v_free seg_ops cfg p h) = v_free seg_ops cfg p h"
proof -
  have "p + n < 2 ^ 32" "16 \<le> p"
    using live_in_arena [OF assms(2,1,3)] assms(1,3) by (auto simp: heap_cfg_ok_def live_Some)
  then have "u32_sub p 16 = p - 16" by simp
  then show ?thesis
    using seg.free_result(2) [OF seg_supports [OF assms(1)] assms(2,3)]
    by (simp add: v_free_def [of seg_ops cfg p "v_free seg_ops cfg p h"] Let_def)
qed

theorem v_free_twice_witness:
  "\<exists>h bs. live h bs 0x20000010 \<noteq> None \<and>
     v_free seg_ops sample_cfg 0x20000010 (v_free seg_ops sample_cfg 0x20000010 h) =
       v_free seg_ops sample_cfg 0x20000010 h"
proof -
  obtain h bs n where "heap_inv seg_files sample_cfg h bs" "live h bs 0x20000010 = Some n"
    using sample_live by blast
  then show ?thesis using v_free_twice [OF sample_cfg_ok] by blast
qed

text \<open>
  The rounding of the request wraps: a request of more than \<open>2 ^ 32 - 8\<close> bytes is
  served exactly as a request of one byte, so on a fresh heap it returns a valid pointer to a
  block of eight bytes instead of NULL.
\<close>

theorem v_malloc_huge_wraps:
  assumes "2 ^ 32 - 8 < sz" "sz < 2 ^ 32"
  shows "heap_need sz = 8 \<and> v_malloc seg_ops cfg sz h = v_malloc seg_ops cfg 1 h"
proof -
  define k where "k = sz - (2 ^ 32 - 8)"
  then have k: "sz = 2 ^ 32 - 8 + k" "0 < k" "k < 8" using assms by simp_all
  then obtain j where "k = Suc j" by (cases k) auto
  then have "u32 (sz + 7) = k - 1" using k by (simp add: u32_def)
  then have "heap_need sz = 8" using k by (simp add: heap_need_def and_not_u32_7)
  moreover have "heap_need 1 = 8" by (simp add: heap_need_def and_not_u32_7 u32_def)
  ultimately show ?thesis using assms by (simp add: v_malloc_def)
qed

theorem v_malloc_huge_wraps_witness:
  "heap_need 0xFFFFFFFF = 8 \<and>
   v_malloc seg_ops sample_cfg 0xFFFFFFFF sample_heap = v_malloc seg_ops sample_cfg 1 sample_heap"
  using v_malloc_huge_wraps [of "0xFFFFFFFF" sample_cfg sample_heap] by simp

end
