(* ===== verification/Tlsf_Properties.thy ===== *)
theory Tlsf_Properties
  imports Heap_Properties
begin

text \<open>
  Properties of the kernel heap with the TLSF index: the facade keeps the client's blocks apart as
  it does over segregated lists, the search is a good fit in constant time, and requests beyond the
  table of octaves.
\<close>

section \<open>Lemmas\<close>

lemma tlsf_supports: "heap_cfg_ok cfg \<Longrightarrow> HEAP_SIZE cfg < 2 ^ 20 \<Longrightarrow> tlsf.supports cfg"
  by (auto simp: tlsf.supports_def tlsf_can_file_def)

text \<open>A request of a megabyte or more is searched beyond the last octave.\<close>

lemma tlsf_search_large:
  assumes "8 dvd n" "n + 2 ^ 28 < 2 ^ 32" "2 ^ 20 \<le> n"
  shows "14 \<le> fst (mapping_search n)"
proof (rule ccontr)
  obtain f s where fs: "mapping_search n = (f, s)" by fastforce
  note b = mapping_search_bounds [OF fs assms(1,2)]
  assume "\<not> 14 \<le> fst (mapping_search n)"
  then have "f < 13 \<or> f = 13 \<and> s \<le> 15" using fs b(2) by auto
  then have "slot_min (f, s) \<le> slot_min (13, 15)" using b(2) by (intro slot_min_mono) auto
  then show False using b(1) assms(3) by simp
qed

lemma tlsf_find_undef: "14 \<le> fst (mapping_search n) \<Longrightarrow> tlsf_index_find n (m, i) = (Undef, i)"
  by (auto simp: tlsf_index_find_def split: prod.splits)

lemma tlsf_answers:
  assumes "n < 2 ^ 31 + 64" "8 dvd n"
  shows "tlsf.answers n"
proof -
  have "ix_find tlsf_ops n x = (Undef, snd x)" if "\<not> fst (mapping_search n) < 14" for x
    using tlsf_find_undef [of n "fst x" "snd x"] that by (simp add: tlsf_ops_def)
  then show ?thesis using assms by (auto simp: tlsf.answers_def tlsf_can_find_def)
qed

section \<open>Properties\<close>

text \<open>
  Claim C29. With the TLSF index as well, on a heap of less than a megabyte (the reach of its table of
  octaves), whatever a well-behaved client does, every allocation it holds lies
  inside the arena, is 8-byte aligned and overlaps no other one, and the count is exact.
\<close>

theorem tlsf_client_isolation:
  assumes "heap_cfg_ok cfg" "HEAP_SIZE cfg < 2 ^ 20" "heap_client tlsf_ops cfg h L"
  shows "(\<forall>p sz. L p = Some sz \<longrightarrow> heap_start cfg < p \<and>
            p + sz \<le> heap_start cfg + HEAP_SIZE cfg \<and> 8 dvd p) \<and>
         (\<forall>p sz q m. L p = Some sz \<and> L q = Some m \<and> p \<noteq> q \<longrightarrow> p + sz \<le> q \<or> q + m \<le> p) \<and>
         allocation_count h = card (dom L)"
  using tlsf.client_inv [OF tlsf_supports [OF assms(1,2)] tlsf_answers assms(3)] held_blocks_apart [OF _ assms(1)]
  by blast

definition tlsf_boot :: "tlsf heap" where
  "tlsf_boot = \<lparr>heap_mem_head = 0, hp_mem = hp_mem boot_heap,
     hp_index = \<lparr>tl_blocks = (\<lambda>_. 0), fl_bitmap = 0, sl_bitmap = (\<lambda>_. 0), tl_probes = 0\<rparr>,
     allocation_size = 0, allocation_count = 0, hp_perf = hp_perf boot_heap\<rparr>"

theorem tlsf_client_isolation_witness:
  "\<exists>h. heap_client tlsf_ops sample_cfg h Map.empty \<and> allocation_count h = 0"
proof -
  obtain h where "v_heap_memory_init tlsf_ops sample_cfg tlsf_boot = Inr h"
    by (auto simp: v_heap_memory_init_def sample_cfg_def Let_def)
  from client_init [OF this] have c: "heap_client tlsf_ops sample_cfg h Map.empty" .
  then show ?thesis using tlsf_client_isolation [OF sample_cfg_ok _ c] by (auto simp: sample_cfg_def)
qed

text \<open>
  Claim C30. The search ends after one or two probes. A block it returns is filed and fits; when it
  returns none, every filed block is smaller than the request and a sixteenth of it.
\<close>

theorem tlsf_find_good_fit:
  assumes "tlsf_files m i S" "tlsf_can_find n" "tlsf_index_find n (m, i) = (r, i')"
  shows "tlsf_files m i' S \<and> tl_probes i' \<in> {1, 2} \<and>
    (case r of
       Undef \<Rightarrow> False
     | Found b \<Rightarrow> b \<in> S \<and> n \<le> hb_size (hm_hdr m b)
     | NotFound \<Rightarrow> \<forall>b \<in> S. hb_size (hm_hdr m b) < n + n div 16)"
  using tlsf_files_find [OF assms] by (auto split: find_result.splits)

theorem tlsf_find_good_fit_witness:
  "tlsf_index_find 200 (hp_mem boot_heap, tlsf_index_reset (hp_index tlsf_boot)) =
     (NotFound, (tlsf_index_reset (hp_index tlsf_boot))\<lparr>tl_probes := 1\<rparr>) \<and>
   tlsf_files (hp_mem boot_heap) ((tlsf_index_reset (hp_index tlsf_boot))\<lparr>tl_probes := 1\<rparr>) {}"
proof -
  let ?i = "tlsf_index_reset (hp_index tlsf_boot)"
  have "bit_fls 200 = 7" "bit_fls 207 = 7" by (rule bit_fls_unique; simp)+
  then have s: "mapping_search 200 = (1, 9)"
    by (simp add: mapping_search_def mapping_insert_def tlsf_fls_def drop_bit_eq_div)
  then have c: "tlsf_can_find 200" by (simp add: tlsf_can_find_def)
  have f: "tlsf_index_find 200 (hp_mem boot_heap, ?i) = (NotFound, ?i\<lparr>tl_probes := 1\<rparr>)"
    by (simp add: tlsf_index_find_def s tlsf_index_reset_def tlsf_boot_def)
  then show ?thesis using tlsf_find_good_fit [OF tlsf_files_reset c f] by simp
qed

text \<open>
  Claim C31. With the TLSF index a request of a megabyte or more, up to 3.75 GB, is not refused: the search
  indexes the bitmaps of the octaves beyond their end, and the result of \<open>v_malloc\<close> is undefined.
\<close>

theorem tlsf_malloc_out_of_table:
  assumes "heap_mem_head h \<noteq> 0" "2 ^ 20 \<le> sz" "sz + 8 + 2 ^ 28 < 2 ^ 32"
  shows "v_malloc tlsf_ops cfg sz h = Inl Heap_Undefined"
proof -
  have "heap_need sz + 2 ^ 28 < 2 ^ 32" "2 ^ 20 \<le> heap_need sz"
    using heap_need_props(4,5) [of sz] assms(2,3) by auto
  then have "14 \<le> fst (mapping_search (heap_need sz))"
    using tlsf_search_large heap_need_props(2) by blast
  then show ?thesis
    using assms(1,2) tlsf_find_undef by (simp add: v_malloc_def vheap_index_find_def tlsf_ops_def)
qed

theorem tlsf_malloc_out_of_table_witness:
  "v_malloc tlsf_ops sample_cfg 0x200000 (tlsf_boot\<lparr>heap_mem_head := 0x20000000\<rparr>) = Inl Heap_Undefined"
  using tlsf_malloc_out_of_table [of "tlsf_boot\<lparr>heap_mem_head := 0x20000000\<rparr>" "0x200000" sample_cfg] by simp

end
