(* ===== verification/Kernel_State.thy ===== *)
theory Kernel_State
  imports Vaios_Prelude
begin

text \<open>
  The state of the kernel that the scheduler (\<open>kernel/task.c\<close>) and the synchronisation
  primitives (\<open>kernel/ipc.c\<close>) share: task control blocks, semaphores and mutexes in stores
  indexed by their addresses, and the scheduler's globals. NULL is 0.

  The build modelled has \<open>VAIOS_SYSCALL_SVC\<close>, \<open>VAIOS_IPC_FD\<close> and \<open>VAIOS_MODULE_PERF\<close> on
  and the MPU options off. Every operation is the privileged body that runs in handler mode:
  the trap at the top of a task-facing call, which re-enters the same function in handler
  mode, is not repeated here. \<open>ENTER_CRITICAL\<close>/\<open>EXIT_CRITICAL\<close> make each body atomic.

  \<open>kres\<close> is the result of a kernel call: \<open>Inl K_Panic\<close> where the code calls \<open>v_panic\<close>,
  \<open>Inl K_Loop\<close> where a list walk would not end, \<open>Inl K_Undef\<close> where the behaviour of the C code is
  undefined, \<open>Inr\<close> otherwise.
\<close>

section \<open>Results\<close>

datatype kfault = K_Panic | K_Loop | K_Undef

type_synonym 'a kres = "kfault + 'a"

definition kbind :: "'a kres \<Rightarrow> ('a \<Rightarrow> 'b kres) \<Rightarrow> 'b kres" where
  "kbind m f = (case m of Inl e \<Rightarrow> Inl e | Inr a \<Rightarrow> f a)"

definition walk_end :: "'a option \<Rightarrow> 'a kres" where
  "walk_end m = (case m of None \<Rightarrow> Inl K_Loop | Some a \<Rightarrow> Inr a)"

lemma kbind_simps [simp]: "kbind (Inr a) f = f a" "kbind (Inl e) f = Inl e"
  by (simp_all add: kbind_def)

lemma kbind_Inr: "kbind m f = Inr b \<longleftrightarrow> (\<exists>a. m = Inr a \<and> f a = Inr b)"
  by (auto simp: kbind_def split: sum.splits)

lemma walk_end_simps [simp]: "walk_end (Some a) = Inr a" "walk_end None = Inl K_Loop"
  by (simp_all add: walk_end_def)

section \<open>Data\<close>

datatype task_status =
  TASK_READY | TASK_RUNNING | TASK_BLOCKED | TASK_DELAYED | TASK_TERMINATED

text \<open>
  An observer node lives in a TCB's \<open>wnodes\<close> array; a pointer to one is the address of the
  TCB and the index.
\<close>

record wnode =
  wn_next :: "(nat \<times> nat) option"
  wn_sem :: nat
  wn_owner :: nat
  wn_idx :: int

record perf_task =
  pt_cycles_run :: "64 word"
  pt_last_scheduled_cyc :: "64 word"
  pt_max_burst_cyc :: u32w
  pt_switches_in :: u32w

record tcb =
  t_sp :: nat
  t_mem_block :: nat
  t_arg :: nat
  t_entry :: nat
  t_stack_size :: nat
  t_task_id :: nat
  t_parent_id :: nat
  t_name :: string
  t_delay_ticks :: nat
  t_ticks_run :: u32w
  t_priority :: nat
  t_base_priority :: nat
  t_status :: task_status
  t_wait_sem :: nat
  t_wait_mutex :: nat
  t_held_mutexes :: nat
  t_next :: nat
  t_prev :: nat
  t_wait_next :: nat
  t_perf :: perf_task
  t_syscall_result :: int
  t_has_syscall_result :: bool
  t_wnodes :: "nat \<Rightarrow> wnode"
  t_in_multiwait :: bool
  t_narm :: nat
  t_magic :: nat

record sema =
  s_wait_q :: nat
  s_tail :: nat
  s_count :: int
  s_limit :: int
  s_observers :: "(nat \<times> nat) option"

text \<open>A mutex at address \<open>m\<close> has its base semaphore in the semaphore store at \<open>m\<close>.\<close>

record rmutex =
  m_owner :: nat
  m_recursion_count :: u32w
  m_next_held :: nat

record perf_ipc =
  pi_takes :: u32w
  pi_takes_blocked :: u32w
  pi_gives :: u32w
  pi_timeouts :: u32w

text \<open>
  The scheduler accounting of \<open>perf.c\<close>: the software extension of the 32-bit cycle counter
  \<open>pc_raw\<close> (the hardware register) to 64 bits, the switch count and the idle time.
\<close>

record perf_sched =
  pc_raw :: u32w
  pc_high :: "64 word"
  pc_last :: u32w
  ps_switches :: u32w
  ps_idle_cycles :: "64 word"

record perf_isr =
  pq_count :: u32w
  pq_last :: u32w
  pq_min :: u32w
  pq_max :: u32w
  pq_preemptions :: u32w

record kernel =
  tcbs :: "nat \<Rightarrow> tcb"
  semas :: "nat \<Rightarrow> sema"
  rmutexes :: "nat \<Rightarrow> rmutex"
  ready_lists :: "nat \<Rightarrow> nat"
  ready_tails :: "nat \<Rightarrow> nat"
  blocked_list :: nat
  terminated_count :: u32w
  delayed_list :: nat
  current_task :: nat
  idle_task :: nat
  ready_bitmap :: u32w
  context_switch_count :: u32w
  task_count :: nat
  scheduler_running :: bool
  last_context_switch_tick :: u32w
  ticks :: nat
  pendsv :: bool
  k_perf_ipc :: perf_ipc
  k_perf_sched :: perf_sched
  k_perf_isr :: perf_isr

abbreviation (input) VA_PASS :: int where "VA_PASS \<equiv> 1"
abbreviation (input) VA_FAIL :: int where "VA_FAIL \<equiv> 0"
abbreviation (input) V_WAIT_FOREVER :: nat where "V_WAIT_FOREVER \<equiv> 0xFFFFFFFF"

text \<open>\<open>MAX_TASK_PRIORITY\<close> and \<open>MAX_PI_DEPTH\<close>, at the defaults of the build configuration.\<close>

abbreviation (input) MAX_PRIORITY :: nat where "MAX_PRIORITY \<equiv> 7"
abbreviation (input) MAX_PI_DEPTH :: nat where "MAX_PI_DEPTH \<equiv> 4"

definition upd_tcb :: "nat \<Rightarrow> (tcb \<Rightarrow> tcb) \<Rightarrow> kernel \<Rightarrow> kernel" where
  "upd_tcb t f k = k\<lparr>tcbs := (tcbs k)(t := f (tcbs k t))\<rparr>"

definition upd_sema :: "nat \<Rightarrow> (sema \<Rightarrow> sema) \<Rightarrow> kernel \<Rightarrow> kernel" where
  "upd_sema s f k = k\<lparr>semas := (semas k)(s := f (semas k s))\<rparr>"

definition upd_rmutex :: "nat \<Rightarrow> (rmutex \<Rightarrow> rmutex) \<Rightarrow> kernel \<Rightarrow> kernel" where
  "upd_rmutex m f k = k\<lparr>rmutexes := (rmutexes k)(m := f (rmutexes k m))\<rparr>"

abbreviation tnext :: "kernel \<Rightarrow> nat \<Rightarrow> nat" where "tnext k t \<equiv> t_next (tcbs k t)"
abbreviation tprev :: "kernel \<Rightarrow> nat \<Rightarrow> nat" where "tprev k t \<equiv> t_prev (tcbs k t)"
abbreviation status :: "kernel \<Rightarrow> nat \<Rightarrow> task_status" where "status k t \<equiv> t_status (tcbs k t)"
abbreviation prio :: "kernel \<Rightarrow> nat \<Rightarrow> nat" where "prio k t \<equiv> t_priority (tcbs k t)"

lemma upd_tcb_simps [simp]:
  "tcbs (upd_tcb t f k) = (tcbs k)(t := f (tcbs k t))"
  "semas (upd_tcb t f k) = semas k" "rmutexes (upd_tcb t f k) = rmutexes k"
  "ready_lists (upd_tcb t f k) = ready_lists k" "ready_tails (upd_tcb t f k) = ready_tails k"
  "blocked_list (upd_tcb t f k) = blocked_list k" "delayed_list (upd_tcb t f k) = delayed_list k"
  "terminated_count (upd_tcb t f k) = terminated_count k"
  "current_task (upd_tcb t f k) = current_task k" "idle_task (upd_tcb t f k) = idle_task k"
  "ready_bitmap (upd_tcb t f k) = ready_bitmap k"
  "context_switch_count (upd_tcb t f k) = context_switch_count k"
  "task_count (upd_tcb t f k) = task_count k"
  "scheduler_running (upd_tcb t f k) = scheduler_running k"
  "last_context_switch_tick (upd_tcb t f k) = last_context_switch_tick k"
  "ticks (upd_tcb t f k) = ticks k" "pendsv (upd_tcb t f k) = pendsv k"
  "k_perf_ipc (upd_tcb t f k) = k_perf_ipc k" "k_perf_sched (upd_tcb t f k) = k_perf_sched k"
  by (simp_all add: upd_tcb_def)

lemma upd_sema_simps [simp]:
  "semas (upd_sema s f k) = (semas k)(s := f (semas k s))"
  "tcbs (upd_sema s f k) = tcbs k" "rmutexes (upd_sema s f k) = rmutexes k"
  "ready_lists (upd_sema s f k) = ready_lists k" "ready_tails (upd_sema s f k) = ready_tails k"
  "blocked_list (upd_sema s f k) = blocked_list k" "delayed_list (upd_sema s f k) = delayed_list k"
  "terminated_count (upd_sema s f k) = terminated_count k"
  "current_task (upd_sema s f k) = current_task k" "idle_task (upd_sema s f k) = idle_task k"
  "ready_bitmap (upd_sema s f k) = ready_bitmap k"
  "context_switch_count (upd_sema s f k) = context_switch_count k"
  "task_count (upd_sema s f k) = task_count k"
  "scheduler_running (upd_sema s f k) = scheduler_running k"
  "last_context_switch_tick (upd_sema s f k) = last_context_switch_tick k"
  "ticks (upd_sema s f k) = ticks k" "pendsv (upd_sema s f k) = pendsv k"
  "k_perf_ipc (upd_sema s f k) = k_perf_ipc k" "k_perf_sched (upd_sema s f k) = k_perf_sched k"
  by (simp_all add: upd_sema_def)

lemma upd_rmutex_simps [simp]:
  "rmutexes (upd_rmutex m f k) = (rmutexes k)(m := f (rmutexes k m))"
  "tcbs (upd_rmutex m f k) = tcbs k" "semas (upd_rmutex m f k) = semas k"
  "ready_lists (upd_rmutex m f k) = ready_lists k" "ready_tails (upd_rmutex m f k) = ready_tails k"
  "blocked_list (upd_rmutex m f k) = blocked_list k" "delayed_list (upd_rmutex m f k) = delayed_list k"
  "terminated_count (upd_rmutex m f k) = terminated_count k"
  "current_task (upd_rmutex m f k) = current_task k" "idle_task (upd_rmutex m f k) = idle_task k"
  "ready_bitmap (upd_rmutex m f k) = ready_bitmap k"
  "context_switch_count (upd_rmutex m f k) = context_switch_count k"
  "task_count (upd_rmutex m f k) = task_count k"
  "scheduler_running (upd_rmutex m f k) = scheduler_running k"
  "last_context_switch_tick (upd_rmutex m f k) = last_context_switch_tick k"
  "ticks (upd_rmutex m f k) = ticks k" "pendsv (upd_rmutex m f k) = pendsv k"
  "k_perf_ipc (upd_rmutex m f k) = k_perf_ipc k" "k_perf_sched (upd_rmutex m f k) = k_perf_sched k"
  by (simp_all add: upd_rmutex_def)

end
