(* ===== verification/Sched_Lists.thy ===== *)
theory Sched_Lists
  imports Kernel_State
begin

text \<open>
  The task lists of \<open>kernel/task.c\<close>: the per-priority ready queues with their bitmap, the
  blocked list and the delay list sorted by wake-up tick.

  \<open>sched_inv k R B D\<close> says that \<open>R p\<close> is the ready queue of priority \<open>p\<close>, \<open>B\<close> the blocked
  list and \<open>D\<close> the delay list of state \<open>k\<close>, linked both ways, with statuses and priorities
  that agree and a bitmap that marks exactly the non-empty queues. Each list operation is
  shown to be the corresponding operation on \<open>R\<close>, \<open>B\<close> or \<open>D\<close>.
\<close>

section \<open>Definitions\<close>

definition rb_set :: "nat \<Rightarrow> kernel \<Rightarrow> kernel" where
  "rb_set p k = k\<lparr>ready_bitmap := ready_bitmap k OR push_bit p 1\<rparr>"

definition rb_clear :: "nat \<Rightarrow> kernel \<Rightarrow> kernel" where
  "rb_clear p k = k\<lparr>ready_bitmap := ready_bitmap k AND NOT (push_bit p 1)\<rparr>"

definition rl_append :: "nat \<Rightarrow> kernel \<Rightarrow> kernel" where
  "rl_append task k =
     (let p = prio k task;
          k = upd_tcb task (\<lambda>t. t\<lparr>t_next := 0\<rparr>) k;
          k = upd_tcb task (\<lambda>t. t\<lparr>t_prev := ready_tails k p\<rparr>) k;
          k = (if ready_lists k p \<noteq> 0
               then upd_tcb (ready_tails k p) (\<lambda>t. t\<lparr>t_next := task\<rparr>) k
               else rb_set p (k\<lparr>ready_lists := (ready_lists k)(p := task)\<rparr>));
          k = k\<lparr>ready_tails := (ready_tails k)(p := task)\<rparr>
      in upd_tcb task (\<lambda>t. t\<lparr>t_status := TASK_READY\<rparr>) k)"

definition rl_pop_head :: "nat \<Rightarrow> kernel \<Rightarrow> nat \<times> kernel" where
  "rl_pop_head p k =
     (let t = ready_lists k p;
          k = k\<lparr>ready_lists := (ready_lists k)(p := tnext k t)\<rparr>;
          k = (if ready_lists k p \<noteq> 0
               then upd_tcb (ready_lists k p) (\<lambda>x. x\<lparr>t_prev := 0\<rparr>) k
               else rb_clear p (k\<lparr>ready_tails := (ready_tails k)(p := 0)\<rparr>));
          k = upd_tcb t (\<lambda>x. x\<lparr>t_next := 0, t_prev := 0\<rparr>) k
      in (t, k))"

definition rl_remove :: "nat \<Rightarrow> kernel \<Rightarrow> kernel" where
  "rl_remove task k =
     (let p = prio k task;
          k = (if tprev k task \<noteq> 0
               then upd_tcb (tprev k task) (\<lambda>t. t\<lparr>t_next := tnext k task\<rparr>) k
               else k\<lparr>ready_lists := (ready_lists k)(p := tnext k task)\<rparr>);
          k = (if tnext k task \<noteq> 0
               then upd_tcb (tnext k task) (\<lambda>t. t\<lparr>t_prev := tprev k task\<rparr>) k
               else k\<lparr>ready_tails := (ready_tails k)(p := tprev k task)\<rparr>);
          k = (if ready_lists k p = 0 then rb_clear p k else k)
      in upd_tcb task (\<lambda>t. t\<lparr>t_next := 0, t_prev := 0\<rparr>) k)"

text \<open>\<open>31 - __builtin_clz\<close>; \<open>None\<close> is the result -1.\<close>

definition highest_ready_prio :: "kernel \<Rightarrow> nat option" where
  "highest_ready_prio k =
     (if ready_bitmap k = 0 then None else Some (bit_fls (unat (ready_bitmap k))))"

text \<open>
  The generic list operations take the list head and return the new one. \<open>last_task\<close> is the
  walk of \<open>enqueue_task\<close> to the last node.
\<close>

partial_function (option) last_task :: "kernel \<Rightarrow> nat \<Rightarrow> nat option" where
  "last_task k cur = (if tnext k cur \<noteq> 0 then last_task k (tnext k cur) else Some cur)"

declare last_task.simps [code]

definition enqueue_task :: "nat \<Rightarrow> nat \<Rightarrow> kernel \<Rightarrow> (nat \<times> kernel) kres" where
  "enqueue_task list task k =
     (if task = 0 then Inr (list, k)
      else
        let k = upd_tcb task (\<lambda>t. t\<lparr>t_next := 0, t_prev := 0\<rparr>) k
        in if list = 0 then Inr (task, k)
           else kbind (walk_end (last_task k list)) (\<lambda>cur.
             let k = upd_tcb cur (\<lambda>t. t\<lparr>t_next := task\<rparr>) k;
                 k = upd_tcb task (\<lambda>t. t\<lparr>t_prev := cur\<rparr>) k
             in Inr (list, k)))"

definition remove_task :: "nat \<Rightarrow> nat \<Rightarrow> kernel \<Rightarrow> nat \<times> kernel" where
  "remove_task list task k =
     (if task = 0 \<or> list = 0 then (list, k)
      else
        let (list, k) =
          (if list = task then
             let list = tnext k task;
                 k = (if list \<noteq> 0 then upd_tcb list (\<lambda>t. t\<lparr>t_prev := 0\<rparr>) k else k);
                 k = (if tnext k task \<noteq> 0
                      then upd_tcb (tnext k task) (\<lambda>t. t\<lparr>t_prev := 0\<rparr>) k else k)
             in (list, k)
           else
             let k = (if tprev k task \<noteq> 0
                      then upd_tcb (tprev k task) (\<lambda>t. t\<lparr>t_next := tnext k task\<rparr>) k else k);
                 k = (if tnext k task \<noteq> 0
                      then upd_tcb (tnext k task) (\<lambda>t. t\<lparr>t_prev := tprev k task\<rparr>) k else k)
             in (list, k))
        in (list, upd_tcb task (\<lambda>t. t\<lparr>t_next := 0, t_prev := 0\<rparr>) k))"

definition peek_task :: "nat \<Rightarrow> nat" where
  "peek_task list = list"

definition dequeue_task :: "nat \<Rightarrow> kernel \<Rightarrow> nat \<times> nat \<times> kernel" where
  "dequeue_task list k =
     (let task = peek_task list
      in if task \<noteq> 0 then (let (list, k) = remove_task list task k in (task, list, k))
         else (task, list, k))"

definition add_to_ready_list :: "nat \<Rightarrow> kernel \<Rightarrow> kernel" where
  "add_to_ready_list task k = (if task = 0 then k else rl_append task k)"

definition remove_from_ready_list :: "nat \<Rightarrow> kernel \<Rightarrow> kernel" where
  "remove_from_ready_list task k = (if task = 0 then k else rl_remove task k)"

definition get_highest_priority_task :: "kernel \<Rightarrow> nat" where
  "get_highest_priority_task k =
     (case highest_ready_prio k of None \<Rightarrow> 0 | Some p \<Rightarrow> ready_lists k p)"

definition add_to_blocked_list :: "nat \<Rightarrow> kernel \<Rightarrow> kernel kres" where
  "add_to_blocked_list task k =
     kbind (enqueue_task (blocked_list k) task k) (\<lambda>(list, k).
       Inr (upd_tcb task (\<lambda>t. t\<lparr>t_status := TASK_BLOCKED\<rparr>) (k\<lparr>blocked_list := list\<rparr>)))"

definition remove_from_blocked_list :: "nat \<Rightarrow> kernel \<Rightarrow> kernel" where
  "remove_from_blocked_list task k =
     (let (list, k) = remove_task (blocked_list k) task k
      in upd_tcb task (\<lambda>t. t\<lparr>t_next := 0, t_prev := 0\<rparr>) (k\<lparr>blocked_list := list\<rparr>))"

definition remove_from_delayed_list :: "nat \<Rightarrow> kernel \<Rightarrow> kernel" where
  "remove_from_delayed_list task k =
     (let (list, k) = remove_task (delayed_list k) task k
      in upd_tcb task (\<lambda>t. t\<lparr>t_next := 0, t_prev := 0\<rparr>) (k\<lparr>delayed_list := list\<rparr>))"

text \<open>The insertion walk of \<open>add_to_delayed_list\<close>.\<close>

partial_function (option) delay_pos :: "kernel \<Rightarrow> nat \<Rightarrow> nat \<Rightarrow> nat option" where
  "delay_pos k deadline cur =
     (if tnext k cur \<noteq> 0 \<and> t_delay_ticks (tcbs k (tnext k cur)) \<le> deadline
      then delay_pos k deadline (tnext k cur) else Some cur)"

declare delay_pos.simps [code]

definition add_to_delayed_list :: "nat \<Rightarrow> kernel \<Rightarrow> kernel kres" where
  "add_to_delayed_list task k =
     (if task = 0 then Inr k
      else
        let k = upd_tcb task (\<lambda>t. t\<lparr>t_next := 0, t_prev := 0, t_status := TASK_DELAYED\<rparr>) k
        in if delayed_list k = 0 \<or>
              t_delay_ticks (tcbs k task) < t_delay_ticks (tcbs k (delayed_list k))
           then
             let k = upd_tcb task (\<lambda>t. t\<lparr>t_next := delayed_list k\<rparr>) k;
                 k = (if delayed_list k \<noteq> 0
                      then upd_tcb (delayed_list k) (\<lambda>t. t\<lparr>t_prev := task\<rparr>) k else k)
             in Inr (k\<lparr>delayed_list := task\<rparr>)
           else kbind (walk_end (delay_pos k (t_delay_ticks (tcbs k task)) (delayed_list k))) (\<lambda>cur.
             let k = upd_tcb task (\<lambda>t. t\<lparr>t_next := tnext k cur, t_prev := cur\<rparr>) k;
                 k = (if tnext k cur \<noteq> 0
                      then upd_tcb (tnext k cur) (\<lambda>t. t\<lparr>t_prev := task\<rparr>) k else k)
             in Inr (upd_tcb cur (\<lambda>t. t\<lparr>t_next := task\<rparr>) k)))"

section \<open>The invariant\<close>

definition ready_ok :: "kernel \<Rightarrow> nat \<Rightarrow> nat list \<Rightarrow> bool" where
  "ready_ok k p xs \<longleftrightarrow> dll (tnext k) (tprev k) (ready_lists k p) xs (ready_tails k p) \<and>
     distinct xs \<and> (\<forall>t \<in> set xs. prio k t = p \<and> status k t = TASK_READY)"

definition queue_ok :: "kernel \<Rightarrow> nat \<Rightarrow> nat list \<Rightarrow> task_status set \<Rightarrow> bool" where
  "queue_ok k fp xs S \<longleftrightarrow> (\<exists>lp. dll (tnext k) (tprev k) fp xs lp) \<and> distinct xs \<and>
     (\<forall>t \<in> set xs. status k t \<in> S)"

definition sched_inv :: "kernel \<Rightarrow> (nat \<Rightarrow> nat list) \<Rightarrow> nat list \<Rightarrow> nat list \<Rightarrow> bool" where
  "sched_inv k R B D \<longleftrightarrow>
     (\<forall>p \<le> MAX_PRIORITY. ready_ok k p (R p)) \<and>
     (\<forall>p. bit (ready_bitmap k) p \<longleftrightarrow> p \<le> MAX_PRIORITY \<and> R p \<noteq> []) \<and>
     queue_ok k (blocked_list k) B {TASK_BLOCKED, TASK_TERMINATED} \<and>
     queue_ok k (delayed_list k) D {TASK_DELAYED} \<and>
     sorted (map (\<lambda>t. t_delay_ticks (tcbs k t)) D)"

definition on_lists :: "(nat \<Rightarrow> nat list) \<Rightarrow> nat list \<Rightarrow> nat list \<Rightarrow> nat set" where
  "on_lists R B D = (\<Union>p \<in> {..MAX_PRIORITY}. set (R p)) \<union> set B \<union> set D"

section \<open>Lemmas\<close>

lemma rb_simps [simp]:
  "tcbs (rb_set p k) = tcbs k" "tcbs (rb_clear p k) = tcbs k"
  "ready_lists (rb_set p k) = ready_lists k" "ready_lists (rb_clear p k) = ready_lists k"
  "ready_tails (rb_set p k) = ready_tails k" "ready_tails (rb_clear p k) = ready_tails k"
  "blocked_list (rb_set p k) = blocked_list k" "blocked_list (rb_clear p k) = blocked_list k"
  "delayed_list (rb_set p k) = delayed_list k" "delayed_list (rb_clear p k) = delayed_list k"
  "current_task (rb_set p k) = current_task k" "current_task (rb_clear p k) = current_task k"
  "idle_task (rb_set p k) = idle_task k" "idle_task (rb_clear p k) = idle_task k"
  "semas (rb_set p k) = semas k" "semas (rb_clear p k) = semas k"
  "rmutexes (rb_set p k) = rmutexes k" "rmutexes (rb_clear p k) = rmutexes k"
  by (simp_all add: rb_set_def rb_clear_def)

lemma rb_bit:
  "p < 32 \<Longrightarrow> bit (ready_bitmap (rb_set p k)) q \<longleftrightarrow> q = p \<or> bit (ready_bitmap k) q"
  "p < 32 \<Longrightarrow> bit (ready_bitmap (rb_clear p k)) q \<longleftrightarrow> q \<noteq> p \<and> bit (ready_bitmap k) q"
  by (auto simp: rb_set_def rb_clear_def bit_or_iff bit_and_iff bit_not_iff bit_exp_iff
      dest: bit_imp_le_length)

lemma ready_ok_cong:
  assumes "ready_lists k' p = ready_lists k p" "ready_tails k' p = ready_tails k p"
    and "\<And>t. t \<in> set xs \<Longrightarrow> tcbs k' t = tcbs k t"
  shows "ready_ok k' p xs = ready_ok k p xs"
proof -
  have "dll (tnext k') (tprev k') fp xs lp = dll (tnext k) (tprev k) fp xs lp" for fp lp
    by (rule dll_cong) (simp add: assms(3))
  then show ?thesis using assms by (auto simp: ready_ok_def)
qed

lemma queue_ok_cong:
  assumes "\<And>t. t \<in> set xs \<Longrightarrow> tcbs k' t = tcbs k t"
  shows "queue_ok k' fp xs S = queue_ok k fp xs S"
proof -
  have "dll (tnext k') (tprev k') fp xs lp = dll (tnext k) (tprev k) fp xs lp" for lp
    by (rule dll_cong) (simp add: assms)
  then show ?thesis using assms by (auto simp: queue_ok_def)
qed

lemma sched_invD:
  assumes "sched_inv k R B D"
  shows "p \<le> 7 \<Longrightarrow> ready_ok k p (R p)" "bit (ready_bitmap k) p \<longleftrightarrow> p \<le> 7 \<and> R p \<noteq> []"
    "queue_ok k (blocked_list k) B {TASK_BLOCKED, TASK_TERMINATED}"
    "queue_ok k (delayed_list k) D {TASK_DELAYED}"
    "sorted (map (\<lambda>t. t_delay_ticks (tcbs k t)) D)"
  using assms by (simp_all add: sched_inv_def)

lemma sched_inv_status:
  assumes "sched_inv k R B D"
  shows "p \<le> 7 \<Longrightarrow> t \<in> set (R p) \<Longrightarrow> status k t = TASK_READY \<and> prio k t = p"
    "t \<in> set B \<Longrightarrow> status k t = TASK_BLOCKED \<or> status k t = TASK_TERMINATED"
    "t \<in> set D \<Longrightarrow> status k t = TASK_DELAYED"
  using sched_invD [OF assms] by (auto simp: ready_ok_def queue_ok_def)

lemma sched_inv_disjoint:
  assumes "sched_inv k R B D"
  shows "p \<le> 7 \<Longrightarrow> q \<le> 7 \<Longrightarrow> t \<in> set (R p) \<Longrightarrow> t \<in> set (R q) \<Longrightarrow> p = q"
    "p \<le> 7 \<Longrightarrow> t \<in> set (R p) \<Longrightarrow> t \<notin> set B \<and> t \<notin> set D" "t \<in> set B \<Longrightarrow> t \<notin> set D"
  using sched_inv_status [OF assms] by (metis, metis task_status.distinct,
      metis task_status.distinct)

lemma sched_inv_nonnull:
  assumes "sched_inv k R B D" "t \<in> on_lists R B D"
  shows "t \<noteq> 0"
proof -
  have "0 \<notin> set (R p)" if "p \<le> 7" for p
    using sched_invD(1) [OF assms(1) that] dll_not_null by (auto simp: ready_ok_def)
  moreover have "0 \<notin> set B" "0 \<notin> set D"
    using sched_invD(3,4) [OF assms(1)] dll_not_null by (auto simp: queue_ok_def)
  ultimately show ?thesis using assms(2) by (auto simp: on_lists_def intro: ccontr)
qed

lemma sched_inv_running:
  "sched_inv k R B D \<Longrightarrow> status k t = TASK_RUNNING \<Longrightarrow> t \<notin> on_lists R B D"
  using sched_inv_status [of k R B D] by (force simp: on_lists_def)

lemma sched_inv_frame:
  assumes "sched_inv k R B D" "\<And>t. t \<in> on_lists R B D \<Longrightarrow> tcbs k' t = tcbs k t"
    and "ready_lists k' = ready_lists k" "ready_tails k' = ready_tails k"
      "blocked_list k' = blocked_list k" "delayed_list k' = delayed_list k"
      "ready_bitmap k' = ready_bitmap k"
  shows "sched_inv k' R B D"
proof -
  have "ready_ok k' p (R p) = ready_ok k p (R p)" if "p \<le> 7" for p
    using that assms by (intro ready_ok_cong) (auto simp: on_lists_def)
  moreover have "queue_ok k' fp B S = queue_ok k fp B S" "queue_ok k' fp D S = queue_ok k fp D S"
    for fp S
    using assms(2) by (intro queue_ok_cong; simp add: on_lists_def)+
  moreover have m: "map (\<lambda>t. t_delay_ticks (tcbs k' t)) D = map (\<lambda>t. t_delay_ticks (tcbs k t)) D"
    using assms(2) by (auto simp: on_lists_def)
  ultimately show ?thesis unfolding sched_inv_def m using assms by (simp add: sched_inv_def)
qed

lemma on_listsI:
  "p \<le> 7 \<Longrightarrow> t \<in> set (R p) \<Longrightarrow> t \<in> on_lists R B D" "t \<in> set B \<Longrightarrow> t \<in> on_lists R B D"
  "t \<in> set D \<Longrightarrow> t \<in> on_lists R B D"
  "q \<le> 7 \<Longrightarrow> t \<in> set (R q) \<Longrightarrow> q \<noteq> p \<Longrightarrow> t \<in> on_lists (R(p := xs)) B D"
  by (auto simp: on_lists_def intro: bexI [of _ p] bexI [of _ q])

lemma on_listsE:
  assumes "t \<in> on_lists R B D"
  obtains p where "p \<le> 7" "t \<in> set (R p)" | "t \<in> set B" | "t \<in> set D"
  using assms by (auto simp: on_lists_def)

text \<open>Changing one list at a time.\<close>

lemma sched_inv_upd_ready:
  assumes I: "sched_inv k R B D" and p: "p \<le> 7" and ok: "ready_ok k' p xs"
    and q: "\<And>q. q \<noteq> p \<Longrightarrow> ready_lists k' q = ready_lists k q \<and> ready_tails k' q = ready_tails k q"
    and b: "\<And>q. bit (ready_bitmap k') q \<longleftrightarrow> (if q = p then xs \<noteq> [] else bit (ready_bitmap k) q)"
    and t: "\<And>t. t \<in> on_lists (R(p := [])) B D \<Longrightarrow> tcbs k' t = tcbs k t"
    and l: "blocked_list k' = blocked_list k" "delayed_list k' = delayed_list k"
  shows "sched_inv k' (R(p := xs)) B D"
proof -
  have "ready_ok k' q (R q)" if "q \<le> 7" "q \<noteq> p" for q
    using that sched_invD(1) [OF I] q t [OF on_listsI(4)]
    by (subst ready_ok_cong [of k' q k]) auto
  moreover have "queue_ok k' fp B S = queue_ok k fp B S" "queue_ok k' fp D S = queue_ok k fp D S"
    for fp S
    using t by (intro queue_ok_cong; simp add: on_lists_def)+
  moreover have m: "map (\<lambda>t. t_delay_ticks (tcbs k' t)) D = map (\<lambda>t. t_delay_ticks (tcbs k t)) D"
    using t by (auto simp: on_lists_def)
  ultimately show ?thesis
    unfolding sched_inv_def m using sched_invD [OF I] ok b l p by auto
qed

lemma sched_inv_upd_blocked:
  assumes I: "sched_inv k R B D"
    and ok: "queue_ok k' (blocked_list k') B' {TASK_BLOCKED, TASK_TERMINATED}"
    and t: "\<And>t. t \<in> on_lists R [] D \<Longrightarrow> tcbs k' t = tcbs k t"
    and l: "ready_lists k' = ready_lists k" "ready_tails k' = ready_tails k"
      "delayed_list k' = delayed_list k" "ready_bitmap k' = ready_bitmap k"
  shows "sched_inv k' R B' D"
proof -
  have "ready_ok k' q (R q)" if "q \<le> 7" for q
    using that sched_invD(1) [OF I] l t
    by (subst ready_ok_cong [of k' q k]) (auto simp: on_lists_def)
  moreover have "queue_ok k' fp D S = queue_ok k fp D S" for fp S
    using t by (intro queue_ok_cong) (simp add: on_lists_def)
  moreover have m: "map (\<lambda>t. t_delay_ticks (tcbs k' t)) D = map (\<lambda>t. t_delay_ticks (tcbs k t)) D"
    using t by (auto simp: on_lists_def)
  ultimately show ?thesis
    unfolding sched_inv_def m using sched_invD [OF I] ok l by auto
qed

lemma sched_inv_upd_delayed:
  assumes I: "sched_inv k R B D"
    and ok: "queue_ok k' (delayed_list k') D' {TASK_DELAYED}"
      "sorted (map (\<lambda>t. t_delay_ticks (tcbs k' t)) D')"
    and t: "\<And>t. t \<in> on_lists R B [] \<Longrightarrow> tcbs k' t = tcbs k t"
    and l: "ready_lists k' = ready_lists k" "ready_tails k' = ready_tails k"
      "blocked_list k' = blocked_list k" "ready_bitmap k' = ready_bitmap k"
  shows "sched_inv k' R B D'"
proof -
  have "ready_ok k' q (R q)" if "q \<le> 7" for q
    using that sched_invD(1) [OF I] l t
    by (subst ready_ok_cong [of k' q k]) (auto simp: on_lists_def)
  moreover have "queue_ok k' fp B S = queue_ok k fp B S" for fp S
    using t by (intro queue_ok_cong) (simp add: on_lists_def)
  ultimately show ?thesis
    unfolding sched_inv_def using sched_invD [OF I] ok l by auto
qed

text \<open>What \<open>rl_append\<close>, \<open>rl_pop_head\<close> and \<open>rl_remove\<close> do to the queues.\<close>

lemma rl_append_frame [simp]:
  "blocked_list (rl_append t k) = blocked_list k" "delayed_list (rl_append t k) = delayed_list k"
  "current_task (rl_append t k) = current_task k" "idle_task (rl_append t k) = idle_task k"
  "semas (rl_append t k) = semas k" "rmutexes (rl_append t k) = rmutexes k"
  by (simp_all add: rl_append_def Let_def)

lemma rl_append_inv:
  assumes I: "sched_inv k R B D" and t: "t \<noteq> 0" "t \<notin> on_lists R B D" "p \<le> 7"
    and p: "prio k t = p"
  shows "sched_inv (rl_append t k) (R(p := R p @ [t])) B D"
proof (rule sched_inv_upd_ready [OF I t(3)])
  let ?k = "rl_append t k"
  have ok: "ready_ok k p (R p)" by (rule sched_invD(1) [OF I t(3)])
  then have d: "dll (tnext k) (tprev k) (ready_lists k p) (R p) (ready_tails k p)"
    "distinct (R p)" by (simp_all add: ready_ok_def)
  have tl: "ready_tails k p = last (0 # R p)" by (rule dll_tl [OF d(1)])
  have e: "ready_lists k p = 0 \<longleftrightarrow> R p = []" by (rule dll_empty_iff [OF d(1)])
  have tR: "t \<notin> set (R p)" using t by (auto simp: on_lists_def)
  have tin: "R p \<noteq> [] \<Longrightarrow> ready_tails k p \<in> set (R p)" using tl by auto
  then have tt: "R p \<noteq> [] \<Longrightarrow> ready_tails k p \<noteq> t" using tR by auto
  have tf: "tcbs ?k = (if R p = [] then tcbs k
      else (tcbs k)(ready_tails k p := (tcbs k (ready_tails k p))\<lparr>t_next := t\<rparr>))
      (t := (tcbs k t)\<lparr>t_next := 0, t_prev := ready_tails k p, t_status := TASK_READY\<rparr>)"
  proof (cases "R p = []")
    case True
    then show ?thesis using e by (simp add: p rl_append_def Let_def)
  next
    case False
    then show ?thesis using e tt by (simp add: p rl_append_def Let_def fun_upd_twist)
  qed
  have tc: "tcbs ?k x = (if x = t then (tcbs k t)\<lparr>t_next := 0, t_prev := ready_tails k p,
        t_status := TASK_READY\<rparr>
      else if x = ready_tails k p \<and> R p \<noteq> [] then (tcbs k x)\<lparr>t_next := t\<rparr> else tcbs k x)" for x
    using tt by (simp add: tf)
  have hd: "ready_lists ?k p = (if R p = [] then t else ready_lists k p)" "ready_tails ?k p = t"
    using e by (auto simp: p rl_append_def Let_def)
  have "dll (tnext ?k) (tprev ?k) (if R p = [] then t else ready_lists k p) (R p @ [t]) t"
    by (rule dll_snoc [OF d t(1) tR]) (use tR tt in \<open>auto simp: tc\<close>)
  moreover have "prio ?k x = p \<and> status ?k x = TASK_READY" if "x \<in> set (R p @ [t])" for x
    using that sched_inv_status(1) [OF I t(3), of x] p
    by (cases "x = t") (simp_all add: tc, auto)
  moreover have "distinct (R p @ [t])" using d(2) tR by simp
  ultimately show "ready_ok ?k p (R p @ [t])" unfolding ready_ok_def hd by blast
  show "ready_lists ?k q = ready_lists k q \<and> ready_tails ?k q = ready_tails k q" if "q \<noteq> p" for q
    using that by (auto simp: p rl_append_def Let_def)
  show "bit (ready_bitmap ?k) q \<longleftrightarrow> (if q = p then R p @ [t] \<noteq> [] else bit (ready_bitmap k) q)" for q
  proof -
    have "ready_bitmap ?k = (if R p = [] then ready_bitmap (rb_set p k) else ready_bitmap k)"
      using e by (auto simp: p rl_append_def rb_set_def Let_def)
    then show ?thesis using rb_bit(1) [of p k q] t(3) sched_invD(2) [OF I, of q] by auto
  qed
  show "tcbs ?k x = tcbs k x" if "x \<in> on_lists (R(p := [])) B D" for x
  proof -
    have "x \<noteq> t" using that t(2) by (auto simp: on_lists_def split: if_splits)
    moreover have "x \<notin> set (R p)"
      using that sched_inv_disjoint [OF I] t(3) by (fastforce simp: on_lists_def split: if_splits)
    ultimately show ?thesis using tin by (auto simp: tc)
  qed
qed (simp_all)

text \<open>The unlinking operations change nothing but links.\<close>

definition links_only :: "kernel \<Rightarrow> kernel \<Rightarrow> bool" where
  "links_only k k' \<longleftrightarrow>
     (\<forall>x. tcbs k' x = (tcbs k x)\<lparr>t_next := tnext k' x, t_prev := tprev k' x\<rparr>)"

lemma links_only_fields:
  assumes "links_only k k'"
  shows "status k' x = status k x" "prio k' x = prio k x"
    "t_delay_ticks (tcbs k' x) = t_delay_ticks (tcbs k x)"
    "t_wait_sem (tcbs k' x) = t_wait_sem (tcbs k x)"
    "t_wait_next (tcbs k' x) = t_wait_next (tcbs k x)"
    "t_wait_mutex (tcbs k' x) = t_wait_mutex (tcbs k x)"
    "t_held_mutexes (tcbs k' x) = t_held_mutexes (tcbs k x)"
    "t_base_priority (tcbs k' x) = t_base_priority (tcbs k x)"
    "t_task_id (tcbs k' x) = t_task_id (tcbs k x)"
    "t_parent_id (tcbs k' x) = t_parent_id (tcbs k x)"
proof -
  have e: "tcbs k' x = (tcbs k x)\<lparr>t_next := tnext k' x, t_prev := tprev k' x\<rparr>"
    using assms by (simp add: links_only_def)
  show "status k' x = status k x" "prio k' x = prio k x"
    "t_delay_ticks (tcbs k' x) = t_delay_ticks (tcbs k x)"
    "t_wait_sem (tcbs k' x) = t_wait_sem (tcbs k x)"
    "t_wait_next (tcbs k' x) = t_wait_next (tcbs k x)"
    "t_wait_mutex (tcbs k' x) = t_wait_mutex (tcbs k x)"
    "t_held_mutexes (tcbs k' x) = t_held_mutexes (tcbs k x)"
    "t_base_priority (tcbs k' x) = t_base_priority (tcbs k x)"
    "t_task_id (tcbs k' x) = t_task_id (tcbs k x)"
    "t_parent_id (tcbs k' x) = t_parent_id (tcbs k x)"
    by (subst e, simp)+
qed

lemma dll_split_ends:
  assumes "dll nx pv fp (xs @ t # ys) lp"
  shows "pv t = last (0 # xs)" "nx t = (case ys of [] \<Rightarrow> 0 | b # _ \<Rightarrow> b)"
    "pv t = 0 \<longleftrightarrow> xs = []" "nx t = 0 \<longleftrightarrow> ys = []" "t \<noteq> 0"
proof -
  from assms have l: "dseg nx pv 0 fp xs (pv t) t" and b: "t \<noteq> 0"
    and r: "dseg nx pv t (nx t) ys lp 0"
    by (auto simp: dll_def dll_simps)
  show "pv t = last (0 # xs)" "nx t = (case ys of [] \<Rightarrow> 0 | b # _ \<Rightarrow> b)" "t \<noteq> 0"
    using dseg_ends [OF l] dseg_ends [OF r] b by auto
  then show "pv t = 0 \<longleftrightarrow> xs = []"
    using dseg_not_null [OF l] by (cases xs rule: rev_cases) auto
  show "nx t = 0 \<longleftrightarrow> ys = []"
    using \<open>nx t = (case ys of [] \<Rightarrow> 0 | b # _ \<Rightarrow> b)\<close> dseg_not_null [OF r] by (cases ys) auto
qed

text \<open>The TCB store after a node \<open>t\<close> is spliced out of its list.\<close>

definition unlinked :: "nat \<Rightarrow> kernel \<Rightarrow> nat \<Rightarrow> tcb" where
  "unlinked t k =
     ((\<lambda>f. if tnext k t \<noteq> 0 then f(tnext k t := (tcbs k (tnext k t))\<lparr>t_prev := tprev k t\<rparr>) else f)
      (if tprev k t \<noteq> 0 then (tcbs k)(tprev k t := (tcbs k (tprev k t))\<lparr>t_next := tnext k t\<rparr>)
       else tcbs k))
      (t := (tcbs k t)\<lparr>t_next := 0, t_prev := 0\<rparr>)"

lemma unlinked_effect:
  assumes d: "dll (tnext k) (tprev k) fp (xs @ t # ys) lp" "distinct (xs @ t # ys)"
    and tf: "tcbs k' = unlinked t k"
  shows "dll (tnext k') (tprev k') (if tprev k t \<noteq> 0 then fp else tnext k t) (xs @ ys)
      (if tnext k t \<noteq> 0 then lp else tprev k t)"
    "links_only k k'" "x \<notin> set (xs @ t # ys) \<Longrightarrow> tcbs k' x = tcbs k x"
    "tnext k' t = 0" "tprev k' t = 0"
proof -
  note n = dll_neighbours [OF d(1,2)]
  let ?P = "tprev k t" and ?N = "tnext k t"
  have pn: "?P \<noteq> 0 \<Longrightarrow> ?P \<noteq> ?N"
    using n d(2) by (metis IntI distinct_append empty_iff list.set_intros(2))
  have nx: "tnext k' x = (if x = t then 0 else if x = ?P \<and> ?P \<noteq> 0 then ?N else tnext k x)" for x
    using pn n(3,4) by (simp add: tf unlinked_def)
  have pv: "tprev k' x = (if x = t then 0 else if x = ?N \<and> ?N \<noteq> 0 then ?P else tprev k x)" for x
    using pn n(3,4) by (simp add: tf unlinked_def)
  show "dll (tnext k') (tprev k') (if ?P \<noteq> 0 then fp else ?N) (xs @ ys)
      (if ?N \<noteq> 0 then lp else ?P)"
    by (rule dll_unlink [OF d(1,2)]) (use d(2) n in \<open>auto simp: nx pv\<close>)
  show "links_only k k'" using pn n(3,4) by (auto simp: links_only_def tf unlinked_def)
  show "tcbs k' x = tcbs k x" if "x \<notin> set (xs @ t # ys)"
  proof -
    have "x \<noteq> t" "?P \<noteq> 0 \<Longrightarrow> x \<noteq> ?P" "?N \<noteq> 0 \<Longrightarrow> x \<noteq> ?N" using that n(1,2) by force+
    then show ?thesis by (simp add: tf unlinked_def)
  qed
  show "tnext k' t = 0" "tprev k' t = 0" by (simp_all add: nx pv)
qed

lemma rl_remove_ready:
  assumes ok: "ready_ok k p (xs @ t # ys)"
  defines "k' \<equiv> rl_remove t k"
  shows "ready_ok k' p (xs @ ys)" "links_only k k'"
    "x \<notin> set (xs @ t # ys) \<Longrightarrow> tcbs k' x = tcbs k x"
    "q \<noteq> p \<Longrightarrow> ready_lists k' q = ready_lists k q \<and> ready_tails k' q = ready_tails k q"
    "ready_bitmap k' = (if xs @ ys = [] then ready_bitmap (rb_clear p k) else ready_bitmap k)"
    "tnext k' t = 0" "tprev k' t = 0"
proof -
  have d: "dll (tnext k) (tprev k) (ready_lists k p) (xs @ t # ys) (ready_tails k p)"
    "distinct (xs @ t # ys)" "prio k t = p"
    using ok by (auto simp: ready_ok_def)
  note n = dll_neighbours [OF d(1,2)]
  let ?P = "tprev k t" and ?N = "tnext k t"
  have pn: "?P \<noteq> 0 \<Longrightarrow> ?P \<noteq> ?N"
    using n d(2) by (metis IntI distinct_append empty_iff list.set_intros(2))
  have tf: "tcbs k' = unlinked t k"
    using n(3,4) pn unfolding k'_def rl_remove_def unlinked_def Let_def d(3)
    by (cases "?P = 0"; cases "?N = 0"; simp)
  have fl: "ready_lists k' = (if ?P \<noteq> 0 then ready_lists k else (ready_lists k)(p := ?N))"
    "ready_tails k' = (if ?N \<noteq> 0 then ready_tails k else (ready_tails k)(p := ?P))"
    using n(3,4) by (simp_all add: k'_def rl_remove_def Let_def d(3))
  note u = unlinked_effect [OF d(1,2) tf]
  have dl: "dll (tnext k') (tprev k') (ready_lists k' p) (xs @ ys) (ready_tails k' p)"
    using u(1) by (auto simp: fl)
  show lo: "links_only k k'" by (rule u(2))
  have "\<forall>x \<in> set (xs @ ys). prio k x = p \<and> status k x = TASK_READY"
    using ok by (simp add: ready_ok_def)
  moreover have "distinct (xs @ ys)" using d(2) by simp
  ultimately show "ready_ok k' p (xs @ ys)"
    using dl by (simp only: ready_ok_def links_only_fields(1,2) [OF lo] simp_thms)
  show "x \<notin> set (xs @ t # ys) \<Longrightarrow> tcbs k' x = tcbs k x" by (rule u(3))
  show "q \<noteq> p \<Longrightarrow> ready_lists k' q = ready_lists k q \<and> ready_tails k' q = ready_tails k q"
    by (simp add: fl)
  have "ready_lists k' p = 0 \<longleftrightarrow> xs @ ys = []" by (rule dll_empty_iff [OF dl])
  then show "ready_bitmap k' = (if xs @ ys = [] then ready_bitmap (rb_clear p k) else ready_bitmap k)"
    using n(3,4) by (auto simp: k'_def rl_remove_def Let_def d(3) rb_clear_def split: if_splits)
  show "tnext k' t = 0" "tprev k' t = 0" by (rule u(4,5))+
qed

lemma rl_remove_frame [simp]:
  "blocked_list (rl_remove t k) = blocked_list k" "delayed_list (rl_remove t k) = delayed_list k"
  "current_task (rl_remove t k) = current_task k" "idle_task (rl_remove t k) = idle_task k"
  "semas (rl_remove t k) = semas k" "rmutexes (rl_remove t k) = rmutexes k"
  by (simp_all add: rl_remove_def Let_def)

lemma rl_remove_inv:
  assumes I: "sched_inv k R B D" and p: "p \<le> 7" "t \<in> set (R p)"
  shows "sched_inv (rl_remove t k) (R(p := remove1 t (R p))) B D" "links_only k (rl_remove t k)"
    "t \<notin> on_lists (R(p := remove1 t (R p))) B D"
proof -
  let ?k = "rl_remove t k"
  obtain xs ys where sp: "R p = xs @ t # ys" using p(2) by (meson split_list)
  have ok: "ready_ok k p (xs @ t # ys)" using sched_invD(1) [OF I p(1)] sp by simp
  note r = rl_remove_ready [OF ok]
  have dist: "distinct (xs @ t # ys)" using ok by (simp add: ready_ok_def)
  then have rm: "remove1 t (R p) = xs @ ys" using sp by (simp add: remove1_append)
  show "sched_inv ?k (R(p := remove1 t (R p))) B D"
  proof (rule sched_inv_upd_ready [OF I p(1)])
    show "ready_ok ?k p (remove1 t (R p))" using r(1) rm by simp
    show "bit (ready_bitmap ?k) q \<longleftrightarrow>
        (if q = p then remove1 t (R p) \<noteq> [] else bit (ready_bitmap k) q)" for q
      using r(5) rb_bit(2) [of p k q] p(1) sched_invD(2) [OF I, of q] rm sp by auto
    show "tcbs ?k x = tcbs k x" if "x \<in> on_lists (R(p := [])) B D" for x
    proof -
      have "x \<notin> set (R p)"
        using that sched_inv_disjoint [OF I] p(1) by (fastforce simp: on_lists_def split: if_splits)
      then show ?thesis using r(3) sp by simp
    qed
  qed (use r(4) in simp_all)
  show "links_only k ?k" by (rule r(2))
  show "t \<notin> on_lists (R(p := remove1 t (R p))) B D"
    using sched_inv_disjoint [OF I] p dist rm sp
    by (fastforce simp: on_lists_def split: if_splits)
qed

lemma rl_pop_head_remove:
  assumes ok: "ready_ok k p xs" "xs \<noteq> []"
  shows "rl_pop_head p k = (hd xs, rl_remove (hd xs) k)"
proof -
  obtain t ys where xs: "xs = t # ys" using ok(2) by (cases xs) auto
  have d: "dll (tnext k) (tprev k) (ready_lists k p) ([] @ t # ys) (ready_tails k p)"
    "distinct ([] @ t # ys)" "prio k t = p"
    using ok xs by (auto simp: ready_ok_def)
  have h: "ready_lists k p = t" using dll_hd [OF d(1)] by simp
  note en = dll_split_ends [OF d(1)] and n = dll_neighbours [OF d(1,2)]
  show ?thesis
    using en(3) n(4) h d(3) unfolding xs rl_pop_head_def rl_remove_def Let_def rb_clear_def
    by (cases "tnext k t = 0") (auto simp: upd_tcb_def)
qed

lemma remove_task_queue:
  assumes ok: "queue_ok k fp (xs @ t # ys) S" and e: "remove_task fp t k = (fp', k')"
  shows "queue_ok k' fp' (xs @ ys) S" "links_only k k'"
    "x \<notin> set (xs @ t # ys) \<Longrightarrow> tcbs k' x = tcbs k x" "tnext k' t = 0" "tprev k' t = 0"
    "k' = k\<lparr>tcbs := tcbs k'\<rparr>"
proof -
  obtain lp where d: "dll (tnext k) (tprev k) fp (xs @ t # ys) lp" "distinct (xs @ t # ys)"
    using ok by (auto simp: queue_ok_def)
  note n = dll_neighbours [OF d(1,2)] and en = dll_split_ends [OF d(1)]
  let ?P = "tprev k t" and ?N = "tnext k t"
  have pn: "?P \<noteq> 0 \<Longrightarrow> ?P \<noteq> ?N"
    using n d(2) by (metis IntI distinct_append empty_iff list.set_intros(2))
  have fp: "fp = t \<longleftrightarrow> ?P = 0" "fp \<noteq> 0"
    using dll_hd [OF d(1)] en(3,5) d(2) dll_not_null [OF d(1)] by (cases xs; auto)+
  have tf: "tcbs k' = unlinked t k" and f: "fp' = (if ?P \<noteq> 0 then fp else ?N)"
    and kk: "k' = k\<lparr>tcbs := tcbs k'\<rparr>"
    using e n(3,4) pn fp en(5) unfolding remove_task_def unlinked_def Let_def
    by (cases "?P = 0"; cases "?N = 0"; auto simp: upd_tcb_def)+
  note u = unlinked_effect [OF d(1,2) tf]
  have "\<forall>x \<in> set (xs @ ys). status k x \<in> S" "distinct (xs @ ys)"
    using ok by (simp_all add: queue_ok_def)
  then show "queue_ok k' fp' (xs @ ys) S"
    using u(1) f unfolding queue_ok_def links_only_fields(1) [OF u(2)] by blast
  show "links_only k k'" by (rule u(2))
  show "x \<notin> set (xs @ t # ys) \<Longrightarrow> tcbs k' x = tcbs k x" by (rule u(3))
  show "tnext k' t = 0" "tprev k' t = 0" by (rule u(4,5))+
  show "k' = k\<lparr>tcbs := tcbs k'\<rparr>" by (rule kk)
qed

lemma links_only_trans:
  assumes "links_only k k'" "links_only k' k''"
  shows "links_only k k''"
  unfolding links_only_def
proof
  fix x
  have e: "tcbs k' x = (tcbs k x)\<lparr>t_next := tnext k' x, t_prev := tprev k' x\<rparr>"
    using assms(1) by (simp add: links_only_def)
  have f: "(tcbs k' x)\<lparr>t_next := a, t_prev := b\<rparr> = (tcbs k x)\<lparr>t_next := a, t_prev := b\<rparr>" for a b
    by (subst e) simp
  have "tcbs k'' x = (tcbs k' x)\<lparr>t_next := tnext k'' x, t_prev := tprev k'' x\<rparr>"
    using assms(2) by (simp add: links_only_def)
  then show "tcbs k'' x = (tcbs k x)\<lparr>t_next := tnext k'' x, t_prev := tprev k'' x\<rparr>"
    unfolding f .
qed

lemma unlink_rezero:
  assumes "tnext k t = 0" "tprev k t = 0"
  shows "upd_tcb t (\<lambda>x. x\<lparr>t_next := 0, t_prev := 0\<rparr>) k = k"
proof -
  have "(tcbs k t)\<lparr>t_next := 0, t_prev := 0\<rparr> = tcbs k t"
    using assms by (intro tcb.equality) simp_all
  then show ?thesis by (simp add: upd_tcb_def fun_upd_idem)
qed

lemma links_only_step:
  "links_only k (upd_tcb a (\<lambda>t. t\<lparr>t_next := n\<rparr>) k)" "links_only k (upd_tcb a (\<lambda>t. t\<lparr>t_prev := n\<rparr>) k)"
  "links_only k (upd_tcb a (\<lambda>t. t\<lparr>t_next := n, t_prev := m\<rparr>) k)"
  "links_only k (k\<lparr>ready_lists := l\<rparr>)" "links_only k (k\<lparr>ready_tails := l\<rparr>)" "links_only k (rb_clear p k)" "links_only k k"
  by (auto simp: links_only_def upd_tcb_def rb_clear_def)

lemma rl_remove_links_only: "links_only k (rl_remove t k)"
proof -
  define k1 where "k1 = (if tprev k t \<noteq> 0 then upd_tcb (tprev k t) (\<lambda>x. x\<lparr>t_next := tnext k t\<rparr>) k
    else k\<lparr>ready_lists := (ready_lists k)(prio k t := tnext k t)\<rparr>)"
  define k2 where "k2 = (if tnext k1 t \<noteq> 0 then upd_tcb (tnext k1 t) (\<lambda>x. x\<lparr>t_prev := tprev k1 t\<rparr>) k1
    else k1\<lparr>ready_tails := (ready_tails k1)(prio k t := tprev k1 t)\<rparr>)"
  define k3 where "k3 = (if ready_lists k2 (prio k t) = 0 then rb_clear (prio k t) k2 else k2)"
  have e: "rl_remove t k = upd_tcb t (\<lambda>t. t\<lparr>t_next := 0, t_prev := 0\<rparr>) k3"
    unfolding rl_remove_def k3_def k2_def k1_def Let_def by (rule refl)
  have l: "links_only k k1" "links_only k1 k2" "links_only k2 k3"
    by (simp_all add: k1_def k2_def k3_def links_only_step)
  show ?thesis
    unfolding e by (rule links_only_trans [OF links_only_trans [OF links_only_trans [OF l(1,2)] l(3)] links_only_step(3)])
qed

lemma remove_task_links_only: "links_only k (snd (remove_task fp t k))"
proof -
  define k1 where "k1 = (if tprev k t \<noteq> 0 then upd_tcb (tprev k t) (\<lambda>x. x\<lparr>t_next := tnext k t\<rparr>) k else k)"
  define k2 where "k2 = (if tnext k1 t \<noteq> 0 then upd_tcb (tnext k1 t) (\<lambda>x. x\<lparr>t_prev := tprev k1 t\<rparr>) k1 else k1)"
  define k3 where "k3 = (if tnext k t \<noteq> 0 then upd_tcb (tnext k t) (\<lambda>x. x\<lparr>t_prev := 0\<rparr>) k else k)"
  define k4 where "k4 = (if tnext k3 t \<noteq> 0 then upd_tcb (tnext k3 t) (\<lambda>x. x\<lparr>t_prev := 0\<rparr>) k3 else k3)"
  have e: "snd (remove_task fp t k) = (if t = 0 \<or> fp = 0 then k
      else upd_tcb t (\<lambda>x. x\<lparr>t_next := 0, t_prev := 0\<rparr>) (if fp = t then k4 else k2))"
    unfolding remove_task_def k4_def k3_def k2_def k1_def by (simp add: Let_def)
  have l: "links_only k k1" "links_only k1 k2" "links_only k k3" "links_only k3 k4"
    by (simp_all add: k1_def k2_def k3_def k4_def links_only_step)
  have "links_only k (if fp = t then k4 else k2)"
    using links_only_trans [OF l(1,2)] links_only_trans [OF l(3,4)] by simp
  then show ?thesis
    unfolding e using links_only_trans [OF _ links_only_step(3)] links_only_step(7) by simp
qed

lemma remove_from_blocked_list_inv:
  assumes I: "sched_inv k R B D" and t: "t \<in> set B"
  defines "k' \<equiv> remove_from_blocked_list t k"
  shows "sched_inv k' R (remove1 t B) D" "links_only k k'" "t \<notin> on_lists R (remove1 t B) D"
    "k' = k\<lparr>tcbs := tcbs k', blocked_list := blocked_list k'\<rparr>"
    "x \<notin> set B \<Longrightarrow> tcbs k' x = tcbs k x"
proof -
  obtain xs ys where sp: "B = xs @ t # ys" using t by (meson split_list)
  have ok: "queue_ok k (blocked_list k) (xs @ t # ys) {TASK_BLOCKED, TASK_TERMINATED}"
    using sched_invD(3) [OF I] sp by simp
  obtain l k1 where e: "remove_task (blocked_list k) t k = (l, k1)" by fastforce
  note r = remove_task_queue [OF ok e]
  have k': "k' = k1\<lparr>blocked_list := l\<rparr>"
    using e unlink_rezero [of "k1\<lparr>blocked_list := l\<rparr>" t] r(4,5)
    by (simp add: k'_def remove_from_blocked_list_def)
  have dist: "distinct (xs @ t # ys)" using ok by (simp add: queue_ok_def)
  then have rm: "remove1 t B = xs @ ys" using sp by (simp add: remove1_append)
  have fr: "ready_lists k1 = ready_lists k" "ready_tails k1 = ready_tails k"
    "delayed_list k1 = delayed_list k" "ready_bitmap k1 = ready_bitmap k"
    using arg_cong [OF r(6), of ready_lists] arg_cong [OF r(6), of ready_tails]
      arg_cong [OF r(6), of delayed_list] arg_cong [OF r(6), of ready_bitmap] by simp_all
  have q: "queue_ok k' l (xs @ ys) S = queue_ok k1 l (xs @ ys) S" for S
    by (rule queue_ok_cong) (simp add: k')
  show "sched_inv k' R (remove1 t B) D"
  proof (rule sched_inv_upd_blocked [OF I])
    show "queue_ok k' (blocked_list k') (remove1 t B) {TASK_BLOCKED, TASK_TERMINATED}"
      using r(1) q rm by (simp add: k')
    show "tcbs k' x = tcbs k x" if "x \<in> on_lists R [] D" for x
    proof -
      have "x \<notin> set B" using that sched_inv_disjoint [OF I] by (fastforce simp: on_lists_def)
      then show ?thesis using r(3) sp by (simp add: k')
    qed
  qed (use fr in \<open>simp_all add: k'\<close>)
  show "links_only k k'" using r(2) by (simp add: k' links_only_def)
  show "t \<notin> on_lists R (remove1 t B) D"
    using sched_inv_disjoint [OF I] t dist rm by (fastforce simp: on_lists_def)
  show "k' = k\<lparr>tcbs := tcbs k', blocked_list := blocked_list k'\<rparr>" using r(6) by (simp add: k')
  show "x \<notin> set B \<Longrightarrow> tcbs k' x = tcbs k x" using r(3) sp by (simp add: k')
qed

lemma last_task_list:
  assumes "dseg (tnext k) (tprev k) p fp xs lp 0" "xs \<noteq> []"
  shows "last_task k fp = Some (last xs)"
  using assms
proof (induction xs arbitrary: p fp)
  case (Cons a as)
  then have a: "fp = a" "dseg (tnext k) (tprev k) a (tnext k a) as lp 0" by auto
  show ?case
  proof (cases "as = []")
    case True
    then show ?thesis using a by (subst last_task.simps) auto
  next
    case False
    then have "tnext k a \<noteq> 0" using a(2) by (cases as) auto
    then show ?thesis using Cons.IH [OF a(2) False] a(1) False by (subst last_task.simps) simp
  qed
qed simp

text \<open>Appending to the blocked list.\<close>

lemma enqueue_task_queue:
  assumes ok: "queue_ok k fp xs S" and t: "t \<noteq> 0" "t \<notin> set xs"
  shows "\<exists>k'. enqueue_task fp t k = Inr (if xs = [] then t else fp, k') \<and>
    (\<exists>lp. dll (tnext k') (tprev k') (if xs = [] then t else fp) (xs @ [t]) lp) \<and>
    links_only k k' \<and> (\<forall>x. x \<notin> insert t (set xs) \<longrightarrow> tcbs k' x = tcbs k x) \<and>
    (\<exists>T. k' = k\<lparr>tcbs := T\<rparr>)"
proof -
  obtain lp where d: "dll (tnext k) (tprev k) fp xs lp" "distinct xs"
    using ok by (auto simp: queue_ok_def)
  note tl = dll_tl [OF d(1)] and em = dll_empty_iff [OF d(1)]
  let ?k1 = "upd_tcb t (\<lambda>x. x\<lparr>t_next := 0, t_prev := 0\<rparr>) k"
  show ?thesis
  proof (cases "xs = []")
    case True
    then have "enqueue_task fp t k = Inr (t, ?k1)" using em t by (simp add: enqueue_task_def)
    moreover have "dll (tnext ?k1) (tprev ?k1) t [t] t" using t by (simp add: dll_def)
    moreover have "links_only k ?k1" "\<forall>x. x \<notin> insert t (set xs) \<longrightarrow> tcbs ?k1 x = tcbs k x"
      "\<exists>T. ?k1 = k\<lparr>tcbs := T\<rparr>"
      by (auto simp: links_only_def upd_tcb_def)
    ultimately show ?thesis using True by auto
  next
    case False
    have d1: "dll (tnext ?k1) (tprev ?k1) fp xs lp"
      using d(1) t(2) by (subst dll_cong [of xs _ "tnext k" _ "tprev k"]) auto
    have lw: "last_task ?k1 fp = Some (last xs)"
      using d1 False by (intro last_task_list) (simp_all add: dll_def)
    have lt: "last xs \<in> set xs" "last xs \<noteq> t" "lp = last xs" using False t(2) tl by auto
    define k' where "k' = upd_tcb t (\<lambda>x. x\<lparr>t_prev := last xs\<rparr>)
      (upd_tcb (last xs) (\<lambda>x. x\<lparr>t_next := t\<rparr>) ?k1)"
    have e: "enqueue_task fp t k = Inr (fp, k')"
      using False em t lw by (simp add: enqueue_task_def k'_def Let_def)
    have "dll (tnext k') (tprev k') (if xs = [] then t else fp) (xs @ [t]) t"
      by (rule dll_snoc [OF d1 d(2) t]) (use lt t in \<open>auto simp: k'_def\<close>)
    moreover have "links_only k k'" "\<forall>x. x \<notin> insert t (set xs) \<longrightarrow> tcbs k' x = tcbs k x"
      "\<exists>T. k' = k\<lparr>tcbs := T\<rparr>"
      using lt by (auto simp: links_only_def k'_def upd_tcb_def)
    ultimately show ?thesis using e False by auto
  qed
qed

lemma dll_insert:
  assumes d: "dll nx pv fp (xs @ ys) lp" "distinct (xs @ ys)" and x: "xs \<noteq> []"
    and t: "t \<noteq> 0" "t \<notin> set (xs @ ys)"
    and n: "nx' t = nx (last xs)" "pv' t = last xs" "nx' (last xs) = t"
      "nx (last xs) \<noteq> 0 \<Longrightarrow> pv' (nx (last xs)) = t"
    and o: "\<And>c. c \<in> set (xs @ ys) \<Longrightarrow> c \<noteq> last xs \<Longrightarrow> nx' c = nx c"
      "\<And>c. c \<in> set (xs @ ys) \<Longrightarrow> c \<noteq> nx (last xs) \<Longrightarrow> pv' c = pv c"
  shows "\<exists>lp'. dll nx' pv' fp (xs @ t # ys) lp'"
proof -
  obtain r y where l: "dseg nx pv 0 fp xs r y" and s: "dseg nx pv r y ys lp 0"
    using d(1) by (auto simp: dll_def dll_simps)
  have r: "r = last xs" using dseg_ends [OF l] x by auto
  obtain as where xs: "xs = as @ [r]" using x r append_butlast_last_id by metis
  have y: "y = nx r" using l xs by (auto simp: dll_simps)
  have ys: "y = (case ys of [] \<Rightarrow> 0 | b # _ \<Rightarrow> b)" using dseg_ends [OF s] by simp
  have yx: "y \<notin> set xs" using ys d(2) dseg_not_null [OF l] by (cases ys) auto
  have "dseg nx' pv' 0 (if xs = [] then t else fp) xs r t"
  proof (rule dseg_retarget_next [OF l])
    show "pv' b = pv b" if "b \<in> set xs" for b
      using that o(2) [of b] yx y r by force
    show "nx' b = nx b" if "b \<in> set xs" "b \<noteq> r" for b using that o(1) [of b] r by simp
    show "nx' r = t" using n(3) r by simp
  qed (use d(2) in simp)
  moreover have "dseg nx' pv' t y ys (if ys = [] then t else lp) 0"
  proof (rule dseg_retarget_prev [OF s])
    show "nx' b = nx b" if "b \<in> set ys" for b
      using that o(1) [of b] d(2) last_in_set [OF x] by auto
    show "pv' b = pv b" if "b \<in> set ys" "b \<noteq> y" for b using that o(2) [of b] y r by auto
    show "pv' y = t" if "ys \<noteq> []"
      using that n(4) ys dseg_not_null [OF s] y r by (cases ys) auto
  qed (use d(2) in simp)
  ultimately show ?thesis
    using x t n(1,2) r y unfolding dll_def dseg_append by auto
qed

lemma add_to_blocked_list_inv:
  assumes I: "sched_inv k R B D" and t: "t \<noteq> 0" "t \<notin> on_lists R B D"
  shows "\<exists>k'. add_to_blocked_list t k = Inr k' \<and> sched_inv k' R (B @ [t]) D \<and>
    links_only (upd_tcb t (\<lambda>x. x\<lparr>t_status := TASK_BLOCKED\<rparr>) k) k' \<and>
    (\<forall>x. x \<notin> insert t (set B) \<longrightarrow> tcbs k' x = tcbs k x) \<and>
    k' = k\<lparr>tcbs := tcbs k', blocked_list := blocked_list k'\<rparr>"
proof -
  let ?S = "{TASK_BLOCKED, TASK_TERMINATED}"
  have tB: "t \<notin> set B" using t(2) by (auto simp: on_lists_def)
  have ok: "queue_ok k (blocked_list k) B ?S" by (rule sched_invD(3) [OF I])
  obtain k1 lp where e: "enqueue_task (blocked_list k) t k = Inr (if B = [] then t else blocked_list k, k1)"
    and d: "dll (tnext k1) (tprev k1) (if B = [] then t else blocked_list k) (B @ [t]) lp"
    and lo: "links_only k k1" and fr: "\<forall>x. x \<notin> insert t (set B) \<longrightarrow> tcbs k1 x = tcbs k x"
    and kk: "\<exists>T. k1 = k\<lparr>tcbs := T\<rparr>"
    using enqueue_task_queue [OF ok t(1) tB] by blast
  define k' where "k' = upd_tcb t (\<lambda>t. t\<lparr>t_status := TASK_BLOCKED\<rparr>)
    (k1\<lparr>blocked_list := (if B = [] then t else blocked_list k)\<rparr>)"
  have res: "add_to_blocked_list t k = Inr k'" by (simp add: add_to_blocked_list_def e k'_def)
  have f1: "ready_lists k1 = ready_lists k" "ready_tails k1 = ready_tails k"
    "delayed_list k1 = delayed_list k" "ready_bitmap k1 = ready_bitmap k"
    using kk by auto
  have dd: "dll (tnext k') (tprev k') (blocked_list k') (B @ [t]) lp"
    using d by (subst dll_cong [of _ _ "tnext k1" _ "tprev k1"]) (auto simp: k'_def)
  have st: "status k' x \<in> ?S" if "x \<in> set (B @ [t])" for x
    using that sched_inv_status(2) [OF I, of x] links_only_fields(1) [OF lo, of x]
    by (cases "x = t") (auto simp: k'_def)
  have q: "queue_ok k' (blocked_list k') (B @ [t]) ?S"
    using dd st tB ok unfolding queue_ok_def by auto
  have fr': "tcbs k' x = tcbs k x" if "x \<notin> insert t (set B)" for x
    using that fr by (simp add: k'_def)
  have "sched_inv k' R (B @ [t]) D"
  proof (rule sched_inv_upd_blocked [OF I q])
    show "tcbs k' x = tcbs k x" if "x \<in> on_lists R [] D" for x
    proof (rule fr')
      show "x \<notin> insert t (set B)"
        using that t(2) sched_inv_disjoint [OF I] by (fastforce simp: on_lists_def)
    qed
  qed (use f1 in \<open>simp_all add: k'_def\<close>)
  moreover have "links_only (upd_tcb t (\<lambda>x. x\<lparr>t_status := TASK_BLOCKED\<rparr>) k) k'"
  proof -
    have e1: "tcbs k1 t = (tcbs k t)\<lparr>t_next := tnext k1 t, t_prev := tprev k1 t\<rparr>"
      using lo by (simp add: links_only_def)
    have "(tcbs k1 t)\<lparr>t_status := TASK_BLOCKED\<rparr> =
        (tcbs k t)\<lparr>t_status := TASK_BLOCKED, t_next := tnext k1 t, t_prev := tprev k1 t\<rparr>"
      by (subst e1) simp
    then show ?thesis using lo by (simp add: links_only_def k'_def)
  qed
  moreover have "k' = k\<lparr>tcbs := tcbs k', blocked_list := blocked_list k'\<rparr>"
  proof -
    obtain T where "k1 = k\<lparr>tcbs := T\<rparr>" using kk by blast
    then show ?thesis by (simp add: k'_def upd_tcb_def)
  qed
  ultimately show ?thesis using res fr' by blast
qed

abbreviation delay_of :: "kernel \<Rightarrow> nat \<Rightarrow> nat" where
  "delay_of k t \<equiv> t_delay_ticks (tcbs k t)"

lemma remove_from_delayed_list_inv:
  assumes I: "sched_inv k R B D" and t: "t \<in> set D"
  defines "k' \<equiv> remove_from_delayed_list t k"
  shows "sched_inv k' R B (remove1 t D)" "links_only k k'" "t \<notin> on_lists R B (remove1 t D)"
    "\<exists>T l. k' = k\<lparr>tcbs := T, delayed_list := l\<rparr>"
proof -
  obtain xs ys where sp: "D = xs @ t # ys" using t by (meson split_list)
  have ok: "queue_ok k (delayed_list k) (xs @ t # ys) {TASK_DELAYED}"
    using sched_invD(4) [OF I] sp by simp
  obtain l k1 where e: "remove_task (delayed_list k) t k = (l, k1)" by fastforce
  note r = remove_task_queue [OF ok e]
  obtain T where T: "k1 = k\<lparr>tcbs := T\<rparr>" using r(6) by blast
  have k': "k' = k1\<lparr>delayed_list := l\<rparr>"
    using e unlink_rezero [of "k1\<lparr>delayed_list := l\<rparr>" t] r(4,5)
    by (simp add: k'_def remove_from_delayed_list_def)
  have dist: "distinct (xs @ t # ys)" using ok by (simp add: queue_ok_def)
  then have rm: "remove1 t D = xs @ ys" using sp by (simp add: remove1_append)
  have q: "queue_ok k' l (xs @ ys) S = queue_ok k1 l (xs @ ys) S" for S
    by (rule queue_ok_cong) (simp add: k')
  show lo: "links_only k k'" using r(2) by (simp add: k' links_only_def)
  show "sched_inv k' R B (remove1 t D)"
  proof (rule sched_inv_upd_delayed [OF I])
    show "queue_ok k' (delayed_list k') (remove1 t D) {TASK_DELAYED}"
      using r(1) q rm by (simp add: k')
    show "sorted (map (delay_of k') (remove1 t D))"
      using sched_invD(5) [OF I] unfolding links_only_fields(3) [OF lo] by (rule sorted_map_remove1)
    show "tcbs k' x = tcbs k x" if "x \<in> on_lists R B []" for x
    proof -
      have "x \<notin> set D" using that sched_inv_disjoint [OF I] by (fastforce simp: on_lists_def)
      then show ?thesis using r(3) sp by (simp add: k')
    qed
  qed (simp_all add: k' T)
  show "t \<notin> on_lists R B (remove1 t D)"
    using sched_inv_disjoint [OF I] t dist rm by (fastforce simp: on_lists_def)
  show "\<exists>T l. k' = k\<lparr>tcbs := T, delayed_list := l\<rparr>" unfolding k' T by (intro exI) (rule refl)
qed

text \<open>The position at which \<open>add_to_delayed_list\<close> inserts: behind every deadline up to its own.\<close>

definition delay_insert :: "(nat \<Rightarrow> nat) \<Rightarrow> nat \<Rightarrow> nat list \<Rightarrow> nat list" where
  "delay_insert f t D = takeWhile (\<lambda>x. f x \<le> f t) D @ t # dropWhile (\<lambda>x. f x \<le> f t) D"

lemma set_delay_insert [simp]: "set (delay_insert f t D) = insert t (set D)"
proof -
  have "set (takeWhile P D) \<union> set (dropWhile P D) = set D" for P
    by (metis set_append takeWhile_dropWhile_id)
  then show ?thesis by (auto simp: delay_insert_def)
qed

lemma distinct_delay_insert:
  assumes "distinct D" "t \<notin> set D"
  shows "distinct (delay_insert f t D)"
proof -
  let ?P = "\<lambda>x. f x \<le> f t"
  have "distinct (takeWhile ?P D @ dropWhile ?P D)" using assms by simp
  then have "distinct (takeWhile ?P D)" "distinct (dropWhile ?P D)"
    "set (takeWhile ?P D) \<inter> set (dropWhile ?P D) = {}"
    by (simp_all only: distinct_append)
  moreover have "t \<notin> set (takeWhile ?P D)" "t \<notin> set (dropWhile ?P D)"
    using assms(2) by (metis set_takeWhileD, metis set_dropWhileD)
  ultimately show ?thesis by (simp add: delay_insert_def)
qed

lemma sorted_delay_insert:
  assumes "sorted (map f D)"
  shows "sorted (map f (delay_insert f t D))"
proof -
  let ?P = "\<lambda>x. f x \<le> f t"
  have s: "sorted (map f (takeWhile ?P D))" "sorted (map f (dropWhile ?P D))"
    using assms by (metis map_append sorted_append takeWhile_dropWhile_id)+
  have hi: "f t < f x" if "x \<in> set (dropWhile ?P D)" for x
  proof (cases "dropWhile ?P D")
    case (Cons y zs)
    have "\<not> ?P y" using hd_dropWhile [of ?P D] Cons by simp
    moreover have "f y \<le> f x" using s(2) that Cons by auto
    ultimately show ?thesis by simp
  next
    case Nil
    then show ?thesis using that by (simp only: Nil list.set empty_iff)
  qed
  have lo: "f x \<le> f t" if "x \<in> set (takeWhile ?P D)" for x
    using set_takeWhileD [OF that] by simp
  show ?thesis
    using s hi lo by (fastforce simp: delay_insert_def sorted_append)
qed

lemma delay_pos_list:
  assumes "dseg (tnext k) (tprev k) p a (a # as) lp 0"
  shows "delay_pos k d a = Some (last (a # takeWhile (\<lambda>x. delay_of k x \<le> d) as))"
  using assms
proof (induction as arbitrary: p a)
  case Nil
  then have "tnext k a = 0" by auto
  then show ?case by (subst delay_pos.simps) simp
next
  case (Cons b as)
  then have b: "tnext k a = b" "b \<noteq> 0" "dseg (tnext k) (tprev k) a b (b # as) lp 0" by auto
  show ?case
  proof (cases "delay_of k b \<le> d")
    case True
    then show ?thesis using Cons.IH [OF b(3)] b(1,2) by (subst delay_pos.simps) simp
  next
    case False
    then show ?thesis using b(1,2) by (subst delay_pos.simps) simp
  qed
qed

lemma add_to_delayed_list_link:
  assumes ok: "queue_ok k (delayed_list k) D S" and t: "t \<noteq> 0" "t \<notin> set D"
  shows "\<exists>k' lp. add_to_delayed_list t k = Inr k' \<and>
    dll (tnext k') (tprev k') (delayed_list k') (delay_insert (delay_of k) t D) lp \<and>
    links_only (upd_tcb t (\<lambda>x. x\<lparr>t_status := TASK_DELAYED\<rparr>) k) k' \<and>
    (\<forall>x. x \<notin> insert t (set D) \<longrightarrow> tcbs k' x = tcbs k x) \<and>
    (\<exists>T l. k' = k\<lparr>tcbs := T, delayed_list := l\<rparr>)"
proof -
  obtain lp where d: "dll (tnext k) (tprev k) (delayed_list k) D lp" "distinct D"
    using ok by (auto simp: queue_ok_def)
  let ?k1 = "upd_tcb t (\<lambda>x. x\<lparr>t_next := 0, t_prev := 0, t_status := TASK_DELAYED\<rparr>) k"
  let ?h = "delayed_list k"
  note em = dll_empty_iff [OF d(1)] and hd = dll_hd [OF d(1)]
  have d1: "dll (tnext ?k1) (tprev ?k1) ?h D lp"
    using d(1) t(2) by (subst dll_cong [of D _ "tnext k" _ "tprev k"]) auto
  show ?thesis
  proof (cases "D = [] \<or> delay_of k t < delay_of k ?h")
    case True
    have hh: "?h \<noteq> t" using hd t by (auto split: list.splits)
    define k2 where "k2 = upd_tcb t (\<lambda>x. x\<lparr>t_next := ?h\<rparr>) ?k1"
    define k' where "k' = (if ?h \<noteq> 0 then upd_tcb ?h (\<lambda>x. x\<lparr>t_prev := t\<rparr>) k2 else k2)
        \<lparr>delayed_list := t\<rparr>"
    have e: "add_to_delayed_list t k = Inr k'"
      using True em hh t by (auto simp: add_to_delayed_list_def k'_def k2_def Let_def)
    have ins: "delay_insert (delay_of k) t D = t # D"
      using True hd by (cases D) (auto simp: delay_insert_def)
    have "dll (tnext k') (tprev k') t (t # D) (if D = [] then t else lp)"
      by (rule dll_push [OF d1 d(2) t]) (use hh t in \<open>auto simp: k'_def k2_def\<close>)
    moreover have "links_only (upd_tcb t (\<lambda>x. x\<lparr>t_status := TASK_DELAYED\<rparr>) k) k'"
      using hh by (auto simp: links_only_def k'_def k2_def)
    moreover have "\<forall>x. x \<notin> insert t (set D) \<longrightarrow> tcbs k' x = tcbs k x"
    proof -
      have "?h \<noteq> 0 \<Longrightarrow> ?h \<in> set D" using hd by (cases D) simp_all
      then show ?thesis by (auto simp: k'_def k2_def)
    qed
    moreover have "\<exists>T l. k' = k\<lparr>tcbs := T, delayed_list := l\<rparr>"
      unfolding k'_def k2_def upd_tcb_def by (cases "?h \<noteq> 0") auto
    moreover have "delayed_list k' = t" by (simp add: k'_def)
    ultimately show ?thesis using e ins by metis
  next
    case False
    let ?P = "\<lambda>x. delay_of k x \<le> delay_of k t"
    obtain a as where D: "D = a # as" using False by (cases D) auto
    have a: "?h = a" "?P a" using hd D False by auto
    define xs where "xs = takeWhile ?P D"
    define ys where "ys = dropWhile ?P D"
    have xy: "D = xs @ ys" by (simp add: xs_def ys_def)
    have xne: "xs \<noteq> []" "xs = a # takeWhile ?P as" using D a by (simp_all add: xs_def)
    have ta: "t \<noteq> a" "t \<notin> set as" "a \<noteq> 0" using t(2) D dll_not_null [OF d(1)] by auto
    have tw: "takeWhile (\<lambda>x. delay_of ?k1 x \<le> delay_of k t) as = takeWhile ?P as"
      by (rule takeWhile_cong) (use ta in auto)
    have "dseg (tnext ?k1) (tprev ?k1) 0 a (a # as) lp 0" using d1 a D by (simp add: dll_def)
    from delay_pos_list [OF this, of "delay_of k t"]
    have dp: "delay_pos ?k1 (delay_of k t) a = Some (last xs)" unfolding tw xne(2) .
    have lx: "last xs \<in> set D" using last_in_set [OF xne(1)] xy by simp
    then have lx: "last xs \<in> set D" "last xs \<noteq> t" using t(2) by auto
    let ?N = "tnext k (last xs)"
    have nN: "?N \<noteq> last xs" "?N \<noteq> t"
    proof -
      obtain zs where "xs = zs @ [last xs]" using xne(1) append_butlast_last_id by metis
      then have "dll (tnext k) (tprev k) ?h (zs @ last xs # ys) lp" "distinct (zs @ last xs # ys)"
        using d xy by (metis append_Cons append_Nil append_assoc)+
      from dll_neighbours(2,4) [OF this] show "?N \<noteq> last xs" "?N \<noteq> t" using t xy by auto
    qed
    define k2 where "k2 = upd_tcb t (\<lambda>x. x\<lparr>t_next := ?N, t_prev := last xs\<rparr>) ?k1"
    define k3 where "k3 = (if ?N \<noteq> 0 then upd_tcb ?N (\<lambda>x. x\<lparr>t_prev := t\<rparr>) k2 else k2)"
    define k' where "k' = upd_tcb (last xs) (\<lambda>x. x\<lparr>t_next := t\<rparr>) k3"
    have e: "add_to_delayed_list t k = Inr k'"
      using False em t a ta dp lx nN
      by (simp add: add_to_delayed_list_def k'_def k3_def k2_def Let_def)
    have nx: "tnext k' x = (if x = t then ?N else if x = last xs then t else tnext k x)" for x
      using lx nN by (auto simp: k'_def k3_def k2_def)
    have pv: "tprev k' x = (if x = t then last xs else if x = ?N \<and> ?N \<noteq> 0 then t else tprev k x)" for x
      using lx nN by (auto simp: k'_def k3_def k2_def)
    have "\<exists>lp'. dll (tnext k') (tprev k') ?h (xs @ t # ys) lp'"
      by (rule dll_insert [of "tnext k" "tprev k" ?h xs ys lp])
        (use d t xy xne nN lx in \<open>auto simp: nx pv\<close>)
    moreover have "delay_insert (delay_of k) t D = xs @ t # ys"
      by (simp add: delay_insert_def xs_def ys_def)
    moreover have "links_only (upd_tcb t (\<lambda>x. x\<lparr>t_status := TASK_DELAYED\<rparr>) k) k'"
      using lx nN by (auto simp: links_only_def k'_def k3_def k2_def)
    moreover have "\<forall>x. x \<notin> insert t (set D) \<longrightarrow> tcbs k' x = tcbs k x"
    proof -
      have "?N \<noteq> 0 \<Longrightarrow> ?N \<in> set D"
      proof -
        assume "?N \<noteq> 0"
        obtain zs where "xs = zs @ [last xs]" using xne(1) append_butlast_last_id by metis
        then have "dll (tnext k) (tprev k) ?h (zs @ last xs # ys) lp" "distinct (zs @ last xs # ys)"
          using d xy by (metis append_Cons append_Nil append_assoc)+
        from dll_neighbours(2) [OF this \<open>?N \<noteq> 0\<close>] show "?N \<in> set D" using xy by auto
      qed
      then show ?thesis using lx by (auto simp: k'_def k3_def k2_def)
    qed
    moreover have "\<exists>T l. k' = k\<lparr>tcbs := T, delayed_list := l\<rparr>"
      unfolding k'_def k3_def k2_def upd_tcb_def
      by (intro exI [of _ "tcbs k'"] exI [of _ ?h]) (simp add: k'_def k3_def k2_def upd_tcb_def)
    moreover have "delayed_list k' = ?h" by (simp add: k'_def k3_def k2_def)
    ultimately show ?thesis using e by metis
  qed
qed

lemma add_to_delayed_list_inv:
  assumes I: "sched_inv k R B D" and t: "t \<noteq> 0" "t \<notin> on_lists R B D"
  shows "\<exists>k'. add_to_delayed_list t k = Inr k' \<and>
    sched_inv k' R B (delay_insert (delay_of k) t D) \<and>
    links_only (upd_tcb t (\<lambda>x. x\<lparr>t_status := TASK_DELAYED\<rparr>) k) k' \<and>
    (\<exists>T l. k' = k\<lparr>tcbs := T, delayed_list := l\<rparr>)"
proof -
  have tD: "t \<notin> set D" using t(2) by (auto simp: on_lists_def)
  have ok: "queue_ok k (delayed_list k) D {TASK_DELAYED}" by (rule sched_invD(4) [OF I])
  obtain k' lp where e: "add_to_delayed_list t k = Inr k'"
    and d: "dll (tnext k') (tprev k') (delayed_list k') (delay_insert (delay_of k) t D) lp"
    and lo: "links_only (upd_tcb t (\<lambda>x. x\<lparr>t_status := TASK_DELAYED\<rparr>) k) k'"
    and fr: "\<forall>x. x \<notin> insert t (set D) \<longrightarrow> tcbs k' x = tcbs k x"
    and ex: "\<exists>T l. k' = k\<lparr>tcbs := T, delayed_list := l\<rparr>"
    using add_to_delayed_list_link [OF ok t(1) tD] by blast
  have dly: "delay_of k' x = delay_of k x" for x
    using links_only_fields(3) [OF lo, of x] by simp
  have st: "status k' x = TASK_DELAYED" if "x \<in> insert t (set D)" for x
    using links_only_fields(1) [OF lo, of x] that sched_inv_status(3) [OF I, of x] by auto
  have "sched_inv k' R B (delay_insert (delay_of k) t D)"
  proof (rule sched_inv_upd_delayed [OF I])
    have "distinct D" using ok by (simp add: queue_ok_def)
    then show "queue_ok k' (delayed_list k') (delay_insert (delay_of k) t D) {TASK_DELAYED}"
      using d st distinct_delay_insert [OF _ tD] unfolding queue_ok_def by auto
    show "sorted (map (delay_of k') (delay_insert (delay_of k) t D))"
      unfolding dly by (rule sorted_delay_insert [OF sched_invD(5) [OF I]])
    show "tcbs k' x = tcbs k x" if "x \<in> on_lists R B []" for x
    proof -
      have "x \<notin> insert t (set D)"
        using that t(2) sched_inv_disjoint [OF I] by (fastforce simp: on_lists_def)
      then show ?thesis using fr by blast
    qed
  qed (use ex in auto)
  then show ?thesis using e lo ex by blast
qed

end
