(* ===== verification/Scheduler.thy ===== *)
theory Scheduler
  imports Sched_Lists
begin

text \<open>
  The scheduler of \<open>kernel/task.c\<close>: the choice of the next task, delays and their wake-up
  from the tick interrupt, blocking, priorities, and the accounting hooks of \<open>perf.c\<close> it
  calls. \<open>v_kernel_tick\<close> is from \<open>kernel/utils.c\<close>.

  \<open>v_port_ptr_is_ram\<close> depends on the linker symbol \<open>_estack\<close> and is the parameter \<open>ram\<close>.
  Loops over linked lists are \<open>partial_function (option)\<close>; they end on every list that
  satisfies \<open>sched_inv\<close>.
\<close>

section \<open>Definitions\<close>

subsection \<open>Accounting\<close>

definition v_perf_cycles :: "perf_sched \<Rightarrow> 64 word \<times> perf_sched" where
  "v_perf_cycles p =
     (let now = pc_raw p;
          lst = pc_last p;
          p = (if now < lst then p\<lparr>pc_high := pc_high p + 2 ^ 32\<rparr> else p);
          p = p\<lparr>pc_last := now\<rparr>
      in (pc_high p + ucast now, p))"

definition v_perf_on_sched_switch :: "nat \<Rightarrow> nat \<Rightarrow> kernel \<Rightarrow> kernel" where
  "v_perf_on_sched_switch prv nxt k =
     (let (now, ps) = v_perf_cycles (k_perf_sched k);
          k = k\<lparr>k_perf_sched := ps\<rparr>;
          k = (if prv \<noteq> 0 then
                 let delta = now - pt_last_scheduled_cyc (t_perf (tcbs k prv));
                     k = upd_tcb prv (\<lambda>t. t\<lparr>t_perf := (t_perf t)
                           \<lparr>pt_cycles_run := pt_cycles_run (t_perf t) + delta\<rparr>\<rparr>) k;
                     k = (if delta > ucast (pt_max_burst_cyc (t_perf (tcbs k prv)))
                          then upd_tcb prv (\<lambda>t. t\<lparr>t_perf := (t_perf t)
                                 \<lparr>pt_max_burst_cyc := (if delta > 0xFFFFFFFF then 0xFFFFFFFF
                                    else ucast delta)\<rparr>\<rparr>) k
                          else k)
                 in (if prv = idle_task k
                     then k\<lparr>k_perf_sched := (k_perf_sched k)
                            \<lparr>ps_idle_cycles := ps_idle_cycles (k_perf_sched k) + delta\<rparr>\<rparr>
                     else k)
               else k);
          k = (if nxt \<noteq> 0 then
                 upd_tcb nxt (\<lambda>t. t\<lparr>t_perf := (t_perf t)\<lparr>pt_last_scheduled_cyc := now,
                   pt_switches_in := pt_switches_in (t_perf t) + 1\<rparr>\<rparr>) k
               else k)
      in k\<lparr>k_perf_sched := (k_perf_sched k)\<lparr>ps_switches := ps_switches (k_perf_sched k) + 1\<rparr>\<rparr>)"

definition v_perf_on_isr_systick_exit :: "u32w \<Rightarrow> bool \<Rightarrow> perf_isr \<Rightarrow> perf_isr" where
  "v_perf_on_isr_systick_exit d preempted q =
     (let q = q\<lparr>pq_count := pq_count q + 1, pq_last := d\<rparr>;
          q = (if pq_min q = 0 \<or> d < pq_min q then q\<lparr>pq_min := d\<rparr> else q);
          q = (if d > pq_max q then q\<lparr>pq_max := d\<rparr> else q)
      in if preempted then q\<lparr>pq_preemptions := pq_preemptions q + 1\<rparr> else q)"

subsection \<open>Choosing the next task\<close>

abbreviation (input) TASK_STACK_OVERFLOW_THRESHOLD :: nat where
  "TASK_STACK_OVERFLOW_THRESHOLD \<equiv> 64"

definition get_next_task :: "(nat \<Rightarrow> bool) \<Rightarrow> kernel \<Rightarrow> (nat \<times> kernel) kres" where
  "get_next_task ram k =
     (let perf_prev = current_task k;
          now = (of_nat (ticks k) :: u32w);
          k = upd_tcb (current_task k)
                (\<lambda>t. t\<lparr>t_ticks_run := t_ticks_run t + (now - last_context_switch_tick k)\<rparr>) k;
          k = k\<lparr>last_context_switch_tick := now\<rparr>;
          k = (if current_task k \<noteq> 0 \<and> status k (current_task k) = TASK_RUNNING
               then rl_append (current_task k) k else k)
      in kbind
        (case highest_ready_prio k of
           Some p \<Rightarrow>
             let (t, k) = rl_pop_head p k
             in if \<not> ram t \<or> prio k t > MAX_PRIORITY then Inl K_Panic
                else Inr (k\<lparr>current_task := t\<rparr>)
         | None \<Rightarrow>
             Inr (if status k (current_task k) \<noteq> TASK_RUNNING
                  then k\<lparr>current_task := idle_task k\<rparr> else k))
        (\<lambda>k. let k = upd_tcb (current_task k) (\<lambda>t. t\<lparr>t_status := TASK_RUNNING\<rparr>) k;
                 k = k\<lparr>context_switch_count := context_switch_count k + 1\<rparr>;
                 k = v_perf_on_sched_switch perf_prev (current_task k) k;
                 c = current_task k
             in if t_sp (tcbs k c) < t_mem_block (tcbs k c) + TASK_STACK_OVERFLOW_THRESHOLD
                then Inl K_Panic else Inr (c, k)))"

definition set_next_task :: "(nat \<Rightarrow> bool) \<Rightarrow> kernel \<Rightarrow> kernel kres" where
  "set_next_task ram k =
     kbind (get_next_task ram k) (\<lambda>(t, k). if t = 0 then Inl K_Panic else Inr k)"

subsection \<open>Delays\<close>

definition task_delay :: "nat \<Rightarrow> kernel \<Rightarrow> kernel kres" where
  "task_delay n k =
     (if current_task k = 0 then Inl K_Panic
      else if current_task k = idle_task k then Inr k
      else if n = 0 then Inr k
      else
        let c = current_task k;
            k = upd_tcb c (\<lambda>t. t\<lparr>t_delay_ticks := u32 (ticks k + n),
                  t_status := TASK_DELAYED\<rparr>) k
        in kbind (add_to_delayed_list c k) (\<lambda>k. Inr (k\<lparr>pendsv := True\<rparr>)))"

text \<open>
  \<open>task_delay_until\<close>; \<open>last_wake\<close> is the caller's variable, \<open>None\<close> a NULL pointer. The signed
  comparison \<open>(int32_t)(wake - now) <= 0\<close> holds when the 32-bit difference is 0 or has its top
  bit set.
\<close>

definition task_delay_until ::
    "nat option \<Rightarrow> nat \<Rightarrow> kernel \<Rightarrow> (bool \<times> nat option \<times> kernel) kres" where
  "task_delay_until last_wake period k =
     (if current_task k = 0 then Inl K_Panic
      else if current_task k = idle_task k \<or> last_wake = None \<or> period = 0
      then Inr (False, last_wake, k)
      else
        let wake = u32 (the last_wake + period);
            delta = u32_sub wake (ticks k)
        in if delta = 0 \<or> delta \<ge> 2 ^ 31 then Inr (False, Some wake, k)
           else
             let c = current_task k;
                 k = upd_tcb c (\<lambda>t. t\<lparr>t_delay_ticks := wake, t_status := TASK_DELAYED\<rparr>) k
             in kbind (add_to_delayed_list c k) (\<lambda>k. Inr (True, Some wake, k\<lparr>pendsv := True\<rparr>)))"

subsection \<open>The tick interrupt\<close>

definition v_syscall_wake_result :: "nat \<Rightarrow> int \<Rightarrow> kernel \<Rightarrow> kernel" where
  "v_syscall_wake_result t r k =
     upd_tcb t (\<lambda>x. x\<lparr>t_syscall_result := r, t_has_syscall_result := True\<rparr>) k"

definition outranks :: "nat \<Rightarrow> kernel \<Rightarrow> bool" where
  "outranks t k \<longleftrightarrow> current_task k \<noteq> 0 \<and> prio k t > prio k (current_task k)"

partial_function (option) wake_sleepers :: "nat \<Rightarrow> kernel \<Rightarrow> bool \<Rightarrow> (bool \<times> kernel) option" where
  "wake_sleepers now k higher_woken =
     (if delayed_list k \<noteq> 0 \<and> delay_of k (delayed_list k) \<le> now then
        let to_wake = delayed_list k;
            k = k\<lparr>delayed_list := tnext k to_wake\<rparr>;
            k = (if delayed_list k \<noteq> 0
                 then upd_tcb (delayed_list k) (\<lambda>t. t\<lparr>t_prev := 0\<rparr>) k else k);
            k = upd_tcb to_wake (\<lambda>t. t\<lparr>t_next := 0, t_prev := 0, t_delay_ticks := 0,
                  t_status := TASK_READY\<rparr>) k;
            k = add_to_ready_list to_wake k
        in wake_sleepers now k (higher_woken \<or> outranks to_wake k)
      else Some (higher_woken, k))"

declare wake_sleepers.simps [code]

text \<open>The waiter in front of \<open>task\<close> in a wait queue; 0 when the walk falls off the end.\<close>

partial_function (option) wait_prev :: "kernel \<Rightarrow> nat \<Rightarrow> nat \<Rightarrow> nat option" where
  "wait_prev k task n =
     (if n \<noteq> 0 \<and> t_wait_next (tcbs k n) \<noteq> task
      then wait_prev k task (t_wait_next (tcbs k n)) else Some n)"

declare wait_prev.simps [code]

definition eject_from_sem :: "nat \<Rightarrow> kernel \<Rightarrow> kernel option" where
  "eject_from_sem task k =
     (let s = t_wait_sem (tcbs k task)
      in if s_wait_q (semas k s) = task then
           let k = upd_sema s (\<lambda>x. x\<lparr>s_wait_q := t_wait_next (tcbs k task)\<rparr>) k
           in Some (if s_wait_q (semas k s) = 0 then upd_sema s (\<lambda>x. x\<lparr>s_tail := 0\<rparr>) k else k)
         else
           (case wait_prev k task (s_wait_q (semas k s)) of
              None \<Rightarrow> None
            | Some prev_node \<Rightarrow>
                if prev_node \<noteq> 0 then
                  let k = upd_tcb prev_node (\<lambda>x. x\<lparr>t_wait_next := t_wait_next (tcbs k task)\<rparr>) k
                  in Some (if s_tail (semas k s) = task
                           then upd_sema s (\<lambda>x. x\<lparr>s_tail := prev_node\<rparr>) k else k)
                else Some k))"

definition eject_waiter :: "nat \<Rightarrow> nat \<Rightarrow> kernel \<Rightarrow> bool \<Rightarrow> (bool \<times> kernel) option" where
  "eject_waiter now task k higher_woken =
     (let expired = (delay_of k task \<noteq> 0 \<and> delay_of k task < now)
      in if t_wait_sem (tcbs k task) \<noteq> 0 \<and> expired then
           (case eject_from_sem task k of
              None \<Rightarrow> None
            | Some k \<Rightarrow>
                let k = remove_from_blocked_list task k;
                    k = upd_tcb task (\<lambda>t. t\<lparr>t_delay_ticks := 0, t_status := TASK_READY\<rparr>) k;
                    k = add_to_ready_list task k;
                    k = upd_tcb task (\<lambda>t. t\<lparr>t_wait_mutex := 0\<rparr>) k;
                    k = v_syscall_wake_result task VA_FAIL k
                in Some (higher_woken \<or> outranks task k, k))
         else if t_in_multiwait (tcbs k task) \<and> expired then
           let k = upd_tcb task (\<lambda>t. t\<lparr>t_in_multiwait := False\<rparr>) k;
               k = remove_from_blocked_list task k;
               k = upd_tcb task (\<lambda>t. t\<lparr>t_delay_ticks := 0, t_status := TASK_READY\<rparr>) k;
               k = add_to_ready_list task k;
               k = v_syscall_wake_result task (-1) k
           in Some (higher_woken \<or> outranks task k, k)
         else Some (higher_woken, k))"

partial_function (option) eject_waiters ::
    "nat \<Rightarrow> nat \<Rightarrow> kernel \<Rightarrow> bool \<Rightarrow> (bool \<times> kernel) option" where
  "eject_waiters now task k higher_woken =
     (if task = 0 then Some (higher_woken, k)
      else
        let nxt = tnext k task
        in case eject_waiter now task k higher_woken of
             None \<Rightarrow> None
           | Some (higher_woken, k) \<Rightarrow> eject_waiters now nxt k higher_woken)"

declare eject_waiters.simps [code]

definition wake_up_delayed_tasks_isr :: "kernel \<Rightarrow> (bool \<times> kernel) kres" where
  "wake_up_delayed_tasks_isr k =
     (let now = ticks k
      in kbind (walk_end (wake_sleepers now k False)) (\<lambda>(higher_woken, k).
           walk_end (eject_waiters now (blocked_list k) k higher_woken)))"

definition v_kernel_tick :: "u32w \<Rightarrow> u32w \<Rightarrow> kernel \<Rightarrow> kernel kres" where
  "v_kernel_tick cyc_begin cyc_end k =
     (let (b, ps) = v_perf_cycles ((k_perf_sched k)\<lparr>pc_raw := cyc_begin\<rparr>);
          k = k\<lparr>k_perf_sched := ps\<rparr>;
          start = (ucast b :: u32w);
          k = k\<lparr>ticks := u32 (ticks k + 1)\<rparr>
      in kbind (if scheduler_running k
                then kbind (wake_up_delayed_tasks_isr k) (\<lambda>(p, k). Inr (p, k\<lparr>pendsv := True\<rparr>))
                else Inr (False, k))
           (\<lambda>(preempted, k).
             let (e, ps) = v_perf_cycles ((k_perf_sched k)\<lparr>pc_raw := cyc_end\<rparr>);
                 k = k\<lparr>k_perf_sched := ps\<rparr>
             in Inr (k\<lparr>k_perf_isr := v_perf_on_isr_systick_exit (ucast e - start) preempted
                       (k_perf_isr k)\<rparr>)))"

subsection \<open>Blocking and priorities\<close>

partial_function (option) find_id :: "kernel \<Rightarrow> nat \<Rightarrow> nat \<Rightarrow> nat option" where
  "find_id k tid cur =
     (if cur = 0 then Some 0
      else if t_task_id (tcbs k cur) = tid then Some cur
      else find_id k tid (tnext k cur))"

declare find_id.simps [code]

fun find_in_ready :: "kernel \<Rightarrow> nat \<Rightarrow> nat list \<Rightarrow> nat option" where
  "find_in_ready k tid [] = Some 0"
| "find_in_ready k tid (i # is) =
     (case find_id k tid (ready_lists k i) of
        None \<Rightarrow> None
      | Some t \<Rightarrow> if t \<noteq> 0 then Some t else find_in_ready k tid is)"

text \<open>The ready queues are scanned up to but not including \<open>MAX_PRIORITY\<close>, as in the source.\<close>

definition get_task_by_id :: "nat \<Rightarrow> kernel \<Rightarrow> nat kres" where
  "get_task_by_id tid k =
     (if t_task_id (tcbs k (current_task k)) = tid then Inr (current_task k)
      else kbind (walk_end (find_in_ready k tid [0..<MAX_PRIORITY])) (\<lambda>t.
        if t \<noteq> 0 then Inr t
        else kbind (walk_end (find_id k tid (blocked_list k))) (\<lambda>t.
          if t \<noteq> 0 then Inr t else walk_end (find_id k tid (delayed_list k)))))"

definition task_block :: "kernel \<Rightarrow> kernel kres" where
  "task_block k =
     (let c = current_task k
      in if c = idle_task k then Inr k
         else if status k c = TASK_BLOCKED then Inr k
         else
           let k = (if status k c = TASK_DELAYED then remove_from_delayed_list c k else k);
               k = (if status k c = TASK_READY then remove_from_ready_list c k else k)
           in kbind (add_to_blocked_list c k) (\<lambda>k. Inr (k\<lparr>pendsv := True\<rparr>)))"

definition task_unblock :: "nat \<Rightarrow> kernel \<Rightarrow> kernel kres" where
  "task_unblock tid k =
     kbind (get_task_by_id tid k) (\<lambda>t.
       if t = 0 \<or> status k t \<noteq> TASK_BLOCKED then Inr k
       else
         let k = remove_from_blocked_list t k;
             k = upd_tcb t (\<lambda>x. x\<lparr>t_status := TASK_READY\<rparr>) k;
             k = add_to_ready_list t k
         in Inr (k\<lparr>pendsv := True\<rparr>))"

definition task_change_priority :: "nat \<Rightarrow> nat \<Rightarrow> kernel \<Rightarrow> kernel" where
  "task_change_priority t p k =
     (if t = 0 \<or> p > MAX_PRIORITY then k
      else if status k t = TASK_READY then
        let k = remove_from_ready_list t k;
            k = upd_tcb t (\<lambda>x. x\<lparr>t_priority := p\<rparr>) k
        in add_to_ready_list t k
      else upd_tcb t (\<lambda>x. x\<lparr>t_priority := p\<rparr>) k)"

subsection \<open>Queries\<close>

definition get_current_task :: "kernel \<Rightarrow> nat" where
  "get_current_task k = current_task k"

definition get_context_switch_count :: "kernel \<Rightarrow> u32w" where
  "get_context_switch_count k = context_switch_count k"

definition get_idle_tick_count :: "kernel \<Rightarrow> u32w" where
  "get_idle_tick_count k = t_ticks_run (tcbs k (idle_task k))"

definition get_task_run_time :: "nat \<Rightarrow> kernel \<Rightarrow> u32w" where
  "get_task_run_time t k = (if t = 0 then 0 else t_ticks_run (tcbs k t))"

definition reset_task_run_time :: "nat \<Rightarrow> kernel \<Rightarrow> kernel" where
  "reset_task_run_time t k = (if t \<noteq> 0 then upd_tcb t (\<lambda>x. x\<lparr>t_ticks_run := 0\<rparr>) k else k)"

definition reset_idle_task_timer :: "kernel \<Rightarrow> kernel" where
  "reset_idle_task_timer k =
     (if idle_task k \<noteq> 0 then upd_tcb (idle_task k) (\<lambda>x. x\<lparr>t_ticks_run := 0\<rparr>) k else k)"

text \<open>\<open>task_snapshot_list\<close>: \<open>out\<close> is the array of pointers, here the list written so far.\<close>

partial_function (option) snap_list :: "kernel \<Rightarrow> nat \<Rightarrow> nat \<Rightarrow> nat list \<Rightarrow> nat list option" where
  "snap_list k mx t out =
     (if t = 0 \<or> length out \<ge> mx then Some out
      else snap_list k mx (tnext k t) (if t \<noteq> current_task k then out @ [t] else out))"

declare snap_list.simps [code]

fun snap_ready :: "kernel \<Rightarrow> nat \<Rightarrow> nat list \<Rightarrow> nat list \<Rightarrow> nat list option" where
  "snap_ready k mx [] out = Some out"
| "snap_ready k mx (p # ps) out =
     (if length out \<ge> mx then Some out
      else case snap_list k mx (ready_lists k p) out of None \<Rightarrow> None
           | Some out \<Rightarrow> snap_ready k mx ps out)"

definition task_snapshot_list :: "nat \<Rightarrow> kernel \<Rightarrow> nat list kres" where
  "task_snapshot_list mx k =
     (if mx = 0 then Inr []
      else
        let out = (if current_task k \<noteq> 0 then [current_task k] else [])
        in kbind (walk_end (snap_ready k mx [0..<MAX_PRIORITY + 1] out)) (\<lambda>out.
           kbind (walk_end (snap_list k mx (blocked_list k) out)) (\<lambda>out.
           walk_end (snap_list k mx (delayed_list k) out))))"

section \<open>Lemmas\<close>

definition same_sched :: "tcb \<Rightarrow> tcb \<Rightarrow> bool" where
  "same_sched a b \<longleftrightarrow> t_next a = t_next b \<and> t_prev a = t_prev b \<and> t_status a = t_status b \<and>
     t_priority a = t_priority b \<and> t_delay_ticks a = t_delay_ticks b"

lemma sched_inv_fields:
  assumes I: "sched_inv k R B D"
    and t: "\<And>t. t \<in> on_lists R B D \<Longrightarrow> same_sched (tcbs k' t) (tcbs k t)"
    and l: "ready_lists k' = ready_lists k" "ready_tails k' = ready_tails k"
      "blocked_list k' = blocked_list k" "delayed_list k' = delayed_list k"
      "ready_bitmap k' = ready_bitmap k"
  shows "sched_inv k' R B D"
proof -
  have dc: "dll (tnext k') (tprev k') fp xs lp = dll (tnext k) (tprev k) fp xs lp"
    if "\<And>x. x \<in> set xs \<Longrightarrow> x \<in> on_lists R B D" for xs fp lp
    using that t by (intro dll_cong) (simp add: same_sched_def)
  have "ready_ok k' p (R p)" if "p \<le> 7" for p
  proof -
    have s: "\<And>x. x \<in> set (R p) \<Longrightarrow> x \<in> on_lists R B D" using that by (rule on_listsI(1))
    note i = sched_invD(1) [OF I that]
    have "dll (tnext k') (tprev k') (ready_lists k' p) (R p) (ready_tails k' p)"
      using i l dc [OF s] by (simp add: ready_ok_def)
    moreover have "prio k' x = p \<and> status k' x = TASK_READY" if "x \<in> set (R p)" for x
      using sched_inv_status(1) [OF I \<open>p \<le> 7\<close> that] t [OF s [OF that]] by (simp add: same_sched_def)
    ultimately show ?thesis using i unfolding ready_ok_def by blast
  qed
  moreover have "queue_ok k' fp xs S" if "queue_ok k fp xs S" "\<And>x. x \<in> set xs \<Longrightarrow> x \<in> on_lists R B D"
    for fp xs S
    using that dc [OF that(2)] t unfolding queue_ok_def same_sched_def by metis
  moreover have m: "map (delay_of k') D = map (delay_of k) D"
    using t on_listsI(3) by (auto simp: same_sched_def)
  ultimately show ?thesis
    unfolding sched_inv_def m using sched_invD(2-5) [OF I] l on_listsI(2,3) by auto
qed

lemma highest_ready_prio_max:
  assumes I: "sched_inv k R B D"
  shows "case highest_ready_prio k of None \<Rightarrow> \<forall>p \<le> 7. R p = []
    | Some p \<Rightarrow> p \<le> 7 \<and> R p \<noteq> [] \<and> (\<forall>q \<le> 7. p < q \<longrightarrow> R q = [])"
proof (cases "ready_bitmap k = 0")
  case True
  then show ?thesis using sched_invD(2) [OF I] by (auto simp: highest_ready_prio_def)
next
  case False
  note w = word_fls [OF False]
  have "\<not> bit (ready_bitmap k) q" if "bit_fls (unat (ready_bitmap k)) < q" for q
    using w(2) [of q] that by auto
  then show ?thesis using False w(1) sched_invD(2) [OF I] by (auto simp: highest_ready_prio_def)
qed

lemma rl_pop_head_inv:
  assumes I: "sched_inv k R B D" and p: "p \<le> 7" "R p \<noteq> []"
  shows "\<exists>k'. rl_pop_head p k = (hd (R p), k') \<and> sched_inv k' (R(p := tl (R p))) B D \<and>
    links_only k k' \<and> hd (R p) \<notin> on_lists (R(p := tl (R p))) B D \<and> k' = rl_remove (hd (R p)) k"
proof -
  have "rl_pop_head p k = (hd (R p), rl_remove (hd (R p)) k)"
    by (rule rl_pop_head_remove [OF sched_invD(1) [OF I p(1)] p(2)])
  moreover have "remove1 (hd (R p)) (R p) = tl (R p)" using p(2) by (cases "R p") auto
  ultimately show ?thesis
    using rl_remove_inv [OF I p(1), of "hd (R p)"] p(2) by auto
qed

text \<open>The accounting leaves everything the lists depend on alone.\<close>

lemma perf_switch_frame [simp]:
  "ready_lists (v_perf_on_sched_switch a b k) = ready_lists k"
  "ready_tails (v_perf_on_sched_switch a b k) = ready_tails k"
  "blocked_list (v_perf_on_sched_switch a b k) = blocked_list k"
  "delayed_list (v_perf_on_sched_switch a b k) = delayed_list k"
  "ready_bitmap (v_perf_on_sched_switch a b k) = ready_bitmap k"
  "current_task (v_perf_on_sched_switch a b k) = current_task k"
  "idle_task (v_perf_on_sched_switch a b k) = idle_task k"
  "ticks (v_perf_on_sched_switch a b k) = ticks k"
  by (simp_all add: v_perf_on_sched_switch_def v_perf_cycles_def Let_def)

definition perf_only :: "kernel \<Rightarrow> kernel \<Rightarrow> bool" where
  "perf_only k k' \<longleftrightarrow> (\<forall>x. \<exists>p. tcbs k' x = (tcbs k x)\<lparr>t_perf := p\<rparr>)"

lemma perf_only_refl: "tcbs k' = tcbs k \<Longrightarrow> perf_only k k'"
  unfolding perf_only_def
proof
  fix x
  assume "tcbs k' = tcbs k"
  then have "tcbs k' x = (tcbs k x)\<lparr>t_perf := t_perf (tcbs k x)\<rparr>" by simp
  then show "\<exists>p. tcbs k' x = (tcbs k x)\<lparr>t_perf := p\<rparr>" by blast
qed

lemma perf_only_upd: "perf_only k k' \<Longrightarrow> perf_only k (upd_tcb t (\<lambda>x. x\<lparr>t_perf := f x\<rparr>) k')"
  unfolding perf_only_def
proof
  fix x
  assume "\<forall>x. \<exists>p. tcbs k' x = (tcbs k x)\<lparr>t_perf := p\<rparr>"
  then obtain p where p: "tcbs k' x = (tcbs k x)\<lparr>t_perf := p\<rparr>" by blast
  then show "\<exists>p. tcbs (upd_tcb t (\<lambda>x. x\<lparr>t_perf := f x\<rparr>) k') x = (tcbs k x)\<lparr>t_perf := p\<rparr>"
    by (cases "x = t") auto
qed

lemma perf_only_sched: "perf_only k k' \<Longrightarrow> perf_only k (k'\<lparr>k_perf_sched := p\<rparr>)"
  by (simp add: perf_only_def)

lemma perf_switch_tcb: "perf_only k (v_perf_on_sched_switch a b k)"
  unfolding v_perf_on_sched_switch_def Let_def
  by (auto split: prod.splits intro!: perf_only_sched perf_only_upd intro: perf_only_refl)

text \<open>
  \<open>sched_core t\<close> is what steps of the scheduler proper leave of a control block: everything
  but the links, the status and the run-time accounts.
\<close>

definition sched_core :: "tcb \<Rightarrow> tcb" where
  "sched_core t = t\<lparr>t_next := 0, t_prev := 0, t_status := TASK_READY, t_ticks_run := 0,
     t_perf := \<lparr>pt_cycles_run = 0, pt_last_scheduled_cyc = 0, pt_max_burst_cyc = 0,
       pt_switches_in = 0\<rparr>\<rparr>"

lemma sched_core_simps [simp]:
  "sched_core (t\<lparr>t_next := n\<rparr>) = sched_core t" "sched_core (t\<lparr>t_prev := n\<rparr>) = sched_core t"
  "sched_core (t\<lparr>t_status := s\<rparr>) = sched_core t" "sched_core (t\<lparr>t_ticks_run := r\<rparr>) = sched_core t"
  "sched_core (t\<lparr>t_perf := f\<rparr>) = sched_core t"
  by (simp_all add: sched_core_def)

lemma sched_core_fields:
  assumes "sched_core a = sched_core b"
  shows "t_priority a = t_priority b" "t_sp a = t_sp b" "t_mem_block a = t_mem_block b"
    "t_delay_ticks a = t_delay_ticks b" "t_task_id a = t_task_id b" "t_wait_sem a = t_wait_sem b"
    "t_wait_next a = t_wait_next b" "t_base_priority a = t_base_priority b"
    "t_wait_mutex a = t_wait_mutex b" "t_held_mutexes a = t_held_mutexes b"
    "t_wnodes a = t_wnodes b" "t_in_multiwait a = t_in_multiwait b" "t_narm a = t_narm b"
    "t_syscall_result a = t_syscall_result b" "t_has_syscall_result a = t_has_syscall_result b"
    "t_parent_id a = t_parent_id b" "t_magic a = t_magic b"
  using assms by (cases a; cases b; simp add: sched_core_def)+

definition sched_only :: "kernel \<Rightarrow> kernel \<Rightarrow> bool" where
  "sched_only k k' \<longleftrightarrow> (\<forall>x. sched_core (tcbs k' x) = sched_core (tcbs k x))"

lemma sched_only_refl [simp]: "sched_only k k"
  by (simp add: sched_only_def)

lemma sched_only_trans [trans]: "sched_only k k' \<Longrightarrow> sched_only k' k'' \<Longrightarrow> sched_only k k''"
  by (simp add: sched_only_def)

lemma sched_only_upd [simp]:
  "(\<And>x. sched_core (g x) = sched_core x) \<Longrightarrow> sched_only k (upd_tcb t g k') \<longleftrightarrow> sched_only k k'"
  by (auto simp: sched_only_def)

lemma sched_only_links: "links_only k k' \<Longrightarrow> sched_only k k'"
  unfolding sched_only_def links_only_def by (metis sched_core_simps(1,2))

lemma sched_only_perf: "perf_only k k' \<Longrightarrow> sched_only k k'"
  unfolding sched_only_def perf_only_def by (metis sched_core_simps(5))

lemmas sched_only_fields = sched_core_fields [OF sched_only_def [THEN iffD1, THEN spec]]

lemma rl_append_sched_only: "sched_only k (rl_append t k)"
  by (simp add: sched_only_def rl_append_def Let_def)

lemma rl_remove_sched_only: "sched_only k (rl_remove t k)"
  by (rule sched_only_links [OF rl_remove_links_only])

lemma rl_pop_head_sched_only: "sched_only k (snd (rl_pop_head p k))"
  by (simp add: sched_only_def rl_pop_head_def Let_def)


text \<open>
  \<open>ready_with k R\<close>: the ready queues as \<open>get_next_task\<close> sees them, with the running task put
  back at the end of its own queue.
\<close>

definition ready_with :: "kernel \<Rightarrow> (nat \<Rightarrow> nat list) \<Rightarrow> nat \<Rightarrow> nat list" where
  "ready_with k R =
     (let c = current_task k
      in if status k c = TASK_RUNNING then R(prio k c := R (prio k c) @ [c]) else R)"

definition stack_ok :: "kernel \<Rightarrow> nat \<Rightarrow> bool" where
  "stack_ok k t \<longleftrightarrow> t_mem_block (tcbs k t) + 64 \<le> t_sp (tcbs k t)"

lemma get_next_requeue:
  assumes I: "sched_inv k R B D" and c: "current_task k \<noteq> 0" "prio k (current_task k) \<le> 7"
  defines "k1 \<equiv> upd_tcb (current_task k) (\<lambda>t. t\<lparr>t_ticks_run := t_ticks_run t +
        (of_nat (ticks k) - last_context_switch_tick k)\<rparr>) k\<lparr>last_context_switch_tick := of_nat (ticks k)\<rparr>"
  defines "k2 \<equiv> (if current_task k1 \<noteq> 0 \<and> status k1 (current_task k1) = TASK_RUNNING
      then rl_append (current_task k1) k1 else k1)"
  shows "sched_inv k2 (ready_with k R) B D" "sched_only k k2" "current_task k2 = current_task k"
proof -
  let ?c = "current_task k"
  have f: "prio k1 x = prio k x" "status k1 x = status k x" "current_task k1 = ?c" for x
    by (auto simp: k1_def)
  have o: "sched_only k k1" by (simp add: k1_def sched_only_def)
  have I1: "sched_inv k1 R B D"
    by (rule sched_inv_fields [OF I]) (auto simp: k1_def same_sched_def)
  show "sched_inv k2 (ready_with k R) B D"
  proof (cases "status k ?c = TASK_RUNNING")
    case True
    have "sched_inv (rl_append ?c k1) (R(prio k ?c := R (prio k ?c) @ [?c])) B D"
      by (rule rl_append_inv [OF I1 c(1) sched_inv_running [OF I True] c(2)]) (rule f)
    then show ?thesis using True by (simp add: k2_def f c ready_with_def Let_def)
  qed (use I1 in \<open>simp add: k2_def f ready_with_def Let_def\<close>)
  show "sched_only k k2" using sched_only_trans [OF o rl_append_sched_only] o by (simp add: k2_def)
  show "current_task k2 = current_task k" by (simp add: k2_def f)
qed

text \<open>The last part of \<open>get_next_task\<close>, once the next task is chosen.\<close>

lemma get_next_finish:
  fixes prv :: nat
  assumes I: "sched_inv k R B D" and t: "current_task k \<notin> on_lists R B D"
    and st: "stack_ok k (current_task k)"
  defines "k1 \<equiv> (upd_tcb (current_task k) (\<lambda>t. t\<lparr>t_status := TASK_RUNNING\<rparr>) k)
                 \<lparr>context_switch_count := context_switch_count k + 1\<rparr>"
  defines "k2 \<equiv> v_perf_on_sched_switch prv (current_task k) k1"
  shows "sched_inv k2 R B D" "sched_only k k2" "current_task k2 = current_task k"
    "status k2 (current_task k) = TASK_RUNNING" "stack_ok k2 (current_task k)"
proof -
  have o: "sched_only k k1" by (simp add: k1_def sched_only_def)
  have o2: "perf_only k1 k2" unfolding k2_def by (rule perf_switch_tcb)
  show os: "sched_only k k2" by (rule sched_only_trans [OF o sched_only_perf [OF o2]])
  have I1: "sched_inv k1 R B D"
    by (rule sched_inv_frame [OF I]) (use t in \<open>auto simp: k1_def\<close>)
  have p: "\<exists>q. tcbs k2 x = (tcbs k1 x)\<lparr>t_perf := q\<rparr>" for x using o2 by (simp add: perf_only_def)
  have s: "same_sched (tcbs k2 x) (tcbs k1 x)" for x
    using p [of x] by (auto simp: same_sched_def)
  show "sched_inv k2 R B D"
    by (rule sched_inv_fields [OF I1]) (use s in \<open>auto simp: k2_def\<close>)
  show "current_task k2 = current_task k" by (simp add: k2_def k1_def)
  show "status k2 (current_task k) = TASK_RUNNING"
    using p [of "current_task k"] by (auto simp: k1_def)
  show "stack_ok k2 (current_task k)" using st sched_only_fields [OF os] by (simp add: stack_ok_def)
qed

lemma get_next_task_result:
  assumes I: "sched_inv k R B D" and c: "current_task k \<noteq> 0" "prio k (current_task k) \<le> 7"
    and p: "p \<le> 7" "ready_with k R p \<noteq> []" "\<forall>q \<le> 7. p < q \<longrightarrow> ready_with k R q = []"
    and t: "t = List.hd (ready_with k R p)" "ram t" "stack_ok k t"
  shows "\<exists>k'. get_next_task ram k = Inr (t, k') \<and> current_task k' = t \<and> status k' t = TASK_RUNNING \<and>
    sched_inv k' ((ready_with k R)(p := List.tl (ready_with k R p))) B D \<and> sched_only k k'"
proof -
  let ?R = "ready_with k R"
  define k1 where "k1 = upd_tcb (current_task k) (\<lambda>t. t\<lparr>t_ticks_run := t_ticks_run t +
        (of_nat (ticks k) - last_context_switch_tick k)\<rparr>) k\<lparr>last_context_switch_tick := of_nat (ticks k)\<rparr>"
  define k2 where "k2 = (if current_task k1 \<noteq> 0 \<and> status k1 (current_task k1) = TASK_RUNNING
      then rl_append (current_task k1) k1 else k1)"
  note q = get_next_requeue [OF I c, folded k1_def, folded k2_def]
  have h: "highest_ready_prio k2 = Some p"
    using highest_ready_prio_max [OF q(1)] p
    by (auto split: option.splits) (metis nat_neq_iff)
  obtain k3 where k3: "rl_pop_head p k2 = (t, k3)" "sched_inv k3 (?R(p := List.tl (?R p))) B D"
    "links_only k2 k3" "t \<notin> on_lists (?R(p := List.tl (?R p))) B D"
    using rl_pop_head_inv [OF q(1) p(1,2)] t(1) by auto
  have o3: "sched_only k k3" by (rule sched_only_trans [OF q(2) sched_only_links [OF k3(3)]])
  have "t \<in> set (?R p)" using t(1) p(2) by simp
  then have "prio k2 t = p" using sched_inv_status(1) [OF q(1) p(1)] by simp
  then have pt: "prio k3 t \<le> 7" using p(1) links_only_fields(2) [OF k3(3)] by simp
  let ?k4 = "k3\<lparr>current_task := t\<rparr>"
  have I4: "sched_inv ?k4 (?R(p := List.tl (?R p))) B D"
    by (rule sched_inv_frame [OF k3(2)]) simp_all
  have o4: "sched_only k ?k4" using o3 by (simp add: sched_only_def)
  have s4: "stack_ok ?k4 (current_task ?k4)"
    using t(3) sched_only_fields [OF o3] by (simp add: stack_ok_def)
  define k5 where "k5 = v_perf_on_sched_switch (current_task k) t
    ((upd_tcb t (\<lambda>t. t\<lparr>t_status := TASK_RUNNING\<rparr>) ?k4)\<lparr>context_switch_count := context_switch_count k3 + 1\<rparr>)"
  have fin: "sched_inv k5 (?R(p := List.tl (?R p))) B D" "sched_only ?k4 k5" "current_task k5 = t"
    "status k5 t = TASK_RUNNING" "stack_ok k5 t"
    using get_next_finish [OF I4 _ s4, where prv = "current_task k"] k3(4) by (simp_all add: k5_def)
  have c2: "current_task k1 \<noteq> 0" using c(1) by (simp add: k1_def)
  have "get_next_task ram k = Inr (t, k5)"
    using h k3(1) pt t(2) c2 fin(3,5)
    unfolding get_next_task_def Let_def k1_def [symmetric] k2_def [symmetric]
    by (simp add: k5_def [symmetric] stack_ok_def)
  then show ?thesis using fin sched_only_trans [OF o4 fin(2)] by blast
qed

section \<open>Round robin\<close>

text \<open>\<open>n\<close> context switches with nothing else in between.\<close>

fun context_switches :: "(nat \<Rightarrow> bool) \<Rightarrow> nat \<Rightarrow> kernel \<Rightarrow> kernel kres" where
  "context_switches ram 0 k = Inr k"
| "context_switches ram (Suc n) k = kbind (set_next_task ram k) (context_switches ram n)"

lemma context_switch_rotates:
  assumes I: "sched_inv k R B D" and c: "current_task k \<noteq> 0" "status k (current_task k) = TASK_RUNNING"
      "prio k (current_task k) = p" "p \<le> 7"
    and top: "\<forall>q \<le> 7. p < q \<longrightarrow> R q = []"
    and ok: "\<forall>t \<in> set (current_task k # R p). ram t \<and> stack_ok k t"
  shows "\<exists>k' xs. set_next_task ram k = Inr k' \<and> current_task k' # xs = rotate1 (current_task k # R p) \<and>
    sched_inv k' (R(p := xs)) B D \<and> sched_only k k' \<and> status k' (current_task k') = TASK_RUNNING"
proof -
  let ?c = "current_task k" and ?Q = "R p @ [current_task k]"
  have rw: "ready_with k R = R(p := ?Q)" using c by (simp add: ready_with_def Let_def)
  have hdQ: "List.hd ?Q \<in> set (?c # R p)" by (cases "R p") auto
  obtain k' where g: "get_next_task ram k = Inr (List.hd ?Q, k')" "current_task k' = List.hd ?Q"
    "status k' (List.hd ?Q) = TASK_RUNNING" "sched_inv k' ((R(p := ?Q))(p := List.tl ?Q)) B D"
    "sched_only k k'"
    using get_next_task_result [OF I c(1), of p "List.hd ?Q" ram] c top hdQ ok by (auto simp: rw)
  have nz: "List.hd ?Q \<noteq> 0"
    using hdQ c(1) sched_inv_nonnull [OF I on_listsI(1) [OF c(4)]] by auto
  have "set_next_task ram k = Inr k'" using g(1) nz by (simp add: set_next_task_def)
  moreover have "current_task k' # List.tl ?Q = rotate1 (?c # R p)"
    using g(2) by (cases "R p") auto
  ultimately show ?thesis using g by fastforce
qed

lemma context_switches_rotate:
  assumes I: "sched_inv k R B D" and c: "current_task k \<noteq> 0" "status k (current_task k) = TASK_RUNNING"
      "prio k (current_task k) = p" "p \<le> 7"
    and top: "\<forall>q \<le> 7. p < q \<longrightarrow> R q = []"
    and ok: "\<forall>t \<in> set (current_task k # R p). ram t \<and> stack_ok k t"
  shows "\<exists>k' xs. context_switches ram n k = Inr k' \<and>
    current_task k' # xs = rotate n (current_task k # R p) \<and> sched_inv k' (R(p := xs)) B D \<and>
    sched_only k k' \<and> status k' (current_task k') = TASK_RUNNING"
  using assms
proof (induction n arbitrary: k R)
  case 0
  then have "sched_inv k (R(p := R p)) B D" by simp
  then show ?case using 0(3) by (intro exI [of _ k] exI [of _ "R p"]) simp
next
  case (Suc n)
  let ?c = "current_task k"
  obtain k1 xs where s: "set_next_task ram k = Inr k1" "current_task k1 # xs = rotate1 (?c # R p)"
    "sched_inv k1 (R(p := xs)) B D" "sched_only k k1" "status k1 (current_task k1) = TASK_RUNNING"
    using context_switch_rotates [OF Suc.prems] by blast
  have e: "set (current_task k1 # xs) = set (?c # R p)" using s(2) by (metis set_rotate1)
  have nz: "t \<noteq> 0" if "t \<in> set (?c # R p)" for t
    using that Suc.prems(2) sched_inv_nonnull [OF Suc.prems(1) on_listsI(1) [OF Suc.prems(5)]] by auto
  have pr: "prio k1 t = p" if "t \<in> set (?c # R p)" for t
    using that Suc.prems(4) sched_inv_status(1) [OF Suc.prems(1,5)] sched_only_fields(1) [OF s(4)]
    by auto
  have c1: "current_task k1 \<in> set (?c # R p)" using e by auto
  have st: "stack_ok k1 t = stack_ok k t" for t
    using sched_only_fields(2,3) [OF s(4)] by (simp add: stack_ok_def)
  obtain k' ys where i: "context_switches ram n k1 = Inr k'"
    "current_task k' # ys = rotate n (current_task k1 # xs)"
    "sched_inv k' ((R(p := xs))(p := ys)) B D" "sched_only k1 k'"
    "status k' (current_task k') = TASK_RUNNING"
    using Suc.IH [OF s(3) nz [OF c1] s(5) pr [OF c1] Suc.prems(5)] Suc.prems(6,7) e st by fastforce
  have "rotate n (current_task k1 # xs) = rotate (Suc n) (?c # R p)"
    unfolding s(2) by (metis rotate1_rotate_swap rotate_Suc)
  moreover have "context_switches ram (Suc n) k = Inr k'" using s(1) i(1) by simp
  moreover have "sched_inv k' (R(p := ys)) B D" using i(3) by simp
  ultimately show ?case using i(2,5) sched_only_trans [OF s(4) i(4)] by metis
qed


section \<open>Waking sleepers\<close>

text \<open>The ready queues after the tasks of a list were appended to them in turn.\<close>

definition ready_all :: "kernel \<Rightarrow> nat list \<Rightarrow> (nat \<Rightarrow> nat list) \<Rightarrow> nat \<Rightarrow> nat list" where
  "ready_all k ts R p = R p @ filter (\<lambda>t. prio k t = p) ts"

lemma ready_all_Nil [simp]: "ready_all k [] R = R"
  by (simp add: ready_all_def fun_eq_iff)

lemma ready_all_Cons:
  "prio k t = p \<Longrightarrow> ready_all k (t # ts) R = ready_all k ts (R(p := R p @ [t]))"
  by (auto simp: ready_all_def fun_eq_iff)

lemma ready_all_cong: "(\<And>t. t \<in> set ts \<Longrightarrow> prio k' t = prio k t) \<Longrightarrow> ready_all k' ts R = ready_all k ts R"
  by (auto simp: ready_all_def fun_eq_iff intro: filter_cong)

definition due :: "kernel \<Rightarrow> nat \<Rightarrow> nat list \<Rightarrow> nat list" where
  "due k now D = takeWhile (\<lambda>t. delay_of k t \<le> now) D"

lemma delayed_head:
  assumes I: "sched_inv k R B (t # D)"
  shows "delayed_list k = t" "t \<noteq> 0" "t \<notin> on_lists R B D" "tnext k t \<noteq> t"
    "sched_inv (remove_from_delayed_list t k) R B D"
proof -
  obtain lp where d: "dll (tnext k) (tprev k) (delayed_list k) (t # D) lp" "distinct (t # D)"
    using sched_invD(4) [OF I] by (auto simp: queue_ok_def)
  have en: "tnext k t = (case D of [] \<Rightarrow> 0 | b # _ \<Rightarrow> b)" "t \<noteq> 0"
    using dll_split_ends [of "tnext k" "tprev k" "delayed_list k" "[]" t D lp] d(1) by auto
  show "delayed_list k = t" using dll_hd [OF d(1)] by simp
  show "t \<noteq> 0" by (rule en(2))
  show "tnext k t \<noteq> t" using en d(2) by (cases D) auto
  have "remove1 t (t # D) = D" by simp
  then show "t \<notin> on_lists R B D" "sched_inv (remove_from_delayed_list t k) R B D"
    using remove_from_delayed_list_inv [OF I, of t] by simp_all
qed

lemma wake_pop:
  assumes "delayed_list k = t" "t \<noteq> 0" "tnext k t \<noteq> t"
  shows "(let k = k\<lparr>delayed_list := tnext k t\<rparr>;
              k = (if delayed_list k \<noteq> 0 then upd_tcb (delayed_list k) (\<lambda>t. t\<lparr>t_prev := 0\<rparr>) k else k)
          in upd_tcb t (\<lambda>t. t\<lparr>t_next := 0, t_prev := 0, t_delay_ticks := 0, t_status := TASK_READY\<rparr>) k)
    = upd_tcb t (\<lambda>t. t\<lparr>t_delay_ticks := 0, t_status := TASK_READY\<rparr>) (remove_from_delayed_list t k)"
  using assms by (auto simp: remove_from_delayed_list_def remove_task_def Let_def upd_tcb_def)


lemma wake_one:
  assumes I: "sched_inv k R B (t # D)" and p: "prio k t = p" "p \<le> 7"
  defines "k' \<equiv> add_to_ready_list t (upd_tcb t (\<lambda>t. t\<lparr>t_delay_ticks := 0, t_status := TASK_READY\<rparr>)
      (remove_from_delayed_list t k))"
  shows "sched_inv k' (R(p := R p @ [t])) B D" "current_task k' = current_task k"
    "prio k' x = prio k x" "x \<noteq> t \<Longrightarrow> delay_of k' x = delay_of k x" "delay_of k' t = 0"
    "x \<noteq> t \<Longrightarrow> x \<noteq> 0 \<Longrightarrow> status k' x = status k x" "semas k' = semas k"
proof -
  let ?k1 = "remove_from_delayed_list t k"
  let ?k2 = "upd_tcb t (\<lambda>t. t\<lparr>t_delay_ticks := 0, t_status := TASK_READY\<rparr>) ?k1"
  note h = delayed_head [OF I]
  have r: "links_only k ?k1" "\<exists>T l. ?k1 = k\<lparr>tcbs := T, delayed_list := l\<rparr>"
    using remove_from_delayed_list_inv [OF I, of t] by simp_all
  note lo = links_only_fields [OF r(1)]
  have I2: "sched_inv ?k2 R B D" by (rule sched_inv_frame [OF h(5)]) (use h(3) in auto)
  have p2: "prio ?k2 t = p" using lo(2) p(1) by simp
  note o = sched_only_fields [OF rl_append_sched_only [of ?k2 t]]
  have k': "k' = rl_append t ?k2" using h(2) by (simp add: k'_def add_to_ready_list_def)
  show "sched_inv k' (R(p := R p @ [t])) B D"
    unfolding k' by (rule rl_append_inv [OF I2 h(2,3) p(2) p2])
  show "current_task k' = current_task k" "semas k' = semas k" using r(2) by (auto simp: k')
  show "prio k' x = prio k x" using lo(2) o(1) by (simp add: k')
  show "x \<noteq> t \<Longrightarrow> delay_of k' x = delay_of k x" "delay_of k' t = 0" using lo(3) o(4) by (simp_all add: k')
  show "x \<noteq> t \<Longrightarrow> x \<noteq> 0 \<Longrightarrow> status k' x = status k x"
    using lo(1) by (simp add: k' rl_append_def Let_def)
qed

lemma wake_sleepers_result:
  fixes now :: nat
  assumes "sched_inv k R B D" "\<forall>t \<in> set D. prio k t \<le> 7"
  defines "W \<equiv> due k now D"
  shows "\<exists>k'. wake_sleepers now k h = Some (h \<or> (\<exists>t \<in> set W. outranks t k), k') \<and>
    sched_inv k' (ready_all k W R) B (drop (length W) D) \<and> current_task k' = current_task k \<and>
    (\<forall>x. prio k' x = prio k x) \<and> (\<forall>x. x \<notin> set W \<longrightarrow> delay_of k' x = delay_of k x) \<and>
    (\<forall>x \<in> set W. delay_of k' x = 0) \<and> semas k' = semas k"
  using assms(1,2) unfolding W_def
proof (induction D arbitrary: k R h)
  case Nil
  have "delayed_list k = 0"
    using sched_invD(4) [OF Nil.prems(1)] dll_empty_iff by (auto simp: queue_ok_def)
  then show ?case using Nil.prems(1) by (subst wake_sleepers.simps) (simp add: due_def)
next
  case (Cons t D)
  note hd = delayed_head [OF Cons.prems(1)]
  show ?case
  proof (cases "delay_of k t \<le> now")
    case False
    then show ?thesis
      using Cons.prems(1) hd(1) by (subst wake_sleepers.simps) (simp add: due_def)
  next
    case True
    obtain p where p: "prio k t = p" "p \<le> 7" using Cons.prems(2) by auto
    define k1 where "k1 = add_to_ready_list t
      (upd_tcb t (\<lambda>t. t\<lparr>t_delay_ticks := 0, t_status := TASK_READY\<rparr>) (remove_from_delayed_list t k))"
    note o = wake_one [OF Cons.prems(1) p, folded k1_def]
    have tD: "t \<notin> set D" using hd(3) by (auto simp: on_lists_def)
    have "delay_of k1 x = delay_of k x" if "x \<in> set D" for x using that o(4) tD by metis
    then have d1: "due k1 now D = due k now D" unfolding due_def by (intro takeWhile_cong) auto
    have d: "due k now (t # D) = t # due k now D" using True by (simp add: due_def)
    have st: "wake_sleepers now k h = wake_sleepers now k1 (h \<or> outranks t k1)"
      using wake_pop [OF hd(1,2,4)] True hd(1,2)
      by (subst wake_sleepers.simps) (simp add: Let_def k1_def)
    have rk: "outranks x k1 = outranks x k" for x using o(2,3) by (simp add: outranks_def)
    have ra: "ready_all k1 ts Q = ready_all k ts Q" for ts Q by (rule ready_all_cong) (rule o(3))
    have "\<forall>x \<in> set D. prio k1 x \<le> 7" using Cons.prems(2) o(3) by simp
    note ih = Cons.IH [OF o(1) this, of "h \<or> outranks t k", unfolded d1 rk ra]
    obtain k' where i: "wake_sleepers now k1 (h \<or> outranks t k) =
        Some ((h \<or> outranks t k) \<or> (\<exists>t \<in> set (due k now D). outranks t k), k')"
      "sched_inv k' (ready_all k (due k now D) (R(p := R p @ [t]))) B (drop (length (due k now D)) D)"
      "current_task k' = current_task k1" "\<forall>x. prio k' x = prio k1 x"
      "\<forall>x. x \<notin> set (due k now D) \<longrightarrow> delay_of k' x = delay_of k1 x"
      "\<forall>x \<in> set (due k now D). delay_of k' x = 0" "semas k' = semas k1"
      using ih by blast
    have tW: "t \<notin> set (due k now D)" using tD by (auto simp: due_def dest: set_takeWhileD)
    have w: "wake_sleepers now k h = Some (h \<or> (\<exists>t \<in> set (t # due k now D). outranks t k), k')"
      unfolding st rk i(1) by auto
    have x: "\<forall>x. x \<notin> set (t # due k now D) \<longrightarrow> delay_of k' x = delay_of k x"
      "\<forall>x \<in> set (t # due k now D). delay_of k' x = 0"
      using i(5,6) o(4,5) tW by auto
    have y: "current_task k' = current_task k" "\<forall>x. prio k' x = prio k x" "semas k' = semas k"
      using i(3,4,7) o(2,3,7) by simp_all
    have z: "sched_inv k' (ready_all k (t # due k now D) R) B (drop (length (t # due k now D)) (t # D))"
      unfolding ready_all_Cons [OF p(1)] using i(2) by simp
    show ?thesis unfolding d using w x y z by blast
  qed
qed

section \<open>Delays, priorities and look-up\<close>

lemma set_takeWhile_sorted:
  "sorted (map f xs) \<Longrightarrow> set (takeWhile (\<lambda>t. f t \<le> n) xs) = {t \<in> set xs. f t \<le> n}"
  by (induction xs) force+

lemma due_set: "sched_inv k R B D \<Longrightarrow> set (due k now D) = {t \<in> set D. delay_of k t \<le> now}"
  unfolding due_def by (rule set_takeWhile_sorted) (rule sched_invD(5))

lemma task_delay_result:
  assumes I: "sched_inv k R B D" and c: "current_task k = c" "c \<noteq> 0" "c \<noteq> idle_task k"
      "status k c = TASK_RUNNING" and n: "n \<noteq> 0"
  shows "\<exists>k' D'. task_delay n k = Inr k' \<and> sched_inv k' R B D' \<and> set D' = insert c (set D) \<and>
    delay_of k' c = u32 (ticks k + n) \<and> pendsv k' \<and> (\<forall>x. prio k' x = prio k x) \<and>
    (\<forall>x. x \<noteq> c \<longrightarrow> delay_of k' x = delay_of k x)"
proof -
  let ?k1 = "upd_tcb c (\<lambda>t. t\<lparr>t_delay_ticks := u32 (ticks k + n), t_status := TASK_DELAYED\<rparr>) k"
  have nl: "c \<notin> on_lists R B D" by (rule sched_inv_running [OF I c(4)])
  have I1: "sched_inv ?k1 R B D" by (rule sched_inv_frame [OF I]) (use nl in auto)
  obtain k2 where a: "add_to_delayed_list c ?k1 = Inr k2"
    "sched_inv k2 R B (delay_insert (delay_of ?k1) c D)"
    "links_only (upd_tcb c (\<lambda>x. x\<lparr>t_status := TASK_DELAYED\<rparr>) ?k1) k2"
    using add_to_delayed_list_inv [OF I1 c(2) nl] by blast
  note f = links_only_fields [OF a(3)]
  have I2: "sched_inv (k2\<lparr>pendsv := True\<rparr>) R B (delay_insert (delay_of ?k1) c D)"
    by (rule sched_inv_frame [OF a(2)]) auto
  have "task_delay n k = Inr (k2\<lparr>pendsv := True\<rparr>)" using a(1) c n by (simp add: task_delay_def Let_def)
  moreover have "delay_of (k2\<lparr>pendsv := True\<rparr>) c = u32 (ticks k + n)" using f(3) by simp
  moreover have "\<forall>x. prio (k2\<lparr>pendsv := True\<rparr>) x = prio k x"
    "\<forall>x. x \<noteq> c \<longrightarrow> delay_of (k2\<lparr>pendsv := True\<rparr>) x = delay_of k x"
    using f(2,3) by simp_all
  ultimately show ?thesis
    using I2 by (intro exI [of _ "k2\<lparr>pendsv := True\<rparr>"] exI [of _ "delay_insert (delay_of ?k1) c D"]) simp
qed

lemma sched_inv_prio:
  assumes I: "sched_inv k R B D" and t: "\<And>p. p \<le> 7 \<Longrightarrow> t \<notin> set (R p)"
  shows "sched_inv (upd_tcb t (\<lambda>x. x\<lparr>t_priority := q\<rparr>) k) R B D"
proof -
  let ?k = "upd_tcb t (\<lambda>x. x\<lparr>t_priority := q\<rparr>) k"
  have "ready_ok ?k p (R p)" if "p \<le> 7" for p
    using sched_invD(1) [OF I that] t [OF that] by (subst ready_ok_cong [of _ _ k]) auto
  moreover have "queue_ok ?k fp xs S = queue_ok k fp xs S" for fp xs S
  proof -
    have "tnext ?k = tnext k" "tprev ?k = tprev k" "status ?k = status k" by auto
    then show ?thesis by (auto simp: queue_ok_def)
  qed
  moreover have "(\<lambda>t. t_delay_ticks (tcbs ?k t)) = (\<lambda>t. t_delay_ticks (tcbs k t))" by auto
  ultimately show ?thesis using I by (simp add: sched_inv_def)
qed

lemma task_change_priority_ready:
  assumes I: "sched_inv k R B D" and q: "q \<le> 7" "t \<in> set (R q)" and p: "p \<le> 7"
  shows "sched_inv (task_change_priority t p k)
    ((R(q := remove1 t (R q)))(p := (R(q := remove1 t (R q))) p @ [t])) B D"
proof -
  let ?R = "R(q := remove1 t (R q))"
  have t: "t \<noteq> 0" "status k t = TASK_READY"
    using sched_inv_nonnull [OF I on_listsI(1) [where R = R, OF q]] sched_inv_status(1) [OF I q] by auto
  note r = rl_remove_inv [OF I q]
  have "t \<notin> set (?R x)" if "x \<le> 7" for x using r(3) that by (auto simp: on_lists_def)
  then have I2: "sched_inv (upd_tcb t (\<lambda>x. x\<lparr>t_priority := p\<rparr>) (rl_remove t k)) ?R B D"
    by (rule sched_inv_prio [OF r(1)])
  have "sched_inv (rl_append t (upd_tcb t (\<lambda>x. x\<lparr>t_priority := p\<rparr>) (rl_remove t k))) (?R(p := ?R p @ [t])) B D"
    by (rule rl_append_inv [OF I2 t(1) r(3) p]) simp
  then show ?thesis
    using t p by (simp add: task_change_priority_def Let_def add_to_ready_list_def remove_from_ready_list_def)
qed

lemma task_change_priority_other:
  assumes I: "sched_inv k R B D" and t: "status k t \<noteq> TASK_READY"
  shows "sched_inv (task_change_priority t p k) R B D"
  using sched_inv_prio [OF I, of t p] sched_inv_status(1) [OF I] t I
  by (auto simp: task_change_priority_def)

text \<open>\<open>find_id\<close> on a list is the first task of the list with that id, or 0.\<close>

definition with_id :: "kernel \<Rightarrow> nat \<Rightarrow> nat list \<Rightarrow> nat" where
  "with_id k tid xs = (case filter (\<lambda>t. t_task_id (tcbs k t) = tid) xs of [] \<Rightarrow> 0 | t # _ \<Rightarrow> t)"

lemma with_id_simps [simp]:
  "with_id k tid [] = 0"
  "with_id k tid (t # ts) = (if t_task_id (tcbs k t) = tid then t else with_id k tid ts)"
  by (simp_all add: with_id_def)

lemma find_id_list:
  assumes "dseg (tnext k) (tprev k) p fp xs lp 0"
  shows "find_id k tid fp = Some (with_id k tid xs)"
  using assms
proof (induction xs arbitrary: p fp)
  case Nil
  then show ?case by (subst find_id.simps) simp
next
  case (Cons t ts)
  then have "fp = t" "t \<noteq> 0" "dseg (tnext k) (tprev k) t (tnext k t) ts lp 0" by auto
  then show ?case using Cons.IH by (subst find_id.simps) auto
qed

end
