(* ===== verification/Sched_Properties.thy ===== *)
theory Sched_Properties
  imports Scheduler
begin

text \<open>
  The properties of the scheduler, and a small kernel state their witnesses run on: idle task 8
  ready at priority 0, task 16 running at priority 1 with tasks 32 and 48 ready behind it,
  task 64 asleep until tick 5.
\<close>

section \<open>A sample state\<close>

definition sample_perf :: perf_task where
  "sample_perf = \<lparr>pt_cycles_run = 0, pt_last_scheduled_cyc = 0, pt_max_burst_cyc = 0, pt_switches_in = 0\<rparr>"

definition sample_tcb :: "nat \<Rightarrow> nat \<Rightarrow> task_status \<Rightarrow> nat \<Rightarrow> nat \<Rightarrow> tcb" where
  "sample_tcb a p s nx pv =
     \<lparr>t_sp = 4096, t_mem_block = 1024, t_arg = 0, t_entry = 0, t_stack_size = 3072, t_task_id = a,
      t_parent_id = 0, t_name = [], t_delay_ticks = 0, t_ticks_run = 0, t_priority = p,
      t_base_priority = p, t_status = s, t_wait_sem = 0, t_wait_mutex = 0, t_held_mutexes = 0,
      t_next = nx, t_prev = pv, t_wait_next = 0, t_perf = sample_perf, t_syscall_result = 0,
      t_has_syscall_result = False, t_wnodes = (\<lambda>_. \<lparr>wn_next = None, wn_sem = 0, wn_owner = 0, wn_idx = 0\<rparr>),
      t_in_multiwait = False, t_narm = 0, t_magic = 0\<rparr>"

definition sample_tcbs :: "nat \<Rightarrow> tcb" where
  "sample_tcbs = (\<lambda>_. sample_tcb 0 0 TASK_TERMINATED 0 0)
     (8 := sample_tcb 8 0 TASK_READY 0 0, 16 := sample_tcb 16 1 TASK_RUNNING 0 0,
      32 := sample_tcb 32 1 TASK_READY 48 0, 48 := sample_tcb 48 1 TASK_READY 0 32,
      64 := (sample_tcb 64 2 TASK_DELAYED 0 0)\<lparr>t_delay_ticks := 5\<rparr>)"

definition sample_kernel :: kernel where
  "sample_kernel =
     \<lparr>tcbs = sample_tcbs,
      semas = (\<lambda>_. \<lparr>s_wait_q = 0, s_tail = 0, s_count = 0, s_limit = 1, s_observers = None\<rparr>),
      rmutexes = (\<lambda>_. \<lparr>m_owner = 0, m_recursion_count = 0, m_next_held = 0\<rparr>),
      ready_lists = (\<lambda>_. 0)(0 := 8, 1 := 32), ready_tails = (\<lambda>_. 0)(0 := 8, 1 := 48),
      blocked_list = 0, terminated_count = 0, delayed_list = 64, current_task = 16, idle_task = 8,
      ready_bitmap = 3, context_switch_count = 0, task_count = 5, scheduler_running = True,
      last_context_switch_tick = 0, ticks = 5, pendsv = False,
      k_perf_ipc = \<lparr>pi_takes = 0, pi_takes_blocked = 0, pi_gives = 0, pi_timeouts = 0\<rparr>,
      k_perf_sched = \<lparr>pc_raw = 0, pc_high = 0, pc_last = 0, ps_switches = 0, ps_idle_cycles = 0\<rparr>,
      k_perf_isr = \<lparr>pq_count = 0, pq_last = 0, pq_min = 0, pq_max = 0, pq_preemptions = 0\<rparr>\<rparr>"

definition sample_ready :: "nat \<Rightarrow> nat list" where
  "sample_ready = (\<lambda>_. [])(0 := [8], 1 := [32, 48])"

lemmas sample_defs = sample_kernel_def sample_tcbs_def sample_tcb_def sample_ready_def

lemma bit_three: "bit (3 :: u32w) p \<longleftrightarrow> p = 0 \<or> p = 1"
  by (auto simp: bit_numeral_rec bit_1_iff split: nat.splits)

lemma sample_fields [simp]:
  "tcbs sample_kernel = sample_tcbs" "current_task sample_kernel = 16" "idle_task sample_kernel = 8"
  "ticks sample_kernel = 5" "delayed_list sample_kernel = 64" "blocked_list sample_kernel = 0"
  by (simp_all add: sample_kernel_def)

lemma sample_bitmap: "ready_bitmap sample_kernel = 3"
  by (simp add: sample_kernel_def)

lemma sample_inv: "sched_inv sample_kernel sample_ready [] [64]"
proof -
  have "ready_ok sample_kernel p (sample_ready p)" if "p \<le> 7" for p
    by (auto simp: ready_ok_def sample_defs dll_def)
  moreover have "bit (ready_bitmap sample_kernel) p \<longleftrightarrow> p \<le> 7 \<and> sample_ready p \<noteq> []" for p
    unfolding sample_bitmap bit_three by (auto simp: sample_ready_def)
  moreover have "queue_ok sample_kernel (delayed_list sample_kernel) [64] {TASK_DELAYED}"
    "queue_ok sample_kernel (blocked_list sample_kernel) [] {TASK_BLOCKED, TASK_TERMINATED}"
    by (auto simp: queue_ok_def sample_defs dll_def)
  ultimately show ?thesis by (auto simp: sched_inv_def)
qed


section \<open>Choice of the next task\<close>

text \<open>
  Claim C11. \<open>get_next_task\<close> picks the head of the most urgent non-empty ready queue, the running
  task counting as the last of its own queue; it makes that task the running one, takes it off
  its queue and keeps the scheduler's invariant. Nothing but links, statuses and run-time
  accounts changes in any control block.
\<close>

theorem get_next_task_picks:
  assumes "sched_inv k R B D" "current_task k \<noteq> 0" "prio k (current_task k) \<le> MAX_PRIORITY"
    and "Q = ready_with k R" "p \<le> MAX_PRIORITY" "Q p = t # ts" "\<forall>q \<le> MAX_PRIORITY. p < q \<longrightarrow> Q q = []"
    and "ram t" "stack_ok k t"
  shows "\<exists>k'. get_next_task ram k = Inr (t, k') \<and> current_task k' = t \<and> status k' t = TASK_RUNNING \<and>
    sched_inv k' (Q(p := ts)) B D \<and> sched_only k k'"
proof -
  have q: "ready_with k R p = t # ts" using assms(4,6) by simp
  then have "ready_with k R p \<noteq> []" "t = List.hd (ready_with k R p)" by simp_all
  from get_next_task_result [OF assms(1-3,5) this(1) assms(7) [unfolded assms(4)] this(2), of ram] assms(8,9)
  show ?thesis unfolding assms(4) q list.sel by blast
qed

theorem get_next_task_picks_witness:
  "\<exists>k'. get_next_task (\<lambda>_. True) sample_kernel = Inr (32, k') \<and> current_task k' = 32 \<and>
    status k' 32 = TASK_RUNNING \<and> sched_inv k' (sample_ready(1 := [48, 16])) [] [64] \<and>
    sched_only sample_kernel k'"
proof -
  have q: "ready_with sample_kernel sample_ready = sample_ready(1 := [32, 48, 16])"
    by (simp add: ready_with_def sample_defs)
  show ?thesis
    using get_next_task_picks [OF sample_inv _ _ refl, of 1 32 "[48, 16]" "\<lambda>_. True"]
    unfolding q by (simp add: sample_ready_def sample_tcbs_def sample_tcb_def stack_ok_def)
qed

text \<open>
  Claim C12. No starvation within a priority: a task that is ready at the priority of the running
  task, with nothing more urgent ready, runs after at most as many context switches as there are
  tasks in that queue, and the switches all succeed.
\<close>

theorem round_robin_fair:
  assumes "sched_inv k R B D" "current_task k \<noteq> 0" "status k (current_task k) = TASK_RUNNING"
      "prio k (current_task k) = p" "p \<le> MAX_PRIORITY" "\<forall>q \<le> MAX_PRIORITY. p < q \<longrightarrow> R q = []"
    and "\<forall>t \<in> set (current_task k # R p). ram t \<and> stack_ok k t" and "t \<in> set (R p)"
  shows "\<exists>n \<le> length (R p). \<exists>k'. context_switches ram n k = Inr k' \<and> current_task k' = t"
proof -
  obtain i where i: "i < length (R p)" "R p ! i = t" using assms(8) by (meson in_set_conv_nth)
  obtain k' xs where s: "context_switches ram (Suc i) k = Inr k'"
    "current_task k' # xs = rotate (Suc i) (current_task k # R p)"
    using context_switches_rotate [OF assms(1-7)] by blast
  have "current_task k' = rotate (Suc i) (current_task k # R p) ! 0" unfolding s(2) [symmetric] by simp
  also have "\<dots> = R p ! i" using i(1) by (subst nth_rotate) simp_all
  finally show ?thesis using s(1) i by (intro exI [of _ "Suc i"]) auto
qed

theorem round_robin_fair_witness:
  "\<exists>n \<le> 2. \<exists>k'. context_switches (\<lambda>_. True) n sample_kernel = Inr k' \<and> current_task k' = 48"
  using round_robin_fair [OF sample_inv, of 1 "\<lambda>_. True" 48]
  by (simp add: sample_tcbs_def sample_tcb_def sample_ready_def stack_ok_def numeral_2_eq_2)

section \<open>Delays\<close>

lemma delay_woken_iff:
  assumes I: "sched_inv k R B D" and c: "c \<in> set D" and p: "\<forall>t \<in> set D. prio k t \<le> 7"
  shows "\<exists>h k'. wake_sleepers now k False = Some (h, k') \<and> (status k' c = TASK_READY \<longleftrightarrow> delay_of k c \<le> now)"
proof -
  let ?W = "due k now D"
  obtain h k' where w: "wake_sleepers now k False = Some (h, k')"
    "sched_inv k' (ready_all k ?W R) B (drop (length ?W) D)"
    using wake_sleepers_result [OF I p] by blast
  have m: "c \<in> set ?W \<longleftrightarrow> delay_of k c \<le> now" using due_set [OF I] c by auto
  have "D = ?W @ drop (length ?W) D"
    by (metis append_eq_conv_conj due_def takeWhile_dropWhile_id)
  then have or: "c \<in> set ?W \<or> c \<in> set (drop (length ?W) D)" using c by (metis Un_iff set_append)
  have "status k' c = TASK_READY" if "c \<in> set ?W"
    using that p c sched_inv_status(1) [OF w(2), of "prio k c" c] by (simp add: ready_all_def)
  moreover have "status k' c = TASK_DELAYED" if "c \<in> set (drop (length ?W) D)"
    using sched_inv_status(3) [OF w(2) that] .
  moreover have "c \<notin> set ?W" if "status k' c = TASK_DELAYED"
    using that calculation(1) by auto
  ultimately have "status k' c = TASK_READY \<longleftrightarrow> delay_of k c \<le> now" using or m by auto
  then show ?thesis using w(1) by blast
qed

text \<open>
  Claim C13. A running task that calls \<open>task_delay n\<close> leaves the processor (a switch is pended), is
  filed in the delay list, and the wake-up pass of the tick interrupt makes it ready exactly from
  tick \<open>ticks + n\<close> on, computed modulo $2^{32}$ as the code does; the pass always terminates.
\<close>

theorem task_delay_on_time:
  assumes "sched_inv k R B D" "current_task k = c" "c \<noteq> 0" "c \<noteq> idle_task k"
      "status k c = TASK_RUNNING" "n \<noteq> 0" "\<forall>t \<in> insert c (set D). prio k t \<le> MAX_PRIORITY"
  shows "\<exists>k' D'. task_delay n k = Inr k' \<and> pendsv k' \<and> sched_inv k' R B D' \<and>
    set D' = insert c (set D) \<and>
    (\<forall>now. \<exists>h k''. wake_sleepers now k' False = Some (h, k'') \<and>
       (status k'' c = TASK_READY \<longleftrightarrow> u32 (ticks k + n) \<le> now))"
proof -
  obtain k' D' where d: "task_delay n k = Inr k'" "sched_inv k' R B D'" "set D' = insert c (set D)"
    "delay_of k' c = u32 (ticks k + n)" "pendsv k'" "\<forall>x. prio k' x = prio k x"
    using task_delay_result [OF assms(1-6)] by blast
  have p: "\<forall>t \<in> set D'. prio k' t \<le> 7" using assms(7) d(3,6) by simp
  have c: "c \<in> set D'" using d(3) by simp
  show ?thesis using d delay_woken_iff [OF d(2) c p] by metis
qed

theorem task_delay_on_time_witness:
  "\<exists>k' D'. task_delay 3 sample_kernel = Inr k' \<and> pendsv k' \<and> sched_inv k' sample_ready [] D' \<and>
    set D' = {16, 64} \<and>
    (\<forall>now. \<exists>h k''. wake_sleepers now k' False = Some (h, k'') \<and> (status k'' 16 = TASK_READY \<longleftrightarrow> 8 \<le> now))"
proof -
  have "u32 8 = 8" by (simp add: u32_def)
  then show ?thesis
    using task_delay_on_time [OF sample_inv, of 16 3] by (simp add: sample_tcbs_def sample_tcb_def)
qed

text \<open>
  The delay list compares deadlines as unsigned numbers, so a delay whose deadline passes
  $2^{32}$ ends at once: every later tick up to the wrap-around, the next one included, wakes the
  task although its \<open>n\<close> ticks have not passed.
\<close>

theorem task_delay_wraps:
  assumes "sched_inv k R B D" "current_task k = c" "c \<noteq> 0" "c \<noteq> idle_task k"
      "status k c = TASK_RUNNING" "\<forall>t \<in> insert c (set D). prio k t \<le> MAX_PRIORITY"
    and "n < 2 ^ 32" "ticks k < 2 ^ 32" "2 ^ 32 \<le> ticks k + n" "ticks k \<le> now"
  shows "\<exists>k' h k''. task_delay n k = Inr k' \<and> wake_sleepers now k' False = Some (h, k'') \<and>
    status k'' c = TASK_READY"
proof -
  have n: "n \<noteq> 0" using assms(8,9) by auto
  obtain k' D' where d: "task_delay n k = Inr k'" "sched_inv k' R B D'" "set D' = insert c (set D)"
    "delay_of k' c = u32 (ticks k + n)" "\<forall>x. prio k' x = prio k x"
    using task_delay_result [OF assms(1-5) n] by blast
  have p: "\<forall>t \<in> set D'. prio k' t \<le> 7" using assms(6) d(3,5) by simp
  have "u32 (ticks k + n) = ticks k + n - 2 ^ 32"
    using assms(7-9) by (simp add: u32_def mod_if)
  then have "delay_of k' c \<le> now" using assms(7,10) d(4) by simp
  moreover have "c \<in> set D'" using d(3) by simp
  ultimately show ?thesis using d(1) delay_woken_iff [OF d(2) _ p] by metis
qed

theorem task_delay_wraps_witness:
  "\<exists>k' h k''. task_delay 0xFFFFFFFF sample_kernel = Inr k' \<and>
    wake_sleepers 6 k' False = Some (h, k'') \<and> status k'' 16 = TASK_READY"
  using task_delay_wraps [OF sample_inv, of 16 "0xFFFFFFFF" 6] by (simp add: sample_tcbs_def sample_tcb_def)

section \<open>Priorities and look-up\<close>

text \<open>
  \<open>task_change_priority\<close> moves a ready task from its queue to the tail of the queue of
  the new priority and keeps the invariant, bitmap included.
\<close>

theorem task_change_priority_moves:
  assumes "sched_inv k R B D" "q \<le> MAX_PRIORITY" "t \<in> set (R q)" "p \<le> MAX_PRIORITY"
  shows "sched_inv (task_change_priority t p k)
    ((R(q := remove1 t (R q)))(p := (R(q := remove1 t (R q))) p @ [t])) B D"
  by (rule task_change_priority_ready [OF assms])

theorem task_change_priority_moves_witness:
  "sched_inv (task_change_priority 32 4 sample_kernel) (sample_ready(1 := [48], 4 := [32])) [] [64]"
  using task_change_priority_moves [OF sample_inv, of 1 32 4] by (simp add: sample_ready_def)

lemma find_in_ready_list:
  assumes I: "sched_inv k R B D" and "\<forall>p \<in> set ps. p \<le> 7"
  shows "find_in_ready k tid ps = Some (with_id k tid (concat (map R ps)))"
  using assms(2)
proof (induction ps)
  case (Cons p ps)
  have r: "find_id k tid (ready_lists k p) = Some (with_id k tid (R p))"
    using sched_invD(1) [OF I, of p] Cons.prems by (auto simp: ready_ok_def dll_def intro: find_id_list)
  have a: "with_id k tid (xs @ ys) = (if with_id k tid xs \<noteq> 0 then with_id k tid xs else with_id k tid ys)"
    if "0 \<notin> set xs" for xs ys
    using that by (induction xs) auto
  have "0 \<notin> set (R p)" using sched_inv_nonnull [OF I on_listsI(1)] Cons.prems by fastforce
  then show ?case using r Cons a by auto
qed simp

lemma get_task_by_id_result:
  assumes I: "sched_inv k R B D"
  shows "get_task_by_id tid k = Inr (if t_task_id (tcbs k (current_task k)) = tid then current_task k
    else with_id k tid (concat (map R [0..<7]) @ B @ D))"
proof -
  have a: "with_id k tid (xs @ ys) = (if with_id k tid xs \<noteq> 0 then with_id k tid xs else with_id k tid ys)"
    if "0 \<notin> set xs" for xs ys
    using that by (induction xs) auto
  have z: "0 \<notin> set (concat (map R [0..<7]))" "0 \<notin> set B"
    using sched_inv_nonnull [OF I, of 0] on_listsI(1-3) [where t = 0]
    by (auto simp del: upt_rec_numeral) (meson less_imp_le)+
  have b: "find_id k tid (blocked_list k) = Some (with_id k tid B)"
    "find_id k tid (delayed_list k) = Some (with_id k tid D)"
    using sched_invD(3,4) [OF I] by (auto simp: queue_ok_def dll_def intro: find_id_list)
  show ?thesis
    using find_in_ready_list [OF I, of "[0..<7]" tid]
    by (simp add: get_task_by_id_def b a [OF z(1)] a [OF z(2)] del: upt_rec_numeral)
qed

text \<open>
  Claim C14. \<open>get_task_by_id\<close> scans the ready queues below \<open>MAX_PRIORITY\<close> only: a task that is
  ready at the top priority is never found, so it cannot be killed, unblocked or renamed by id,
  while every other ready, blocked or sleeping task with a unique id is found.
\<close>

theorem get_task_by_id_misses_top:
  assumes "sched_inv k R B D" "t \<in> on_lists R B D" "t_task_id (tcbs k (current_task k)) \<noteq> tid"
    and "\<forall>x \<in> on_lists R B D. t_task_id (tcbs k x) = tid \<longleftrightarrow> x = t"
  shows "get_task_by_id tid k = Inr (if t \<in> set (R MAX_PRIORITY) then 0 else t)"
proof -
  let ?xs = "concat (map R [0..<7]) @ B @ D"
  have sub: "set ?xs \<subseteq> on_lists R B D" by (fastforce simp: on_lists_def)
  have top: "t \<in> set ?xs \<longleftrightarrow> t \<notin> set (R 7)"
  proof
    assume "t \<notin> set (R 7)"
    then obtain p where "t \<in> set B \<or> t \<in> set D \<or> p < 7 \<and> t \<in> set (R p)"
      using assms(2) by (elim on_listsE) (metis le_less, auto)
    then show "t \<in> set ?xs" by (auto simp del: upt_rec_numeral)
  next
    assume "t \<in> set ?xs"
    then show "t \<notin> set (R 7)"
      using sched_inv_disjoint(1) [OF assms(1), of 7 _ t] sched_inv_disjoint(2) [OF assms(1), of 7 t]
      by (auto simp del: upt_rec_numeral) (metis less_imp_le less_irrefl)
  qed
  have "with_id k tid xs = (if t \<in> set xs then t else 0)" if "set xs \<subseteq> on_lists R B D" for xs
    using that assms(4) by (induction xs) auto
  from this [OF sub] show ?thesis
    using get_task_by_id_result [OF assms(1)] assms(3) top by simp
qed

definition sample_top :: kernel where
  "sample_top = task_change_priority 32 7 sample_kernel"

theorem get_task_by_id_misses_top_witness: "get_task_by_id 32 sample_top = Inr 0"
proof -
  have I: "sched_inv sample_top ((sample_ready(1 := [48]))(7 := [32])) [] [64]"
    using task_change_priority_ready [OF sample_inv, of 1 32 7] by (simp add: sample_ready_def sample_top_def)
  have e: "on_lists ((sample_ready(1 := [48]))(7 := [32])) [] [64] = {8, 48, 32, 64}"
    by (auto simp: on_lists_def sample_ready_def atMost_nat_numeral split: if_splits)
  have "t_task_id (tcbs (rl_remove 32 sample_kernel) x) = t_task_id (sample_tcbs x)" for x
    using links_only_fields(9) [OF rl_remove_links_only [of sample_kernel 32], of x] by simp
  then have i: "t_task_id (tcbs sample_top x) = t_task_id (sample_tcbs x)" for x
    by (simp add: sample_top_def task_change_priority_def Let_def add_to_ready_list_def
        remove_from_ready_list_def rl_append_def)
  have c: "current_task sample_top = 16"
    by (simp add: sample_top_def task_change_priority_def Let_def add_to_ready_list_def
        remove_from_ready_list_def)
  show ?thesis
    using get_task_by_id_misses_top [OF I, of 32 32] unfolding e i c
    by (simp add: sample_tcbs_def sample_tcb_def)
qed

section \<open>Snapshots\<close>

text \<open>Filling an array of \<open>mx\<close> entries from a list.\<close>

definition fill_to :: "nat \<Rightarrow> nat list \<Rightarrow> nat list \<Rightarrow> nat list" where
  "fill_to mx out xs = out @ take (mx - length out) xs"

lemma fill_to_append: "fill_to mx (fill_to mx out xs) ys = fill_to mx out (xs @ ys)"
proof -
  have "mx - (length out + min (length xs) (mx - length out)) = mx - length out - length xs" by auto
  then show ?thesis by (simp add: fill_to_def)
qed

lemma fill_to_full: "mx \<le> length out \<Longrightarrow> fill_to mx out xs = out"
  by (simp add: fill_to_def)

lemma snap_list_result:
  assumes "dseg (tnext k) (tprev k) p fp xs lp 0"
  shows "snap_list k mx fp out =
    Some (fill_to mx out (filter (\<lambda>t. t \<noteq> current_task k) xs))"
  unfolding fill_to_def
  using assms
proof (induction xs arbitrary: p fp out)
  case Nil
  then show ?case by (subst snap_list.simps) simp
next
  case (Cons t ts)
  then have d: "fp = t" "t \<noteq> 0" "dseg (tnext k) (tprev k) t (tnext k t) ts lp 0" by auto
  show ?case
  proof (cases "length out < mx")
    case True
    then have "mx - length out = Suc (mx - Suc (length out))" by simp
    then show ?thesis using True d Cons.IH [OF d(3)] by (subst snap_list.simps) simp
  qed (use d in \<open>subst snap_list.simps, simp\<close>)
qed

lemma snap_ready_result:
  assumes I: "sched_inv k R B D" and "\<forall>p \<in> set ps. p \<le> 7"
  shows "snap_ready k mx ps out =
    Some (fill_to mx out (filter (\<lambda>t. t \<noteq> current_task k) (concat (map R ps))))"
  using assms(2)
proof (induction ps arbitrary: out)
  case (Cons p ps)
  have "snap_list k mx (ready_lists k p) o' =
      Some (fill_to mx o' (filter (\<lambda>t. t \<noteq> current_task k) (R p)))" for o'
    using sched_invD(1) [OF I, of p] Cons.prems by (auto simp: ready_ok_def dll_def intro: snap_list_result)
  then show ?case using Cons by (simp add: fill_to_append fill_to_full)
qed (simp add: fill_to_def)

lemma distinct_lists:
  assumes I: "sched_inv k R B D"
  shows "distinct (concat (map R [0..<8]) @ B @ D)"
proof -
  have "distinct (concat (map R [0..<n]))" if "n \<le> 8" for n
    using that
  proof (induction n)
    case (Suc n)
    have "distinct (R n)" using sched_invD(1) [OF I, of n] Suc.prems by (auto simp: ready_ok_def)
    moreover have "set (R q) \<inter> set (R n) = {}" if "q < n" for q
      using sched_inv_disjoint(1) [OF I, of q n] that Suc.prems by fastforce
    ultimately show ?case using Suc by (auto simp: disjoint_iff)
  qed simp
  moreover have "distinct B" "distinct D" using sched_invD(3,4) [OF I] by (auto simp: queue_ok_def)
  moreover have "set B \<inter> set D = {}" using sched_inv_disjoint(3) [OF I] by auto
  moreover have "set (R q) \<inter> (set B \<union> set D) = {}" if "q < 8" for q
    using sched_inv_disjoint(2) [OF I, of q] that by fastforce
  ultimately show ?thesis by (auto simp: disjoint_iff simp del: upt_rec_numeral)
qed

text \<open>
  Claim C15. \<open>task_snapshot_list\<close> writes the running task and then every other task of the ready,
  blocked and delay lists, up to the capacity of the array, and never the same task twice; also
  at start-up, when the running task is still on its ready queue.
\<close>

theorem task_snapshot_complete:
  assumes "sched_inv k R B D" "current_task k = c" "c \<noteq> 0" "0 < mx"
  defines "live \<equiv> c # filter (\<lambda>t. t \<noteq> c) (concat (map R [0..<MAX_PRIORITY + 1]) @ B @ D)"
  shows "task_snapshot_list mx k = Inr (take mx live) \<and> distinct live"
proof -
  let ?f = "\<lambda>xs. filter (\<lambda>t. t \<noteq> c) xs"
  have q: "snap_list k mx (blocked_list k) out = Some (fill_to mx out (?f B))"
    "snap_list k mx (delayed_list k) out = Some (fill_to mx out (?f D))" for out
    using sched_invD(3,4) [OF assms(1)] snap_list_result [of k] assms(2)
    by (auto simp: queue_ok_def dll_def)
  have r: "snap_ready k mx [0..<8] [c] = Some (fill_to mx [c] (?f (concat (map R [0..<8]))))"
    using snap_ready_result [OF assms(1), of "[0..<8]" mx "[c]"] assms(2)
    by (simp del: upt_rec_numeral)
  have l: "live = c # ?f (concat (map R [0..<8])) @ ?f B @ ?f D"
    by (simp add: live_def del: upt_rec_numeral)
  have "task_snapshot_list mx k = Inr (take mx live)"
    using assms(2-4) r q unfolding l task_snapshot_list_def
    by (simp add: fill_to_append del: upt_rec_numeral) (simp add: fill_to_def take_Cons')
  moreover have "distinct live"
    using distinct_filter [OF distinct_lists [OF assms(1)], of "\<lambda>t. t \<noteq> c"]
    by (simp only: live_def distinct.simps set_filter) simp
  ultimately show ?thesis by blast
qed

theorem task_snapshot_complete_witness: "task_snapshot_list 3 sample_kernel = Inr [16, 8, 32]"
  using task_snapshot_complete [OF sample_inv, of 16 3]
  by (simp add: sample_ready_def take_Cons' upt_rec)

section \<open>The cycle counter\<close>

text \<open>\<open>cycles_at p c\<close>: the 64-bit extension stands at cycle \<open>c\<close>.\<close>

definition cycles_at :: "perf_sched \<Rightarrow> nat \<Rightarrow> bool" where
  "cycles_at p c \<longleftrightarrow> pc_last p = of_nat c \<and> pc_high p = of_nat (c - c mod 2 ^ 32)"

text \<open>
  \<open>v_perf_cycles\<close> extends the 32-bit cycle register to 64 bits: when it is called at least
  once per wrap of the register it returns the true cycle count, and it keeps its state in step.
\<close>

theorem v_perf_cycles_exact:
  assumes "cycles_at p c" "c \<le> c'" "c' < c + 2 ^ 32" "pc_raw p = of_nat c'"
  shows "fst (v_perf_cycles p) = of_nat c' \<and> cycles_at (snd (v_perf_cycles p)) c'"
proof -
  let ?M = "2 ^ 32 :: nat"
  define q r where "q = c div ?M" and "r = c mod ?M"
  define q' r' where "q' = c' div ?M" and "r' = c' mod ?M"
  have c: "c = q * ?M + r" "r < ?M" "c' = q' * ?M + r'" "r' < ?M"
    by (simp_all add: q_def r_def q'_def r'_def)
  have cmp: "(of_nat c' :: u32w) < of_nat c \<longleftrightarrow> r' < r"
    by (simp add: word_less_nat_alt unat_of_nat r_def r'_def)
  have qq: "q' = (if r' < r then q + 1 else q)"
  proof -
    have "q \<le> q'" using assms(2) unfolding q_def q'_def by (rule div_le_mono)
    moreover have "q' \<le> (c + ?M) div ?M" using assms(3) unfolding q'_def by (intro div_le_mono) simp
    ultimately have "q \<le> q'" "q' \<le> q + 1" by (simp_all add: q_def)
    then show ?thesis using assms(2,3) c by (cases "q' = q") (auto split: if_splits)
  qed
  have h: "pc_high p = of_nat (q * ?M)" "pc_last p = of_nat c"
    using assms(1) by (simp_all add: cycles_at_def q_def minus_mod_eq_div_mult)
  have "pc_high (snd (v_perf_cycles p)) = of_nat (q' * ?M)"
    using qq cmp h assms(4) by (simp add: v_perf_cycles_def Let_def algebra_simps)
  moreover have "(ucast (of_nat c' :: u32w) :: 64 word) = of_nat r'"
    unfolding r'_def by (subst unsigned_of_nat) (simp add: take_bit_eq_mod)
  moreover have "fst (v_perf_cycles p) = pc_high (snd (v_perf_cycles p)) + ucast (pc_raw p)"
    "pc_last (snd (v_perf_cycles p)) = pc_raw p"
    by (simp_all add: v_perf_cycles_def Let_def)
  ultimately show ?thesis
    unfolding cycles_at_def assms(4) q'_def minus_mod_eq_div_mult
    by (metis c(3) of_nat_add q'_def)
qed

theorem v_perf_cycles_exact_witness:
  "fst (v_perf_cycles \<lparr>pc_raw = 4, pc_high = 0, pc_last = 0xFFFFFFFE, ps_switches = 0,
     ps_idle_cycles = 0\<rparr>) = 0x100000004"
proof -
  let ?p = "\<lparr>pc_raw = 4, pc_high = 0, pc_last = 0xFFFFFFFE, ps_switches = 0, ps_idle_cycles = 0\<rparr> :: perf_sched"
  have "cycles_at ?p 0xFFFFFFFE" by (simp add: cycles_at_def)
  moreover have "pc_raw ?p = of_nat 0x100000004" by simp
  ultimately have "fst (v_perf_cycles ?p) = of_nat 0x100000004"
    using v_perf_cycles_exact [of ?p "0xFFFFFFFE" "0x100000004", THEN conjunct1] by simp
  then show ?thesis by simp
qed

end
