(* ===== verification/Ipc.thy ===== *)
theory Ipc
  imports Scheduler
begin

text \<open>
  Semaphores, mutexes with priority inheritance, and the teardown of a terminating task
  (\<open>kernel/ipc.c\<close>). The calls are the handler-mode bodies: a call that blocks returns
  \<open>V_SYSCALL_BLOCKED\<close> and its result reaches the task through \<open>v_syscall_wake_result\<close>. The
  branches for thread mode, which such a build reaches only before the trap, are not repeated.
  Loops over wait queues, held mutexes and observers are \<open>partial_function (option)\<close>.
\<close>

section \<open>Definitions\<close>

abbreviation (input) V_SYSCALL_BLOCKED :: int where "V_SYSCALL_BLOCKED \<equiv> 0x7FFF0000"
abbreviation (input) V_MWAIT_WOKEN :: int where "V_MWAIT_WOKEN \<equiv> -2"

abbreviation wnext :: "kernel \<Rightarrow> nat \<Rightarrow> nat" where "wnext k t \<equiv> t_wait_next (tcbs k t)"

text \<open>The \<open>atomic_t\<close> counters are \<open>int32_t\<close>.\<close>

definition s32 :: "int \<Rightarrow> int" where
  "s32 x = (x + 2 ^ 31) mod 2 ^ 32 - 2 ^ 31"

definition atomic_inc :: "int \<Rightarrow> int" where
  "atomic_inc c = s32 (c + 1)"

definition atomic_dec :: "int \<Rightarrow> int" where
  "atomic_dec c = s32 (c - 1)"

subsection \<open>Wait queues\<close>

partial_function (option) wait_pos :: "kernel \<Rightarrow> nat \<Rightarrow> nat \<Rightarrow> nat option" where
  "wait_pos k pr p =
     (if wnext k p \<noteq> 0 \<and> prio k (wnext k p) \<ge> pr then wait_pos k pr (wnext k p) else Some p)"

declare wait_pos.simps [code]

definition wait_q_enqueue :: "nat \<Rightarrow> nat \<Rightarrow> kernel \<Rightarrow> kernel kres" where
  "wait_q_enqueue sem task k =
     (let k = upd_tcb task (\<lambda>t. t\<lparr>t_wait_next := 0\<rparr>) k;
          q = s_wait_q (semas k sem)
      in if q = 0 \<or> prio k q < prio k task then
           let k = upd_tcb task (\<lambda>t. t\<lparr>t_wait_next := q\<rparr>) k;
               k = upd_sema sem (\<lambda>s. s\<lparr>s_wait_q := task\<rparr>) k
           in Inr (if wnext k task = 0 then upd_sema sem (\<lambda>s. s\<lparr>s_tail := task\<rparr>) k else k)
         else kbind (walk_end (wait_pos k (prio k task) q)) (\<lambda>p.
           let k = upd_tcb task (\<lambda>t. t\<lparr>t_wait_next := wnext k p\<rparr>) k;
               k = upd_tcb p (\<lambda>t. t\<lparr>t_wait_next := task\<rparr>) k
           in Inr (if wnext k task = 0 then upd_sema sem (\<lambda>s. s\<lparr>s_tail := task\<rparr>) k else k)))"

definition wait_q_dequeue :: "nat \<Rightarrow> kernel \<Rightarrow> nat \<times> kernel" where
  "wait_q_dequeue sem k =
     (let task = s_wait_q (semas k sem)
      in if task = 0 then (0, k)
         else
           let k = upd_sema sem (\<lambda>s. s\<lparr>s_wait_q := wnext k task\<rparr>) k;
               k = (if s_wait_q (semas k sem) = 0 then upd_sema sem (\<lambda>s. s\<lparr>s_tail := 0\<rparr>) k else k)
           in (task, upd_tcb task (\<lambda>t. t\<lparr>t_wait_next := 0\<rparr>) k))"

text \<open>
  The pointer-to-pointer walk of \<open>wait_q_remove\<close>: \<open>prv\<close> is the node whose link \<open>pp\<close> is (0 for
  the queue head), \<open>cur\<close> is \<open>*pp\<close>.
\<close>

partial_function (option) wait_q_seek :: "kernel \<Rightarrow> nat \<Rightarrow> nat \<Rightarrow> nat \<Rightarrow> (nat \<times> nat) option" where
  "wait_q_seek k task prv cur =
     (if cur \<noteq> 0 \<and> cur \<noteq> task then wait_q_seek k task cur (wnext k cur) else Some (prv, cur))"

declare wait_q_seek.simps [code]

definition wait_q_remove :: "nat \<Rightarrow> nat \<Rightarrow> kernel \<Rightarrow> kernel kres" where
  "wait_q_remove sem task k =
     kbind (walk_end (wait_q_seek k task 0 (s_wait_q (semas k sem)))) (\<lambda>(prv, cur).
       if cur = 0 then Inr k
       else
         let k = (if prv = 0 then upd_sema sem (\<lambda>s. s\<lparr>s_wait_q := wnext k task\<rparr>) k
                  else upd_tcb prv (\<lambda>t. t\<lparr>t_wait_next := wnext k task\<rparr>) k);
             k = (if s_tail (semas k sem) = task then upd_sema sem (\<lambda>s. s\<lparr>s_tail := prv\<rparr>) k else k)
         in Inr (upd_tcb task (\<lambda>t. t\<lparr>t_wait_next := 0\<rparr>) k))"

subsection \<open>Initialisation\<close>

definition sema_init :: "nat \<Rightarrow> nat \<Rightarrow> nat \<Rightarrow> kernel \<Rightarrow> kernel" where
  "sema_init sem initial_count limit k =
     upd_sema sem (\<lambda>s. s\<lparr>s_wait_q := 0, s_tail := 0, s_count := s32 (int initial_count),
       s_limit := s32 (int limit), s_observers := None\<rparr>) k"

definition v_semaphore_create_binary_static :: "nat \<Rightarrow> kernel \<Rightarrow> nat \<times> kernel" where
  "v_semaphore_create_binary_static buf k =
     (if buf = 0 then (0, k) else (buf, sema_init buf 0 1 k))"

definition v_semaphore_create_counting_static :: "nat \<Rightarrow> nat \<Rightarrow> nat \<Rightarrow> kernel \<Rightarrow> nat \<times> kernel" where
  "v_semaphore_create_counting_static max_count initial_count buf k =
     (if buf = 0 \<or> initial_count > max_count then (0, k)
      else (buf, sema_init buf initial_count max_count k))"

definition v_mutex_create_static :: "nat \<Rightarrow> kernel \<Rightarrow> nat \<times> kernel" where
  "v_mutex_create_static buf k =
     (if buf = 0 then (0, k)
      else (buf, upd_rmutex buf (\<lambda>m. m\<lparr>m_owner := 0, m_recursion_count := 0, m_next_held := 0\<rparr>)
             (sema_init buf 1 1 k)))"

definition v_mutex_create_recursive_static :: "nat \<Rightarrow> kernel \<Rightarrow> nat \<times> kernel" where
  "v_mutex_create_recursive_static buf k =
     (if buf = 0 then (0, k)
      else (buf, upd_rmutex buf (\<lambda>m. m\<lparr>m_owner := 0, m_recursion_count := 0, m_next_held := 0\<rparr>)
             (sema_init buf 1 1 k)))"

subsection \<open>Counters of perf.c\<close>

definition v_perf_on_ipc_take_attempt :: "kernel \<Rightarrow> kernel" where
  "v_perf_on_ipc_take_attempt k =
     k\<lparr>k_perf_ipc := (k_perf_ipc k)\<lparr>pi_takes := pi_takes (k_perf_ipc k) + 1\<rparr>\<rparr>"

definition v_perf_on_ipc_take_blocked :: "kernel \<Rightarrow> kernel" where
  "v_perf_on_ipc_take_blocked k =
     k\<lparr>k_perf_ipc := (k_perf_ipc k)\<lparr>pi_takes_blocked := pi_takes_blocked (k_perf_ipc k) + 1\<rparr>\<rparr>"

definition v_perf_on_ipc_give :: "kernel \<Rightarrow> kernel" where
  "v_perf_on_ipc_give k =
     k\<lparr>k_perf_ipc := (k_perf_ipc k)\<lparr>pi_gives := pi_gives (k_perf_ipc k) + 1\<rparr>\<rparr>"

subsection \<open>Semaphores\<close>

definition v_wake_deadline :: "nat \<Rightarrow> kernel \<Rightarrow> nat" where
  "v_wake_deadline ticks_to_wait k =
     (let d = u32 (ticks k + ticks_to_wait) in if d = 0 then 1 else d)"

definition semaphore_take_common :: "nat \<Rightarrow> nat \<Rightarrow> kernel \<Rightarrow> (int \<times> kernel) kres" where
  "semaphore_take_common s ticks_to_wait k =
     (let c = current_task k;
          k = v_perf_on_ipc_take_attempt k
      in if s_count (semas k s) > 0 then
           Inr (VA_PASS, upd_sema s (\<lambda>x. x\<lparr>s_count := atomic_dec (s_count x)\<rparr>) k)
         else if ticks_to_wait = 0 then Inr (VA_FAIL, k)
         else
           let k = upd_tcb c (\<lambda>t. t\<lparr>t_status := TASK_BLOCKED,
                     t_delay_ticks := (if ticks_to_wait = V_WAIT_FOREVER then 0
                                       else v_wake_deadline ticks_to_wait k),
                     t_wait_sem := s\<rparr>) k
           in kbind (wait_q_enqueue s c k) (\<lambda>k.
              kbind (add_to_blocked_list c k) (\<lambda>k.
                Inr (V_SYSCALL_BLOCKED, (v_perf_on_ipc_take_blocked k)\<lparr>pendsv := True\<rparr>))))"

definition v_semaphore_take :: "nat \<Rightarrow> nat \<Rightarrow> kernel \<Rightarrow> (int \<times> kernel) kres" where
  "v_semaphore_take sem ticks_to_wait k =
     (if sem = 0 then Inr (VA_FAIL, k) else semaphore_take_common sem ticks_to_wait k)"

text \<open>
  Waking the tasks that observe a semaphore through \<open>v_wait\<close>; \<open>n\<close> is the node in hand.
\<close>

partial_function (option) wake_observers :: "(nat \<times> nat) option \<Rightarrow> kernel \<Rightarrow> kernel option" where
  "wake_observers n k =
     (case n of
        None \<Rightarrow> Some k
      | Some (a, i) \<Rightarrow>
          let node = t_wnodes (tcbs k a) i;
              t = wn_owner node
          in if \<not> t_in_multiwait (tcbs k t) then wake_observers (wn_next node) k
             else
               let k = upd_tcb t (\<lambda>x. x\<lparr>t_in_multiwait := False, t_delay_ticks := 0\<rparr>) k;
                   k = remove_from_blocked_list t k;
                   k = upd_tcb t (\<lambda>x. x\<lparr>t_status := TASK_READY\<rparr>) k;
                   k = add_to_ready_list t k;
                   k = v_syscall_wake_result t V_MWAIT_WOKEN k
               in wake_observers (wn_next (t_wnodes (tcbs k a) i)) k)"

declare wake_observers.simps [code]

definition mwait_wake_observers :: "nat \<Rightarrow> kernel \<Rightarrow> kernel kres" where
  "mwait_wake_observers s k = walk_end (wake_observers (s_observers (semas k s)) k)"

text \<open>
  \<open>semaphore_give_common\<close> also returns what the caller's \<open>*pxHigherPriorityTaskWoken\<close> becomes;
  \<open>woken\<close> is its value before, \<open>None\<close> a NULL pointer.
\<close>

definition semaphore_give_common ::
    "nat \<Rightarrow> bool option \<Rightarrow> kernel \<Rightarrow> (int \<times> bool option \<times> kernel) kres" where
  "semaphore_give_common s woken k =
     (let k = v_perf_on_ipc_give k;
          (to_unblock, k) = wait_q_dequeue s k
      in if to_unblock \<noteq> 0 then
           let k = upd_tcb to_unblock (\<lambda>t. t\<lparr>t_wait_sem := 0\<rparr>) k;
               k = remove_from_blocked_list to_unblock k;
               k = upd_tcb to_unblock (\<lambda>t. t\<lparr>t_status := TASK_READY\<rparr>) k;
               k = add_to_ready_list to_unblock k;
               k = v_syscall_wake_result to_unblock VA_PASS k;
               woken = (if woken \<noteq> None \<and> prio k to_unblock > prio k (current_task k)
                        then Some True else woken)
           in Inr (VA_PASS, woken, k)
         else if s_count (semas k s) \<ge> s_limit (semas k s) then Inr (VA_FAIL, woken, k)
         else
           let k = upd_sema s (\<lambda>x. x\<lparr>s_count := atomic_inc (s_count x)\<rparr>) k
           in kbind (mwait_wake_observers s k) (\<lambda>k. Inr (VA_PASS, woken, k)))"

definition v_semaphore_give :: "nat \<Rightarrow> kernel \<Rightarrow> (int \<times> kernel) kres" where
  "v_semaphore_give sem k =
     (if sem = 0 then Inr (VA_FAIL, k)
      else kbind (semaphore_give_common sem None k) (\<lambda>(r, _, k). Inr (r, k)))"

text \<open>
  The priority check of a call from an interrupt. Exception numbers from \<open>16\<close> on are external
  interrupts (\<open>VAIOS_ARCH_FIRST_EXTERNAL_IRQ\<close>) and a smaller number is more urgent.
\<close>

definition vaios_isr_priority_is_safe :: "nat \<Rightarrow> nat \<Rightarrow> nat \<Rightarrow> bool" where
  "vaios_isr_priority_is_safe max_syscall vectactive irq_prio =
     (if vectactive < 16 then True else \<not> irq_prio < max_syscall)"

definition v_semaphore_give_from_isr ::
    "nat \<Rightarrow> nat \<Rightarrow> nat \<Rightarrow> nat \<Rightarrow> bool option \<Rightarrow> kernel \<Rightarrow> (int \<times> bool option \<times> kernel) kres" where
  "v_semaphore_give_from_isr max_syscall vectactive irq_prio sem woken k =
     (if sem = 0 then Inr (VA_FAIL, woken, k)
      else if \<not> vaios_isr_priority_is_safe max_syscall vectactive irq_prio then Inl K_Panic
      else semaphore_give_common sem woken k)"

subsection \<open>Mutexes\<close>

definition mutex_top_waiter_prio :: "nat \<Rightarrow> kernel \<Rightarrow> nat" where
  "mutex_top_waiter_prio rm k =
     (let q = s_wait_q (semas k rm) in if q \<noteq> 0 then prio k q else 0)"

text \<open>
  The inheritance walk along the chain of owners. \<open>depth\<close> is the loop counter of the code, which
  panics beyond \<open>MAX_PI_DEPTH\<close>, so the recursion is bounded.
\<close>

function pi_boost :: "nat \<Rightarrow> nat \<Rightarrow> nat \<Rightarrow> kernel \<Rightarrow> kernel kres" where
  "pi_boost depth c m k =
     (if m \<noteq> 0 \<and> m_owner (rmutexes k m) \<noteq> 0 \<and> prio k (m_owner (rmutexes k m)) < prio k c then
        if depth + 1 > MAX_PI_DEPTH then Inl K_Panic
        else
          let o' = m_owner (rmutexes k m);
              k = task_change_priority o' (prio k c) k
          in if status k o' \<noteq> TASK_BLOCKED \<or> t_wait_mutex (tcbs k o') = 0 then Inr k
             else pi_boost (depth + 1) c (t_wait_mutex (tcbs k o')) k
      else Inr k)"
  by pat_completeness auto
termination
  by (relation "measure (\<lambda>(d, _, _, _). MAX_PI_DEPTH + 1 - d)") auto

declare pi_boost.simps [simp del]

definition mutex_lock_common :: "nat \<Rightarrow> nat \<Rightarrow> kernel \<Rightarrow> (int \<times> kernel) kres" where
  "mutex_lock_common rm ticks_to_wait k =
     (let c = current_task k
      in if c = 0 then Inr (VA_PASS, k)
         else kbind (pi_boost 0 c rm k) (\<lambda>k.
           let k = upd_tcb c (\<lambda>t. t\<lparr>t_wait_mutex := rm\<rparr>) k
           in kbind (semaphore_take_common rm ticks_to_wait k) (\<lambda>(res, k).
             if res = V_SYSCALL_BLOCKED then Inr (res, k)
             else
               let k = upd_tcb c (\<lambda>t. t\<lparr>t_wait_mutex := 0\<rparr>) k
               in Inr (res,
                   if res = VA_PASS \<and> m_owner (rmutexes k rm) \<noteq> c then
                     let k = upd_rmutex rm (\<lambda>m. m\<lparr>m_owner := c, m_recursion_count := 1,
                               m_next_held := t_held_mutexes (tcbs k c)\<rparr>) k
                     in upd_tcb c (\<lambda>t. t\<lparr>t_held_mutexes := rm\<rparr>) k
                   else k))))"

definition v_mutex_lock :: "nat \<Rightarrow> nat \<Rightarrow> kernel \<Rightarrow> (int \<times> kernel) kres" where
  "v_mutex_lock mtx ticks_to_wait k =
     (if mtx = 0 then Inr (VA_FAIL, k) else mutex_lock_common mtx ticks_to_wait k)"

text \<open>The walk over the held list to the link that points to \<open>rm\<close>, as in \<open>wait_q_seek\<close>.\<close>

partial_function (option) held_seek :: "kernel \<Rightarrow> nat \<Rightarrow> nat \<Rightarrow> nat \<Rightarrow> (nat \<times> nat) option" where
  "held_seek k rm prv cur =
     (if cur \<noteq> 0 \<and> cur \<noteq> rm then held_seek k rm cur (m_next_held (rmutexes k cur))
      else Some (prv, cur))"

declare held_seek.simps [code]

definition unlink_held :: "nat \<Rightarrow> nat \<Rightarrow> kernel \<Rightarrow> kernel kres" where
  "unlink_held c rm k =
     kbind (walk_end (held_seek k rm 0 (t_held_mutexes (tcbs k c)))) (\<lambda>(prv, cur).
       let k = (if cur = 0 then k
                else if prv = 0
                then upd_tcb c (\<lambda>t. t\<lparr>t_held_mutexes := m_next_held (rmutexes k rm)\<rparr>) k
                else upd_rmutex prv (\<lambda>m. m\<lparr>m_next_held := m_next_held (rmutexes k rm)\<rparr>) k)
       in Inr (upd_rmutex rm (\<lambda>m. m\<lparr>m_next_held := 0\<rparr>) k))"

partial_function (option) held_top_prio :: "kernel \<Rightarrow> nat \<Rightarrow> nat \<Rightarrow> nat option" where
  "held_top_prio k m newp =
     (if m = 0 then Some newp
      else
        let w = mutex_top_waiter_prio m k
        in held_top_prio k (m_next_held (rmutexes k m)) (if w > newp then w else newp))"

declare held_top_prio.simps [code]

text \<open>
  The hand-over of a mutex to its first waiter, or its release when nobody waits; written out in
  the code both in \<open>mutex_unlock_common\<close> and in \<open>v_ipc_task_teardown\<close>.
\<close>

definition mutex_handoff :: "nat \<Rightarrow> kernel \<Rightarrow> kernel" where
  "mutex_handoff rm k =
     (let (w, k) = wait_q_dequeue rm k
      in if w \<noteq> 0 then
           let k = upd_tcb w (\<lambda>t. t\<lparr>t_wait_sem := 0, t_wait_mutex := 0\<rparr>) k;
               k = remove_from_blocked_list w k;
               k = upd_tcb w (\<lambda>t. t\<lparr>t_status := TASK_READY\<rparr>) k;
               k = add_to_ready_list w k;
               k = upd_rmutex rm (\<lambda>m. m\<lparr>m_owner := w, m_recursion_count := 1,
                     m_next_held := t_held_mutexes (tcbs k w)\<rparr>) k;
               k = upd_tcb w (\<lambda>t. t\<lparr>t_held_mutexes := rm\<rparr>) k
           in v_syscall_wake_result w VA_PASS k
         else
           let k = upd_rmutex rm (\<lambda>m. m\<lparr>m_owner := 0, m_recursion_count := 0\<rparr>) k
           in upd_sema rm (\<lambda>s. s\<lparr>s_count := atomic_inc (s_count s)\<rparr>) k)"

definition mutex_unlock_common :: "nat \<Rightarrow> kernel \<Rightarrow> (int \<times> kernel) kres" where
  "mutex_unlock_common rm k =
     (let c = current_task k
      in if c = 0 then Inr (VA_PASS, k)
         else if m_owner (rmutexes k rm) \<noteq> c then Inr (VA_FAIL, k)
         else kbind (unlink_held c rm k) (\<lambda>k.
           kbind (walk_end (held_top_prio k (t_held_mutexes (tcbs k c)) (t_base_priority (tcbs k c))))
             (\<lambda>newp.
               let k = (if newp \<noteq> prio k c then task_change_priority c newp k else k)
               in Inr (VA_PASS, mutex_handoff rm k))))"

definition v_mutex_unlock :: "nat \<Rightarrow> kernel \<Rightarrow> (int \<times> kernel) kres" where
  "v_mutex_unlock mtx k =
     (if mtx = 0 then Inr (VA_FAIL, k) else mutex_unlock_common mtx k)"

text \<open>
  The recursive calls run in thread mode and trap inside \<open>v_mutex_lock\<close>; a trap that blocks
  shows as \<open>V_SYSCALL_BLOCKED\<close>, and what the waker delivers is then compared with \<open>VA_PASS\<close>.
\<close>

definition v_mutex_lock_recursive :: "nat \<Rightarrow> nat \<Rightarrow> kernel \<Rightarrow> (int \<times> kernel) kres" where
  "v_mutex_lock_recursive rm ticks_to_wait k =
     (let c = current_task k
      in if c = 0 then Inr (VA_PASS, k)
         else if m_owner (rmutexes k rm) = c then
           Inr (VA_PASS, upd_rmutex rm (\<lambda>m. m\<lparr>m_recursion_count := m_recursion_count m + 1\<rparr>) k)
         else kbind (v_mutex_lock rm ticks_to_wait k) (\<lambda>(r, k).
           Inr (if r = V_SYSCALL_BLOCKED then r else if r = VA_PASS then VA_PASS else VA_FAIL, k)))"

definition v_mutex_unlock_recursive :: "nat \<Rightarrow> kernel \<Rightarrow> (int \<times> kernel) kres" where
  "v_mutex_unlock_recursive rm k =
     (if current_task k = 0 then Inr (VA_PASS, k)
      else if m_owner (rmutexes k rm) \<noteq> current_task k then Inr (VA_FAIL, k)
      else
        let k = upd_rmutex rm (\<lambda>m. m\<lparr>m_recursion_count := m_recursion_count m - 1\<rparr>) k
        in if m_recursion_count (rmutexes k rm) = 0 then v_mutex_unlock rm k
           else Inr (VA_PASS, k))"

subsection \<open>Observers\<close>

text \<open>The walk over a semaphore's observers to the link that points to \<open>node\<close>.\<close>

partial_function (option) observer_seek ::
    "kernel \<Rightarrow> nat \<times> nat \<Rightarrow> (nat \<times> nat) option \<Rightarrow> (nat \<times> nat) option \<Rightarrow>
     ((nat \<times> nat) option \<times> (nat \<times> nat) option) option" where
  "observer_seek k node prv cur =
     (case cur of
        None \<Rightarrow> Some (prv, cur)
      | Some n \<Rightarrow> if n = node then Some (prv, cur)
                  else observer_seek k node cur (wn_next (t_wnodes (tcbs k (fst n)) (snd n))))"

declare observer_seek.simps [code]

definition upd_wnode :: "nat \<times> nat \<Rightarrow> (wnode \<Rightarrow> wnode) \<Rightarrow> kernel \<Rightarrow> kernel" where
  "upd_wnode n f k =
     upd_tcb (fst n) (\<lambda>t. t\<lparr>t_wnodes := (t_wnodes t)(snd n := f (t_wnodes t (snd n)))\<rparr>) k"

definition unlink_observer :: "nat \<times> nat \<Rightarrow> nat \<Rightarrow> kernel \<Rightarrow> kernel kres" where
  "unlink_observer node s k =
     (let nxt = wn_next (t_wnodes (tcbs k (fst node)) (snd node))
      in kbind (walk_end (observer_seek k node None (s_observers (semas k s)))) (\<lambda>(prv, cur).
           Inr (case cur of
              None \<Rightarrow> k
            | Some _ \<Rightarrow>
                (case prv of
                   None \<Rightarrow> upd_sema s (\<lambda>x. x\<lparr>s_observers := nxt\<rparr>) k
                 | Some q \<Rightarrow> upd_wnode q (\<lambda>x. x\<lparr>wn_next := nxt\<rparr>) k))))"

fun disarm_nodes :: "nat \<Rightarrow> nat list \<Rightarrow> int \<Rightarrow> kernel \<Rightarrow> (int \<times> kernel) kres" where
  "disarm_nodes t [] ready k = Inr (ready, k)"
| "disarm_nodes t (i # is) ready k =
     (let s = wn_sem (t_wnodes (tcbs k t) i)
      in kbind (if s \<noteq> 0 then
                  kbind (unlink_observer (t, i) s k) (\<lambda>k.
                    Inr (if ready < 0 \<and> s_count (semas k s) > 0
                         then wn_idx (t_wnodes (tcbs k t) i) else ready, k))
                else Inr (ready, k))
           (\<lambda>(ready, k).
              disarm_nodes t is ready (upd_wnode (t, i) (\<lambda>x. x\<lparr>wn_sem := 0, wn_next := None\<rparr>) k)))"

definition mwait_disarm :: "nat \<Rightarrow> kernel \<Rightarrow> (int \<times> kernel) kres" where
  "mwait_disarm t k =
     kbind (disarm_nodes t [0..<t_narm (tcbs k t)] (-1) k) (\<lambda>(ready, k).
       Inr (ready, upd_tcb t (\<lambda>x. x\<lparr>t_narm := 0\<rparr>) k))"

subsection \<open>Teardown\<close>

partial_function (option) release_held :: "nat \<Rightarrow> kernel \<Rightarrow> kernel option" where
  "release_held t k =
     (let rm = t_held_mutexes (tcbs k t)
      in if rm = 0 then Some k
         else
           let k = upd_tcb t (\<lambda>x. x\<lparr>t_held_mutexes := m_next_held (rmutexes k rm)\<rparr>) k;
               k = upd_rmutex rm (\<lambda>m. m\<lparr>m_next_held := 0\<rparr>) k
           in release_held t (mutex_handoff rm k))"

declare release_held.simps [code]

text \<open>\<open>v_ipc_task_teardown\<close> up to the closing of the descriptors.\<close>

definition ipc_teardown_waits :: "nat \<Rightarrow> kernel \<Rightarrow> kernel kres" where
  "ipc_teardown_waits t k =
     kbind (walk_end (release_held t k)) (\<lambda>k.
     kbind (if t_wait_sem (tcbs k t) \<noteq> 0 then
              kbind (wait_q_remove (t_wait_sem (tcbs k t)) t k) (\<lambda>k.
                Inr (upd_tcb t (\<lambda>x. x\<lparr>t_wait_sem := 0\<rparr>) k))
            else Inr k) (\<lambda>k.
       let k = upd_tcb t (\<lambda>x. x\<lparr>t_wait_mutex := 0\<rparr>) k
       in if t_in_multiwait (tcbs k t)
          then kbind (mwait_disarm t k) (\<lambda>(_, k). Inr k) else Inr k))"

section \<open>Wait queues as lists\<close>

fun wseg :: "(nat \<Rightarrow> nat) \<Rightarrow> nat \<Rightarrow> nat list \<Rightarrow> nat \<Rightarrow> bool" where
  "wseg nx a [] b \<longleftrightarrow> a = b"
| "wseg nx a (x # xs) b \<longleftrightarrow> a = x \<and> x \<noteq> 0 \<and> wseg nx (nx x) xs b"

lemma wseg_append: "wseg nx a (xs @ ys) b \<longleftrightarrow> (\<exists>c. wseg nx a xs c \<and> wseg nx c ys b)"
  by (induction xs arbitrary: a) auto

lemma wseg_cong: "(\<And>x. x \<in> set xs \<Longrightarrow> nx' x = nx x) \<Longrightarrow> wseg nx' a xs b = wseg nx a xs b"
  by (induction xs arbitrary: a) auto

lemma wseg_not_null: "wseg nx a xs b \<Longrightarrow> 0 \<notin> set xs"
  by (induction xs arbitrary: a) auto

lemma wseg_head: "wseg nx a xs 0 \<Longrightarrow> a = (case xs of [] \<Rightarrow> 0 | x # _ \<Rightarrow> x)"
  by (cases xs) auto

lemma wseg_insert:
  assumes w: "wseg nx a (bs @ p # zs) 0" "distinct (bs @ p # zs)" and t: "t \<noteq> 0" "t \<notin> set (bs @ p # zs)"
  shows "wseg (nx(t := nx p, p := t)) a (bs @ p # t # zs) 0"
proof -
  let ?nx = "nx(t := nx p, p := t)"
  have l: "wseg nx a bs p" "p \<noteq> 0" and r: "wseg nx (nx p) zs 0" using w(1) by (auto simp: wseg_append)
  have "wseg ?nx a bs p" using l(1) w(2) t(2) by (subst wseg_cong [of _ _ nx]) auto
  moreover have "wseg ?nx (nx p) zs 0" using r w(2) t(2) by (subst wseg_cong [of _ _ nx]) auto
  moreover have "t \<noteq> p" using t(2) by auto
  ultimately show ?thesis using l(2) t(1) by (auto simp: wseg_append)
qed

lemma wseg_delete:
  assumes w: "wseg nx a (bs @ p # t # zs) 0" "distinct (bs @ p # t # zs)"
    and n: "\<And>x. x \<in> set (bs @ p # zs) \<Longrightarrow> x \<noteq> p \<Longrightarrow> nx' x = nx x" "nx' p = nx t"
  shows "wseg nx' a (bs @ p # zs) 0"
proof -
  have l: "wseg nx a bs p" "p \<noteq> 0" and r: "wseg nx (nx t) zs 0" using w(1) by (auto simp: wseg_append)
  have "wseg nx' a bs p" using l(1) w(2) n(1) by (subst wseg_cong [of _ _ nx]) auto
  moreover have "wseg nx' (nx t) zs 0" using r w(2) n(1) by (subst wseg_cong [of _ _ nx]) auto
  ultimately show ?thesis using l(2) n(2) by (auto simp: wseg_append)
qed

text \<open>
  \<open>wait_ok k s xs\<close>: the wait queue of semaphore \<open>s\<close> holds the tasks \<open>xs\<close>, in this order.
\<close>

definition wait_ok :: "kernel \<Rightarrow> nat \<Rightarrow> nat list \<Rightarrow> bool" where
  "wait_ok k s xs \<longleftrightarrow> wseg (wnext k) (s_wait_q (semas k s)) xs 0 \<and> distinct xs \<and>
     s_tail (semas k s) = last (0 # xs)"

lemma wait_ok_cong:
  "semas k' s = semas k s \<Longrightarrow> (\<And>x. x \<in> set xs \<Longrightarrow> wnext k' x = wnext k x) \<Longrightarrow>
   wait_ok k' s xs = wait_ok k s xs"
  using wseg_cong [of xs "wnext k'" "wnext k"] by (simp add: wait_ok_def)

lemma wait_ok_head: "wait_ok k s xs \<Longrightarrow> s_wait_q (semas k s) = (case xs of [] \<Rightarrow> 0 | x # _ \<Rightarrow> x)"
  unfolding wait_ok_def by (auto dest: wseg_head)

text \<open>Where \<open>wait_q_enqueue\<close> puts a task: behind every waiter of at least its priority.\<close>

definition prio_insert :: "(nat \<Rightarrow> nat) \<Rightarrow> nat \<Rightarrow> nat list \<Rightarrow> nat list" where
  "prio_insert f t xs = takeWhile (\<lambda>x. f x \<ge> f t) xs @ t # dropWhile (\<lambda>x. f x \<ge> f t) xs"

lemma set_prio_insert [simp]: "set (prio_insert f t xs) = insert t (set xs)"
  unfolding prio_insert_def
  by (metis Un_insert_right list.simps(15) set_append takeWhile_dropWhile_id)

lemma distinct_prio_insert: "distinct xs \<Longrightarrow> t \<notin> set xs \<Longrightarrow> distinct (prio_insert f t xs)"
  unfolding prio_insert_def
  by (metis (no_types, lifting) distinct_append distinct.simps(2) distinct_drop distinct_take
      dropWhile_eq_drop set_append takeWhile_dropWhile_id takeWhile_eq_take Int_insert_right
      UnCI disjoint_insert(2) list.simps(15))

lemma sorted_prio_insert:
  assumes "sorted_wrt (\<lambda>x y. f x \<ge> f y) xs"
  shows "sorted_wrt (\<lambda>x y. f x \<ge> (f y :: nat)) (prio_insert f t xs)"
  using assms
proof (induction xs)
  case (Cons a xs)
  show ?case
  proof (cases "f a \<ge> f t")
    case True
    then have "prio_insert f t (a # xs) = a # prio_insert f t xs" by (simp add: prio_insert_def)
    moreover have "\<forall>y \<in> set (prio_insert f t xs). f y \<le> f a" using True Cons.prems by auto
    ultimately show ?thesis using Cons by auto
  next
    case False
    then have "prio_insert f t (a # xs) = t # a # xs" by (simp add: prio_insert_def)
    then show ?thesis using False Cons.prems by auto
  qed
qed (simp add: prio_insert_def)

lemma wait_pos_list:
  assumes "wseg (wnext k) (wnext k p) xs 0"
  shows "wait_pos k pr p = Some (last (p # takeWhile (\<lambda>x. prio k x \<ge> pr) xs))"
  using assms
proof (induction xs arbitrary: p)
  case Nil
  then show ?case by (subst wait_pos.simps) simp
next
  case (Cons x xs)
  then show ?case by (subst wait_pos.simps) auto
qed


text \<open>What an IPC step may change of a control block: the wait links.\<close>

definition wait_core :: "tcb \<Rightarrow> tcb" where
  "wait_core t = t\<lparr>t_wait_next := 0\<rparr>"

definition wait_only :: "kernel \<Rightarrow> kernel \<Rightarrow> bool" where
  "wait_only k k' \<longleftrightarrow> (\<exists>T S. k' = k\<lparr>tcbs := T, semas := S\<rparr>) \<and>
     (\<forall>x. wait_core (tcbs k' x) = wait_core (tcbs k x))"

lemma wait_core_fields:
  assumes "wait_core a = wait_core b"
  shows "t_priority a = t_priority b" "t_status a = t_status b" "t_next a = t_next b" "t_prev a = t_prev b"
    "t_delay_ticks a = t_delay_ticks b" "t_wait_sem a = t_wait_sem b" "t_wait_mutex a = t_wait_mutex b"
    "t_held_mutexes a = t_held_mutexes b" "t_in_multiwait a = t_in_multiwait b"
    "t_syscall_result a = t_syscall_result b" "t_has_syscall_result a = t_has_syscall_result b"
  using assms by (cases a; cases b; simp add: wait_core_def)+

lemma wait_only_fields:
  assumes "wait_only k k'"
  shows "prio k' x = prio k x" "status k' x = status k x" "tnext k' x = tnext k x" "tprev k' x = tprev k x"
    "delay_of k' x = delay_of k x" "t_wait_sem (tcbs k' x) = t_wait_sem (tcbs k x)"
    "current_task k' = current_task k" "idle_task k' = idle_task k" "ready_lists k' = ready_lists k"
    "ready_tails k' = ready_tails k" "blocked_list k' = blocked_list k" "delayed_list k' = delayed_list k"
    "ready_bitmap k' = ready_bitmap k" "rmutexes k' = rmutexes k" "ticks k' = ticks k"
  using assms wait_core_fields(1-6) [of "tcbs k' x" "tcbs k x"] by (auto simp: wait_only_def)

lemma wait_only_inv: "wait_only k k' \<Longrightarrow> sched_inv k R B D \<Longrightarrow> sched_inv k' R B D"
  using wait_only_fields [of k k'] by (elim sched_inv_fields) (auto simp: same_sched_def)

lemma wait_only_refl: "wait_only k k"
  unfolding wait_only_def by (intro conjI exI [of _ "tcbs k"] exI [of _ "semas k"]) simp_all

lemma wait_only_upd_tcb:
  assumes "wait_only k k'"
  shows "wait_only k (upd_tcb t (\<lambda>x. x\<lparr>t_wait_next := n\<rparr>) k')"
proof -
  obtain T S where "k' = k\<lparr>tcbs := T, semas := S\<rparr>" using assms by (auto simp: wait_only_def)
  then have "\<exists>T S. upd_tcb t (\<lambda>x. x\<lparr>t_wait_next := n\<rparr>) k' = k\<lparr>tcbs := T, semas := S\<rparr>"
    by (intro exI [of _ "T(t := (T t)\<lparr>t_wait_next := n\<rparr>)"] exI [of _ S]) (simp add: upd_tcb_def)
  moreover have "wait_core (x\<lparr>t_wait_next := n\<rparr>) = wait_core x" for x by (simp add: wait_core_def)
  ultimately show ?thesis using assms by (simp add: wait_only_def)
qed

lemma wait_only_upd_sema:
  assumes "wait_only k k'"
  shows "wait_only k (upd_sema s f k')"
proof -
  obtain T S where "k' = k\<lparr>tcbs := T, semas := S\<rparr>" using assms by (auto simp: wait_only_def)
  then have "\<exists>T S. upd_sema s f k' = k\<lparr>tcbs := T, semas := S\<rparr>" by (auto simp: upd_sema_def)
  then show ?thesis using assms by (simp add: wait_only_def)
qed

lemmas wait_only_intros = wait_only_refl wait_only_upd_tcb wait_only_upd_sema

lemma wait_q_enqueue_result:
  assumes w: "wait_ok k s xs" and t: "t \<noteq> 0" "t \<notin> set xs"
  shows "\<exists>k'. wait_q_enqueue s t k = Inr k' \<and> wait_ok k' s (prio_insert (prio k) t xs) \<and> wait_only k k' \<and>
    s_count (semas k' s) = s_count (semas k s) \<and> s_limit (semas k' s) = s_limit (semas k s) \<and>
    s_observers (semas k' s) = s_observers (semas k s) \<and>
    (\<forall>r. r \<noteq> s \<longrightarrow> semas k' r = semas k r) \<and> (\<forall>x. x \<notin> insert t (set xs) \<longrightarrow> wnext k' x = wnext k x)"
proof -
  let ?f = "prio k" and ?P = "\<lambda>x. prio k x \<ge> prio k t"
  let ?k1 = "upd_tcb t (\<lambda>t. t\<lparr>t_wait_next := 0\<rparr>) k"
  let ?q = "s_wait_q (semas k s)"
  have c: "wseg (wnext k) ?q xs 0" "distinct xs" "s_tail (semas k s) = last (0 # xs)"
    using w by (simp_all add: wait_ok_def)
  have nn: "0 \<notin> set xs" by (rule wseg_not_null [OF c(1)])
  have pr: "prio ?k1 x = prio k x" for x by simp
  show ?thesis
  proof (cases "xs = [] \<or> \<not> ?P (List.hd xs)")
    case True
    then have pi: "prio_insert ?f t xs = t # xs" by (cases xs) (auto simp: prio_insert_def)
    have q: "?q = 0 \<or> prio ?k1 ?q < prio ?k1 t" "?q = 0 \<longleftrightarrow> xs = []"
      using True wait_ok_head [OF w] nn by (cases xs; auto)+
    let ?k2 = "upd_sema s (\<lambda>x. x\<lparr>s_wait_q := t\<rparr>) (upd_tcb t (\<lambda>x. x\<lparr>t_wait_next := ?q\<rparr>) ?k1)"
    let ?k3 = "if xs = [] then upd_sema s (\<lambda>x. x\<lparr>s_tail := t\<rparr>) ?k2 else ?k2"
    have e: "wait_q_enqueue s t k = Inr ?k3"
      using q by (simp add: wait_q_enqueue_def Let_def)
    have "wseg (wnext ?k3) ?q xs 0"
      using c(1) t(2) by (subst wseg_cong [of _ _ "wnext k"]) auto
    then have "wait_ok ?k3 s (t # xs)"
      using c t by (auto simp: wait_ok_def)
    moreover have "wait_only k ?k3" by (auto intro!: wait_only_intros)
    ultimately show ?thesis using e t by (intro exI [of _ ?k3]) (auto simp: pi)
  next
    case False
    then obtain a as where xs: "xs = a # as" and a: "?P a" by (cases xs) auto
    define ys where "ys = a # takeWhile ?P as"
    define zs where "zs = dropWhile ?P as"
    have xz: "xs = ys @ zs" by (simp add: xs ys_def zs_def)
    have pi: "prio_insert ?f t xs = ys @ t # zs" using a by (simp add: prio_insert_def xs ys_def zs_def)
    obtain bs p where yp: "ys = bs @ [p]" "p = last ys" by (metis append_butlast_last_id list.discI ys_def)
    have q: "?q = a" "a \<noteq> 0" "\<not> prio ?k1 a < prio ?k1 t" using wait_ok_head [OF w] nn a by (auto simp: xs)
    have c1: "wseg (wnext k) ?q (bs @ p # zs) 0" "distinct (bs @ p # zs)" "t \<notin> set (bs @ p # zs)"
      using c(1,2) t(2) xz yp(1) by simp_all
    have "wseg (wnext k) (wnext k a) as 0" using c(1) by (simp add: xs)
    then have "wseg (wnext ?k1) (wnext ?k1 a) as 0"
      using t(2) by (subst wseg_cong [of _ _ "wnext k"]) (auto simp: xs)
    then have wp: "wait_pos ?k1 (prio ?k1 t) a = Some p"
      using wait_pos_list [of ?k1 a as "prio ?k1 t"] by (simp only: pr yp(2) ys_def)
    have tp: "t \<noteq> p" using c1(3) by auto
    let ?k2 = "upd_tcb p (\<lambda>x. x\<lparr>t_wait_next := t\<rparr>) (upd_tcb t (\<lambda>x. x\<lparr>t_wait_next := wnext k p\<rparr>) ?k1)"
    let ?k3 = "if wnext k p = 0 then upd_sema s (\<lambda>x. x\<lparr>s_tail := t\<rparr>) ?k2 else ?k2"
    have e: "wait_q_enqueue s t k = Inr ?k3"
      using q wp tp by (simp add: wait_q_enqueue_def Let_def)
    have wn: "wnext ?k3 = (wnext k)(t := wnext k p, p := t)" using tp by (auto simp: fun_eq_iff)
    have z: "wnext k p = 0 \<longleftrightarrow> zs = []"
      using c1(1) wseg_not_null [OF c(1)] xz by (cases zs) (auto simp: wseg_append)
    have "wseg (wnext ?k3) ?q (bs @ p # t # zs) 0"
      unfolding wn by (rule wseg_insert [OF c1(1,2) t(1) c1(3)])
    moreover have "distinct (ys @ t # zs)" using c1(2,3) yp(1) by simp
    moreover have "s_tail (semas ?k3 s) = last (0 # ys @ t # zs)" "s_wait_q (semas ?k3 s) = ?q"
      using c(3) z yp(1) xz by auto
    ultimately have "wait_ok ?k3 s (ys @ t # zs)" unfolding wait_ok_def yp(1) by simp
    moreover have "wait_only k ?k3" by (auto intro!: wait_only_intros)
    moreover have "p \<in> set xs" using xz yp(1) by simp
    ultimately show ?thesis using e unfolding pi by (intro exI [of _ ?k3]) auto
  qed
qed

lemma wait_q_dequeue_empty: "wait_ok k s [] \<Longrightarrow> wait_q_dequeue s k = (0, k)"
  using wait_ok_head [of k s "[]"] by (simp add: wait_q_dequeue_def)

lemma wait_q_dequeue_result:
  assumes w: "wait_ok k s (w # ws)"
  shows "\<exists>k'. wait_q_dequeue s k = (w, k') \<and> wait_ok k' s ws \<and> wait_only k k' \<and> w \<noteq> 0 \<and>
    s_count (semas k' s) = s_count (semas k s) \<and> s_limit (semas k' s) = s_limit (semas k s) \<and>
    s_observers (semas k' s) = s_observers (semas k s) \<and>
    (\<forall>r. r \<noteq> s \<longrightarrow> semas k' r = semas k r) \<and> (\<forall>x. x \<noteq> w \<longrightarrow> wnext k' x = wnext k x)"
proof -
  have c: "s_wait_q (semas k s) = w" "w \<noteq> 0" "wseg (wnext k) (wnext k w) ws 0" "distinct (w # ws)"
    "s_tail (semas k s) = last (w # ws)"
    using w by (auto simp: wait_ok_def)
  have z: "wnext k w = 0 \<longleftrightarrow> ws = []" using c(3) by (cases ws) auto
  let ?k1 = "upd_sema s (\<lambda>x. x\<lparr>s_wait_q := wnext k w\<rparr>) k"
  let ?k2 = "if ws = [] then upd_sema s (\<lambda>x. x\<lparr>s_tail := 0\<rparr>) ?k1 else ?k1"
  let ?k3 = "upd_tcb w (\<lambda>t. t\<lparr>t_wait_next := 0\<rparr>) ?k2"
  have e: "wait_q_dequeue s k = (w, ?k3)" using c z by (simp add: wait_q_dequeue_def Let_def)
  have "wseg (wnext ?k3) (wnext k w) ws 0"
    using c(3,4) by (subst wseg_cong [of _ _ "wnext k"]) auto
  then have "wait_ok ?k3 s ws" using c z by (auto simp: wait_ok_def)
  moreover have "wait_only k ?k3" by (auto intro!: wait_only_intros)
  ultimately show ?thesis using e c(2) by (intro exI [of _ ?k3]) auto
qed

section \<open>Semaphores\<close>

text \<open>
  The abstract semaphore: a count, its limit, and the tasks that wait, most urgent first and in
  the order of arrival within a priority.
\<close>

record asem =
  as_count :: int
  as_limit :: int
  as_wait :: "nat list"

definition asem_take :: "(nat \<Rightarrow> nat) \<Rightarrow> nat \<Rightarrow> bool \<Rightarrow> asem \<Rightarrow> int \<times> asem" where
  "asem_take f c may_block a =
     (if as_count a > 0 then (VA_PASS, a\<lparr>as_count := as_count a - 1\<rparr>)
      else if \<not> may_block then (VA_FAIL, a)
      else (V_SYSCALL_BLOCKED, a\<lparr>as_wait := prio_insert f c (as_wait a)\<rparr>))"

definition asem_give :: "asem \<Rightarrow> int \<times> asem" where
  "asem_give a =
     (case as_wait a of
        w # ws \<Rightarrow> (VA_PASS, a\<lparr>as_wait := ws\<rparr>)
      | [] \<Rightarrow> if as_count a \<ge> as_limit a then (VA_FAIL, a)
              else (VA_PASS, a\<lparr>as_count := as_count a + 1\<rparr>))"

text \<open>
  \<open>sem_ok k s B a\<close>: semaphore \<open>s\<close> of state \<open>k\<close> represents \<open>a\<close>; its waiters are blocked tasks that
  know what they wait for, and nobody waits while a unit is available.
\<close>

definition sem_ok :: "kernel \<Rightarrow> nat \<Rightarrow> nat list \<Rightarrow> asem \<Rightarrow> bool" where
  "sem_ok k s B a \<longleftrightarrow> wait_ok k s (as_wait a) \<and> set (as_wait a) \<subseteq> set B \<and>
     (\<forall>t \<in> set (as_wait a). t_wait_sem (tcbs k t) = s) \<and>
     s_count (semas k s) = as_count a \<and> s_limit (semas k s) = as_limit a \<and>
     0 \<le> as_count a \<and> as_count a \<le> as_limit a \<and> as_limit a < 2 ^ 31 \<and>
     (as_wait a \<noteq> [] \<longrightarrow> as_count a = 0)"

lemma s32_id: "- (2 ^ 31) \<le> x \<Longrightarrow> x < 2 ^ 31 \<Longrightarrow> s32 x = x"
  by (simp add: s32_def)

lemma perf_ipc_simps [simp]:
  "tcbs (v_perf_on_ipc_take_attempt k) = tcbs k" "semas (v_perf_on_ipc_take_attempt k) = semas k"
  "current_task (v_perf_on_ipc_take_attempt k) = current_task k"
  "tcbs (v_perf_on_ipc_take_blocked k) = tcbs k" "semas (v_perf_on_ipc_take_blocked k) = semas k"
  "tcbs (v_perf_on_ipc_give k) = tcbs k" "semas (v_perf_on_ipc_give k) = semas k"
  "current_task (v_perf_on_ipc_give k) = current_task k"
  "current_task (v_perf_on_ipc_take_blocked k) = current_task k"
  "rmutexes (v_perf_on_ipc_give k) = rmutexes k" "rmutexes (v_perf_on_ipc_take_attempt k) = rmutexes k"
  "rmutexes (v_perf_on_ipc_take_blocked k) = rmutexes k"
  "ticks (v_perf_on_ipc_take_attempt k) = ticks k"
  by (simp_all add: v_perf_on_ipc_take_attempt_def v_perf_on_ipc_take_blocked_def v_perf_on_ipc_give_def)

lemma sched_inv_perf:
  assumes I: "sched_inv k R B D"
  shows "sched_inv (v_perf_on_ipc_take_attempt k) R B D" "sched_inv (v_perf_on_ipc_take_blocked k) R B D"
    "sched_inv (v_perf_on_ipc_give k) R B D" "sched_inv (k\<lparr>pendsv := b\<rparr>) R B D"
    "sched_inv (upd_sema s f k) R B D" "sched_inv (upd_rmutex m g k) R B D"
  by (rule sched_inv_frame [OF I]; simp add: v_perf_on_ipc_take_attempt_def
      v_perf_on_ipc_take_blocked_def v_perf_on_ipc_give_def)+

lemma semaphore_take_pass:
  assumes "sem_ok k s B a" "as_count a > 0"
  shows "\<exists>k'. semaphore_take_common s n k = Inr (VA_PASS, k') \<and> sem_ok k' s B (a\<lparr>as_count := as_count a - 1\<rparr>) \<and>
    tcbs k' = tcbs k \<and> (sched_inv k R B' D \<longrightarrow> sched_inv k' R B' D)"
proof -
  let ?k = "upd_sema s (\<lambda>x. x\<lparr>s_count := atomic_dec (s_count x)\<rparr>) (v_perf_on_ipc_take_attempt k)"
  have c: "s_count (semas k s) = as_count a" "as_wait a = []" "as_count a < 2 ^ 31"
    using assms by (auto simp: sem_ok_def)
  have "atomic_dec (as_count a) = as_count a - 1"
    using assms(2) c(3) by (simp add: atomic_dec_def s32_id)
  then have "sem_ok ?k s B (a\<lparr>as_count := as_count a - 1\<rparr>)"
    using assms by (auto simp: sem_ok_def wait_ok_def)
  moreover have "semaphore_take_common s n k = Inr (VA_PASS, ?k)"
    using assms(2) c(1) by (simp add: semaphore_take_common_def Let_def)
  ultimately show ?thesis by (auto intro: sched_inv_perf)
qed

lemma semaphore_take_would_block:
  assumes "sem_ok k s B a" "as_count a = 0"
  shows "semaphore_take_common s 0 k = Inr (VA_FAIL, v_perf_on_ipc_take_attempt k)"
  using assms by (simp add: semaphore_take_common_def Let_def sem_ok_def)

lemma semaphore_take_blocks:
  assumes I: "sched_inv k R B D" and a: "sem_ok k s B a" "as_count a = 0"
    and c: "current_task k = c" "c \<noteq> 0" "status k c = TASK_RUNNING" and n: "n \<noteq> 0" and s: "s \<noteq> 0"
  shows "\<exists>k'. semaphore_take_common s n k = Inr (V_SYSCALL_BLOCKED, k') \<and>
    sem_ok k' s (B @ [c]) (a\<lparr>as_wait := prio_insert (prio k) c (as_wait a)\<rparr>) \<and> sched_inv k' R (B @ [c]) D \<and>
    delay_of k' c = (if n = V_WAIT_FOREVER then 0 else v_wake_deadline n k) \<and> pendsv k' \<and>
    t_wait_sem (tcbs k' c) = s \<and> (\<forall>x. prio k' x = prio k x) \<and> rmutexes k' = rmutexes k \<and>
    (\<forall>x. t_wait_mutex (tcbs k' x) = t_wait_mutex (tcbs k x))"
proof -
  let ?d = "if n = 0xFFFFFFFF then 0 else v_wake_deadline n k"
  let ?k0 = "v_perf_on_ipc_take_attempt k"
  let ?k1 = "upd_tcb c (\<lambda>t. t\<lparr>t_status := TASK_BLOCKED, t_delay_ticks := ?d, t_wait_sem := s\<rparr>) ?k0"
  let ?xs = "as_wait a"
  have vd: "v_wake_deadline n ?k0 = v_wake_deadline n k" by (simp add: v_wake_deadline_def)
  have nl: "c \<notin> on_lists R B D" by (rule sched_inv_running [OF I c(3)])
  have cx: "c \<notin> set ?xs" using nl a(1) by (auto simp: sem_ok_def on_lists_def)
  have I1: "sched_inv ?k1 R B D"
    by (rule sched_inv_frame [OF sched_inv_perf(1) [OF I]]) (use nl in auto)
  have w1: "wait_ok ?k1 s ?xs" using a(1) by (subst wait_ok_cong [of _ _ k]) (auto simp: sem_ok_def)
  have pr: "prio ?k1 = prio k" by (auto simp: fun_eq_iff)
  obtain k2 where e: "wait_q_enqueue s c ?k1 = Inr k2" "wait_ok k2 s (prio_insert (prio k) c ?xs)"
    "wait_only ?k1 k2" "s_count (semas k2 s) = s_count (semas ?k1 s)" "s_limit (semas k2 s) = s_limit (semas ?k1 s)"
    using wait_q_enqueue_result [OF w1 c(2) cx] unfolding pr by blast
  note f2 = wait_only_fields [OF e(3)]
  have I2: "sched_inv k2 R B D" by (rule wait_only_inv [OF e(3) I1])
  obtain k3 T l where b: "add_to_blocked_list c k2 = Inr k3" "sched_inv k3 R (B @ [c]) D"
    "links_only (upd_tcb c (\<lambda>x. x\<lparr>t_status := TASK_BLOCKED\<rparr>) k2) k3" "k3 = k2\<lparr>tcbs := T, blocked_list := l\<rparr>"
    using add_to_blocked_list_inv [OF I2 c(2) nl] by metis
  note f3 = links_only_fields [OF b(3)]
  let ?k4 = "(v_perf_on_ipc_take_blocked k3)\<lparr>pendsv := True\<rparr>"
  have s3: "semas k3 = semas k2" "rmutexes k3 = rmutexes k2" using b(4) by simp_all
  have wn: "wnext k3 x = wnext k2 x" for x using f3(5) [of x] by simp
  have w3: "wait_ok ?k4 s (prio_insert (prio k) c ?xs)"
    using e(2) by (subst wait_ok_cong [of _ _ k2]) (simp_all add: s3 wn)
  have ws: "t_wait_sem (tcbs k3 x) = (if x = c then s else t_wait_sem (tcbs k x))" for x
    using f3(4) [of x] f2(6) [of x] by (cases "x = c") simp_all
  have "sem_ok ?k4 s (B @ [c]) (a\<lparr>as_wait := prio_insert (prio k) c ?xs\<rparr>)"
    using a w3 e(4,5) ws by (auto simp: sem_ok_def s3)
  moreover have "semaphore_take_common s n k = Inr (V_SYSCALL_BLOCKED, ?k4)"
    using a n c(1) e(1) b(1)
    by (simp add: semaphore_take_common_def Let_def sem_ok_def vd split del: if_split cong: if_cong)
  moreover have "sched_inv ?k4 R (B @ [c]) D" by (intro sched_inv_perf(4) sched_inv_perf(2) b(2))
  moreover have "delay_of ?k4 c = ?d" using f3(3) [of c] f2(5) [of c] by simp
  moreover have "\<forall>x. prio ?k4 x = prio k x" using f3(2) f2(1) by auto
  moreover have "rmutexes ?k4 = rmutexes k" using s3(2) f2(14) by simp
  moreover have "t_wait_mutex (tcbs ?k4 x) = t_wait_mutex (tcbs k x)" for x
    using f3(6) [of x] wait_core_fields(7) [of "tcbs k2 x" "tcbs ?k1 x"] e(3) by (auto simp: wait_only_def)
  ultimately show ?thesis using ws [of c] by (intro exI [of _ ?k4]) simp
qed


text \<open>
  Waking a blocked task, as a give and a mutex hand-over do it: off the blocked list, ready at the
  tail of its queue.
\<close>

definition unblock_task :: "nat \<Rightarrow> kernel \<Rightarrow> kernel" where
  "unblock_task t k = add_to_ready_list t (upd_tcb t (\<lambda>x. x\<lparr>t_status := TASK_READY\<rparr>)
     (remove_from_blocked_list t k))"

text \<open>What it leaves of a control block: everything but links and status.\<close>

definition link_core :: "tcb \<Rightarrow> tcb" where
  "link_core t = t\<lparr>t_next := 0, t_prev := 0, t_status := TASK_READY\<rparr>"

lemma link_core_fields:
  assumes "link_core a = link_core b"
  shows "t_priority a = t_priority b" "t_delay_ticks a = t_delay_ticks b" "t_wait_sem a = t_wait_sem b"
    "t_wait_next a = t_wait_next b" "t_wait_mutex a = t_wait_mutex b" "t_held_mutexes a = t_held_mutexes b"
    "t_in_multiwait a = t_in_multiwait b" "t_wnodes a = t_wnodes b" "t_task_id a = t_task_id b"
    "t_base_priority a = t_base_priority b"
    "t_syscall_result a = t_syscall_result b" "t_has_syscall_result a = t_has_syscall_result b"
  using assms by (cases a; cases b; simp add: link_core_def)+

lemma link_core_simps [simp]:
  "link_core (t\<lparr>t_next := n\<rparr>) = link_core t" "link_core (t\<lparr>t_prev := n\<rparr>) = link_core t"
  "link_core (t\<lparr>t_status := s\<rparr>) = link_core t"
  by (simp_all add: link_core_def)

lemma rl_append_link_core: "link_core (tcbs (rl_append t k) x) = link_core (tcbs k x)"
  by (simp add: rl_append_def Let_def)

lemma links_only_link_core: "links_only k k' \<Longrightarrow> link_core (tcbs k' x) = link_core (tcbs k x)"
  unfolding links_only_def by (metis link_core_simps(1,2))

lemma unblock_task_result:
  assumes I: "sched_inv k R B D" and t: "t \<in> set B" and p: "prio k t = p" "p \<le> 7"
  shows "sched_inv (unblock_task t k) (R(p := R p @ [t])) (remove1 t B) D"
    "link_core (tcbs (unblock_task t k) x) = link_core (tcbs k x)"
    "semas (unblock_task t k) = semas k" "rmutexes (unblock_task t k) = rmutexes k"
    "current_task (unblock_task t k) = current_task k"
proof -
  let ?k1 = "remove_from_blocked_list t k"
  let ?k2 = "upd_tcb t (\<lambda>x. x\<lparr>t_status := TASK_READY\<rparr>) ?k1"
  note r = remove_from_blocked_list_inv [OF I t]
  have nz: "t \<noteq> 0" using sched_inv_nonnull [OF I on_listsI(2) [OF t]] .
  have I2: "sched_inv ?k2 R (remove1 t B) D" by (rule sched_inv_frame [OF r(1)]) (use r(3) in auto)
  have p2: "prio ?k2 t = p" using links_only_fields(2) [OF r(2)] p(1) by simp
  have e: "unblock_task t k = rl_append t ?k2" using nz by (simp add: unblock_task_def add_to_ready_list_def)
  show "sched_inv (unblock_task t k) (R(p := R p @ [t])) (remove1 t B) D"
    unfolding e by (rule rl_append_inv [OF I2 nz r(3) p(2) p2])
  show "link_core (tcbs (unblock_task t k) x) = link_core (tcbs k x)"
    using links_only_link_core [OF r(2), of x] by (cases "x = t") (simp_all add: e rl_append_link_core)
  obtain T l where "?k1 = k\<lparr>tcbs := T, blocked_list := l\<rparr>" using r(4) by metis
  then show "semas (unblock_task t k) = semas k" "rmutexes (unblock_task t k) = rmutexes k"
    "current_task (unblock_task t k) = current_task k" by (simp_all add: e)
qed

lemma wake_result_simps [simp]:
  "semas (v_syscall_wake_result t r k) = semas k" "rmutexes (v_syscall_wake_result t r k) = rmutexes k"
  "current_task (v_syscall_wake_result t r k) = current_task k"
  "prio (v_syscall_wake_result t r k) x = prio k x" "status (v_syscall_wake_result t r k) x = status k x"
  "wnext (v_syscall_wake_result t r k) x = wnext k x"
  "t_wait_sem (tcbs (v_syscall_wake_result t r k) x) = t_wait_sem (tcbs k x)"
  "t_syscall_result (tcbs (v_syscall_wake_result t r k) t) = r"
  "t_has_syscall_result (tcbs (v_syscall_wake_result t r k) t)"
  by (simp_all add: v_syscall_wake_result_def)

lemma wake_result_inv: "sched_inv k R B D \<Longrightarrow> sched_inv (v_syscall_wake_result t r k) R B D"
  by (erule sched_inv_fields) (simp_all add: v_syscall_wake_result_def same_sched_def)

lemma semaphore_give_handoff:
  assumes I: "sched_inv k R B D" and a: "sem_ok k s B a" "as_wait a = w # ws"
    and p: "prio k w = p" "p \<le> 7"
  shows "\<exists>k' h. semaphore_give_common s woken k = Inr (VA_PASS, h, k') \<and>
    sem_ok k' s (remove1 w B) (a\<lparr>as_wait := ws\<rparr>) \<and> sched_inv k' (R(p := R p @ [w])) (remove1 w B) D \<and>
    t_syscall_result (tcbs k' w) = VA_PASS \<and> t_has_syscall_result (tcbs k' w) \<and> t_wait_sem (tcbs k' w) = 0 \<and>
    (woken = Some False \<longrightarrow> h = Some (prio k w > prio k (current_task k)))"
proof -
  let ?k0 = "v_perf_on_ipc_give k"
  have w: "wait_ok ?k0 s (w # ws)" "w \<in> set B" "set ws \<subseteq> set B" "w \<notin> set ws"
    using a by (auto simp: sem_ok_def wait_ok_def)
  obtain k1 where d: "wait_q_dequeue s ?k0 = (w, k1)" "wait_ok k1 s ws" "wait_only ?k0 k1" "w \<noteq> 0"
    "s_count (semas k1 s) = s_count (semas ?k0 s)" "s_limit (semas k1 s) = s_limit (semas ?k0 s)"
    using wait_q_dequeue_result [OF w(1)] by blast
  note f1 = wait_only_fields [OF d(3)]
  let ?k2 = "upd_tcb w (\<lambda>t. t\<lparr>t_wait_sem := 0\<rparr>) k1"
  have I2: "sched_inv ?k2 R B D"
    by (rule sched_inv_fields [OF wait_only_inv [OF d(3) sched_inv_perf(3) [OF I]]])
      (simp_all add: same_sched_def)
  have p2: "prio ?k2 w = p" using f1(1) p(1) by simp
  note u = unblock_task_result [OF I2 w(2) p2 p(2)]
  define k4 where "k4 = v_syscall_wake_result w VA_PASS (unblock_task w ?k2)"
  have wn: "wnext k4 x = wnext k1 x" "t_wait_sem (tcbs k4 x) = (if x = w then 0 else t_wait_sem (tcbs k x))"
    "prio k4 x = prio k x" for x
    using link_core_fields(1,3,4) [OF u(2) [of x]] f1(1,6) by (simp_all add: k4_def)
  have s4: "semas k4 = semas k1" "current_task k4 = current_task k" "t_syscall_result (tcbs k4 w) = VA_PASS"
    "t_has_syscall_result (tcbs k4 w)"
    using u(3,5) f1(7) by (simp_all add: k4_def)
  have pu: "prio (unblock_task w ?k2) x = prio k x" "current_task (unblock_task w ?k2) = current_task k" for x
    using wn(3) [of x] s4(2) by (simp_all add: k4_def)
  have "wait_ok k4 s ws" using d(2) by (subst wait_ok_cong [of _ _ k1]) (simp_all add: wn s4)
  moreover have sub: "set ws \<subseteq> set (remove1 w B)" using w(3,4) by (metis in_set_remove1 subset_iff)
  ultimately have "sem_ok k4 s (remove1 w B) (a\<lparr>as_wait := ws\<rparr>)"
    using a d(5,6) w(4) sub by (auto simp: sem_ok_def s4 wn)
  moreover have "sched_inv k4 (R(p := R p @ [w])) (remove1 w B) D" unfolding k4_def by (rule wake_result_inv [OF u(1)])
  moreover have "semaphore_give_common s woken k = Inr (VA_PASS,
      if woken \<noteq> None \<and> prio k w > prio k (current_task k) then Some True else woken, k4)"
    using d(1,4) pu
    by (simp add: semaphore_give_common_def Let_def unblock_task_def [symmetric] k4_def [symmetric])
  ultimately show ?thesis using wn(2) [of w] s4(3,4) by auto
qed

lemma semaphore_give_free:
  assumes I: "sched_inv k R B D" and a: "sem_ok k s B a" "as_wait a = []" "s_observers (semas k s) = None"
  shows "\<exists>k'. semaphore_give_common s woken k = Inr (fst (asem_give a), woken, k') \<and>
    sem_ok k' s B (snd (asem_give a)) \<and> sched_inv k' R B D"
proof -
  let ?k0 = "v_perf_on_ipc_give k"
  have q: "wait_q_dequeue s ?k0 = (0, ?k0)"
    using a by (intro wait_q_dequeue_empty) (auto simp: sem_ok_def wait_ok_def)
  have c: "s_count (semas k s) = as_count a" "s_limit (semas k s) = as_limit a" "0 \<le> as_count a"
    "as_limit a < 2 ^ 31"
    using a by (auto simp: sem_ok_def)
  have w: "wake_observers None k' = Some k'" for k' by (subst wake_observers.simps) simp
  show ?thesis
  proof (cases "as_count a \<ge> as_limit a")
    case True
    then have "semaphore_give_common s woken k = Inr (VA_FAIL, woken, ?k0)"
      using q c by (simp add: semaphore_give_common_def Let_def)
    moreover have "sem_ok ?k0 s B a" using a by (simp add: sem_ok_def wait_ok_def)
    ultimately show ?thesis using True a(2) sched_inv_perf(3) [OF I] by (simp add: asem_give_def)
  next
    case False
    let ?k1 = "upd_sema s (\<lambda>x. x\<lparr>s_count := atomic_inc (s_count x)\<rparr>) ?k0"
    have "atomic_inc (as_count a) = as_count a + 1"
      using False c(3,4) by (simp add: atomic_inc_def s32_id)
    then have "sem_ok ?k1 s B (a\<lparr>as_count := as_count a + 1\<rparr>)"
      using a c False by (auto simp: sem_ok_def wait_ok_def)
    moreover have "semaphore_give_common s woken k = Inr (VA_PASS, woken, ?k1)"
      using False q c a(3) by (simp add: semaphore_give_common_def Let_def mwait_wake_observers_def w)
    ultimately show ?thesis
      using False a(2) sched_inv_perf(5) [OF sched_inv_perf(3) [OF I]] by (simp add: asem_give_def)
  qed
qed

section \<open>Mutexes\<close>

abbreviation mnext :: "kernel \<Rightarrow> nat \<Rightarrow> nat" where "mnext k m \<equiv> m_next_held (rmutexes k m)"
abbreviation held :: "kernel \<Rightarrow> nat \<Rightarrow> nat" where "held k t \<equiv> t_held_mutexes (tcbs k t)"
abbreviation owner :: "kernel \<Rightarrow> nat \<Rightarrow> nat" where "owner k m \<equiv> m_owner (rmutexes k m)"

text \<open>\<open>held_ok k t ms\<close>: task \<open>t\<close> holds exactly the mutexes \<open>ms\<close>, last acquired first.\<close>

definition held_ok :: "kernel \<Rightarrow> nat \<Rightarrow> nat list \<Rightarrow> bool" where
  "held_ok k t ms \<longleftrightarrow> wseg (mnext k) (held k t) ms 0 \<and> distinct ms \<and> (\<forall>m \<in> set ms. owner k m = t)"

lemma held_seek_list:
  assumes "wseg (mnext k) a (as @ m # bs) 0" "m \<notin> set as"
  shows "held_seek k m p a = Some (last (p # as), m)"
  using assms
proof (induction as arbitrary: a p)
  case Nil
  then show ?case by (subst held_seek.simps) auto
next
  case (Cons x as)
  then show ?case by (subst held_seek.simps) auto
qed

lemma unlink_held_result:
  assumes h: "held_ok k c (as @ m # bs)"
  shows "\<exists>k'. unlink_held c m k = Inr k' \<and> held_ok k' c (as @ bs) \<and>
    (\<forall>x. \<exists>h. tcbs k' x = (tcbs k x)\<lparr>t_held_mutexes := h\<rparr>) \<and> (\<forall>x. x \<noteq> c \<longrightarrow> tcbs k' x = tcbs k x) \<and>
    (\<exists>T M. k' = k\<lparr>tcbs := T, rmutexes := M\<rparr>) \<and> (\<forall>x. owner k' x = owner k x) \<and>
    (\<forall>x. x \<notin> set (as @ m # bs) \<longrightarrow> rmutexes k' x = rmutexes k x)"
proof -
  have w: "wseg (mnext k) (held k c) (as @ m # bs) 0" "distinct (as @ m # bs)"
    "\<forall>x \<in> set (as @ m # bs). owner k x = c"
    using h by (auto simp: held_ok_def)
  have m0: "m \<noteq> 0" "0 \<notin> set as" using wseg_not_null [OF w(1)] by auto
  have s: "held_seek k m 0 (held k c) = Some (last (0 # as), m)"
    using held_seek_list [OF w(1)] w(2) by auto
  show ?thesis
  proof (cases as rule: rev_cases)
    case Nil
    let ?k1 = "upd_tcb c (\<lambda>t. t\<lparr>t_held_mutexes := mnext k m\<rparr>) k"
    let ?k2 = "upd_rmutex m (\<lambda>x. x\<lparr>m_next_held := 0\<rparr>) ?k1"
    have e: "unlink_held c m k = Inr ?k2" using s m0 by (simp add: unlink_held_def Nil)
    have "wseg (mnext k) (mnext k m) bs 0" using w(1) by (simp add: Nil)
    then have "wseg (mnext ?k2) (mnext k m) bs 0"
      using w(2) by (subst wseg_cong [of _ _ "mnext k"]) (auto simp: Nil)
    then have "held_ok ?k2 c (as @ bs)" using w(2,3) by (auto simp: held_ok_def Nil)
    moreover have "\<exists>h. tcbs ?k2 x = (tcbs k x)\<lparr>t_held_mutexes := h\<rparr>" for x
    proof (cases "x = c")
      case False
      then have "tcbs ?k2 x = (tcbs k x)\<lparr>t_held_mutexes := held k x\<rparr>" by simp
      then show ?thesis by blast
    qed auto
    moreover have "\<exists>T M. ?k2 = k\<lparr>tcbs := T, rmutexes := M\<rparr>"
      by (rule exI [of _ "tcbs ?k2"], rule exI [of _ "rmutexes ?k2"]) (simp add: upd_tcb_def upd_rmutex_def)
    ultimately show ?thesis using e by (intro exI [of _ ?k2]) (auto simp: Nil)
  next
    case (snoc us p)
    let ?k1 = "upd_rmutex p (\<lambda>x. x\<lparr>m_next_held := mnext k m\<rparr>) k"
    let ?k2 = "upd_rmutex m (\<lambda>x. x\<lparr>m_next_held := 0\<rparr>) ?k1"
    have p0: "p \<noteq> 0" "p \<noteq> m" using m0 w(2) by (auto simp: snoc)
    have e: "unlink_held c m k = Inr ?k2" using s m0 p0 by (simp add: unlink_held_def snoc)
    have "wseg (mnext ?k2) (held k c) (us @ p # bs) 0"
      by (rule wseg_delete [of "mnext k" _ _ _ m]) (use w(1,2) p0 in \<open>auto simp: snoc\<close>)
    then have "held_ok ?k2 c (as @ bs)" using w(2,3) p0 by (auto simp: held_ok_def snoc)
    moreover have "\<exists>h. tcbs ?k2 x = (tcbs k x)\<lparr>t_held_mutexes := h\<rparr>" for x
    proof -
      have "tcbs ?k2 x = (tcbs k x)\<lparr>t_held_mutexes := held k x\<rparr>" by simp
      then show ?thesis by blast
    qed
    moreover have "\<exists>T M. ?k2 = k\<lparr>tcbs := T, rmutexes := M\<rparr>"
      by (rule exI [of _ "tcbs ?k2"], rule exI [of _ "rmutexes ?k2"]) (simp add: upd_tcb_def upd_rmutex_def)
    ultimately show ?thesis using e by (intro exI [of _ ?k2]) (auto simp: snoc)
  qed
qed

text \<open>The priority an owner returns to: its base, raised to the heads of the queues it still blocks.\<close>

definition inherited_prio :: "kernel \<Rightarrow> nat \<Rightarrow> nat list \<Rightarrow> nat" where
  "inherited_prio k b ms = fold (\<lambda>m n. max n (mutex_top_waiter_prio m k)) ms b"

lemma held_top_prio_list:
  assumes "wseg (mnext k) a ms 0"
  shows "held_top_prio k a n = Some (inherited_prio k n ms)"
  using assms
proof (induction ms arbitrary: a n)
  case Nil
  then show ?case by (subst held_top_prio.simps) (simp add: inherited_prio_def)
next
  case (Cons m ms)
  then have "a = m" "m \<noteq> 0" "wseg (mnext k) (mnext k m) ms 0" by auto
  then show ?case
    using Cons.IH by (subst held_top_prio.simps) (simp add: inherited_prio_def Let_def max_def)
qed

lemma inherited_prio_le:
  "b \<le> p \<Longrightarrow> (\<And>m. m \<in> set ms \<Longrightarrow> mutex_top_waiter_prio m k \<le> p) \<Longrightarrow> inherited_prio k b ms \<le> p"
  unfolding inherited_prio_def by (induction ms arbitrary: b) auto

lemma inherited_prio_Cons:
  "inherited_prio k b (m # ms) = inherited_prio k (max b (mutex_top_waiter_prio m k)) ms"
  by (simp add: inherited_prio_def)

lemma inherited_prio_base: "b \<le> inherited_prio k b ms"
proof (induction ms arbitrary: b)
  case (Cons m ms)
  show ?case using Cons.IH [of "max b (mutex_top_waiter_prio m k)"] by (simp add: inherited_prio_Cons)
qed (simp add: inherited_prio_def)

lemma inherited_prio_ge: "m \<in> set ms \<Longrightarrow> mutex_top_waiter_prio m k \<le> inherited_prio k b ms"
proof (induction ms arbitrary: b)
  case (Cons x ms)
  show ?case
    using Cons inherited_prio_base [of "max b (mutex_top_waiter_prio x k)" k ms]
    by (auto simp: inherited_prio_Cons)
qed simp

lemma mutex_handoff_waiter:
  assumes I: "sched_inv k R B D" and a: "sem_ok k m B a" "as_wait a = w # ws"
    and p: "prio k w = p" "p \<le> 7"
  defines "k' \<equiv> mutex_handoff m k"
  shows "sem_ok k' m (remove1 w B) (a\<lparr>as_wait := ws\<rparr>)" "sched_inv k' (R(p := R p @ [w])) (remove1 w B) D"
    "owner k' m = w" "m_recursion_count (rmutexes k' m) = 1" "x \<noteq> m \<Longrightarrow> rmutexes k' x = rmutexes k x"
    "held k' w = m" "mnext k' m = held k w" "x \<noteq> w \<Longrightarrow> held k' x = held k x"
    "t_syscall_result (tcbs k' w) = VA_PASS" "t_has_syscall_result (tcbs k' w)"
    "t_wait_sem (tcbs k' w) = 0" "t_wait_mutex (tcbs k' w) = 0" "prio k' x = prio k x"
    "current_task k' = current_task k"
proof -
  have w: "wait_ok k m (w # ws)" "w \<in> set B" "set ws \<subseteq> set B" "w \<notin> set ws"
    using a by (auto simp: sem_ok_def wait_ok_def)
  obtain k1 where d: "wait_q_dequeue m k = (w, k1)" "wait_ok k1 m ws" "wait_only k k1" "w \<noteq> 0"
    "s_count (semas k1 m) = s_count (semas k m)" "s_limit (semas k1 m) = s_limit (semas k m)"
    using wait_q_dequeue_result [OF w(1)] by blast
  note f1 = wait_only_fields [OF d(3)]
  have hd1: "held k1 x = held k x" for x
    using d(3) wait_core_fields(8) [of "tcbs k1 x" "tcbs k x"] by (simp add: wait_only_def)
  let ?k2 = "upd_tcb w (\<lambda>t. t\<lparr>t_wait_sem := 0, t_wait_mutex := 0\<rparr>) k1"
  have I2: "sched_inv ?k2 R B D"
    by (rule sched_inv_fields [OF wait_only_inv [OF d(3) I]]) (simp_all add: same_sched_def)
  have p2: "prio ?k2 w = p" using f1(1) p(1) by simp
  note u = unblock_task_result [OF I2 w(2) p2 p(2)]
  define k3 where "k3 = unblock_task w ?k2"
  have c3: "prio k3 x = prio k x" "t_wait_sem (tcbs k3 x) = (if x = w then 0 else t_wait_sem (tcbs k x))"
    "wnext k3 x = wnext k1 x" "t_wait_mutex (tcbs k3 w) = 0" "held k3 x = held k x" for x
    using link_core_fields(1,3-6) [OF u(2) [of x, folded k3_def]] f1(1,6) hd1
      link_core_fields(5) [OF u(2) [of w, folded k3_def]] by (simp_all split: if_splits)
  have s3: "semas k3 = semas k1" "rmutexes k3 = rmutexes k" "current_task k3 = current_task k"
    using u(3-5) f1(7,14) by (simp_all add: k3_def)
  let ?k4 = "upd_rmutex m (\<lambda>x. x\<lparr>m_owner := w, m_recursion_count := 1, m_next_held := held k3 w\<rparr>) k3"
  let ?k5 = "upd_tcb w (\<lambda>t. t\<lparr>t_held_mutexes := m\<rparr>) ?k4"
  have e: "k' = v_syscall_wake_result w VA_PASS ?k5"
    using d(1,4) unfolding k'_def mutex_handoff_def Let_def by (simp add: unblock_task_def k3_def)
  have "sched_inv k3 (R(p := R p @ [w])) (remove1 w B) D" unfolding k3_def by (rule u(1))
  then have "sched_inv ?k5 (R(p := R p @ [w])) (remove1 w B) D"
    by (rule sched_inv_fields [OF sched_inv_perf(6)]) (simp_all add: same_sched_def)
  then show "sched_inv k' (R(p := R p @ [w])) (remove1 w B) D" unfolding e by (rule wake_result_inv)
  have "wait_ok k' m ws" using d(2) by (subst wait_ok_cong [of _ _ k1]) (simp_all add: e c3 s3)
  moreover have "set ws \<subseteq> set (remove1 w B)" using w(3,4) by (metis in_set_remove1 subset_iff)
  moreover have "t_wait_sem (tcbs k' x) = (if x = w then 0 else t_wait_sem (tcbs k x))" for x
    using c3(2) [of x] by (cases "x = w") (simp_all add: e)
  ultimately show "sem_ok k' m (remove1 w B) (a\<lparr>as_wait := ws\<rparr>)"
    using a d(5,6) w(4) by (auto simp: sem_ok_def e s3)
  show "owner k' m = w" "m_recursion_count (rmutexes k' m) = 1" "x \<noteq> m \<Longrightarrow> rmutexes k' x = rmutexes k x"
    "mnext k' m = held k w" "current_task k' = current_task k"
    using s3 c3(5) by (simp_all add: e)
  show "held k' w = m" "x \<noteq> w \<Longrightarrow> held k' x = held k x" "t_wait_mutex (tcbs k' w) = 0"
    using c3(4,5) by (simp_all add: e v_syscall_wake_result_def)
  show "t_syscall_result (tcbs k' w) = VA_PASS" "t_has_syscall_result (tcbs k' w)"
    "t_wait_sem (tcbs k' w) = 0" "prio k' x = prio k x"
    using c3(1,2) by (simp_all add: e)
qed

lemma mutex_handoff_free:
  assumes "sem_ok k m B a" "as_wait a = []" "as_count a = 0" "as_limit a = 1"
  defines "k' \<equiv> mutex_handoff m k"
  shows "sem_ok k' m B (a\<lparr>as_count := 1\<rparr>)" "sched_inv k R B D \<Longrightarrow> sched_inv k' R B D" "owner k' m = 0"
    "m_recursion_count (rmutexes k' m) = 0" "tcbs k' = tcbs k" "mnext k' x = mnext k x"
    "x \<noteq> m \<Longrightarrow> rmutexes k' x = rmutexes k x" "current_task k' = current_task k"
proof -
  have "wait_q_dequeue m k = (0, k)"
    using assms(1,2) by (intro wait_q_dequeue_empty) (simp add: sem_ok_def)
  then have e: "k' = upd_sema m (\<lambda>s. s\<lparr>s_count := atomic_inc (s_count s)\<rparr>)
      (upd_rmutex m (\<lambda>m. m\<lparr>m_owner := 0, m_recursion_count := 0\<rparr>) k)"
    by (simp add: k'_def mutex_handoff_def)
  show "sem_ok k' m B (a\<lparr>as_count := 1\<rparr>)"
    using assms(1-4) by (auto simp: sem_ok_def e wait_ok_def atomic_inc_def s32_def)
  show "sched_inv k R B D \<Longrightarrow> sched_inv k' R B D" unfolding e by (intro sched_inv_perf(5,6))
qed (simp_all add: k'_def mutex_handoff_def wait_q_dequeue_empty assms(1,2) assms(1) [unfolded sem_ok_def assms(2), simplified])

lemma upd_tcb_same: "f (tcbs k t) = tcbs k t \<Longrightarrow> upd_tcb t f k = k"
  by (simp add: upd_tcb_def fun_upd_idem)

lemma wait_ok_tcb:
  "semas k' m = semas k m \<Longrightarrow> (\<And>x. wnext k' x = wnext k x) \<Longrightarrow>
   (\<And>x. t_wait_sem (tcbs k' x) = t_wait_sem (tcbs k x)) \<Longrightarrow> sem_ok k' m B a = sem_ok k m B a"
  using wait_ok_cong [of k' m k] by (simp add: sem_ok_def)

text \<open>Releasing a mutex up to the hand-over: off the held list, priority recomputed.\<close>

lemma mutex_unlock_prepare:
  assumes I: "sched_inv k R B D" and c: "current_task k = c" "c \<noteq> 0" "status k c = TASK_RUNNING"
    and m: "owner k m = c" "held_ok k c (as @ m # bs)" "sem_ok k m B a"
    and p: "\<forall>x. prio k x \<le> 7" "t_base_priority (tcbs k c) \<le> 7"
  shows "\<exists>k2. mutex_unlock_common m k = Inr (VA_PASS, mutex_handoff m k2) \<and> sched_inv k2 R B D \<and>
    held_ok k2 c (as @ bs) \<and> prio k2 c = inherited_prio k (t_base_priority (tcbs k c)) (as @ bs) \<and>
    (\<forall>x. x \<noteq> c \<longrightarrow> tcbs k2 x = tcbs k x) \<and> sem_ok k2 m B a \<and>
    (\<forall>x. x \<notin> set (as @ m # bs) \<longrightarrow> rmutexes k2 x = rmutexes k x) \<and>
    current_task k2 = c \<and> status k2 c = TASK_RUNNING \<and>
    t_base_priority (tcbs k2 c) = t_base_priority (tcbs k c)"
proof -
  obtain k1 where u: "unlink_held c m k = Inr k1" "held_ok k1 c (as @ bs)"
    "\<forall>x. \<exists>h. tcbs k1 x = (tcbs k x)\<lparr>t_held_mutexes := h\<rparr>" "\<forall>x. x \<noteq> c \<longrightarrow> tcbs k1 x = tcbs k x"
    "\<exists>T M. k1 = k\<lparr>tcbs := T, rmutexes := M\<rparr>"
    "\<forall>x. x \<notin> set (as @ m # bs) \<longrightarrow> rmutexes k1 x = rmutexes k x"
    using unlink_held_result [OF m(2)] by blast
  obtain T M where km: "k1 = k\<lparr>tcbs := T, rmutexes := M\<rparr>" using u(5) by blast
  have f: "prio k1 x = prio k x" "status k1 x = status k x" "wnext k1 x = wnext k x"
    "t_wait_sem (tcbs k1 x) = t_wait_sem (tcbs k x)" "t_base_priority (tcbs k1 x) = t_base_priority (tcbs k x)"
    "same_sched (tcbs k1 x) (tcbs k x)" for x
    using u(3) [rule_format, of x] by (auto simp: same_sched_def)
  have g: "semas k1 = semas k" "current_task k1 = c" using km c(1) by simp_all
  have I1: "sched_inv k1 R B D" by (rule sched_inv_fields [OF I f(6)]) (simp_all add: km)
  let ?n = "inherited_prio k (t_base_priority (tcbs k c)) (as @ bs)"
  have top: "mutex_top_waiter_prio x k1 = mutex_top_waiter_prio x k" for x
    by (simp add: mutex_top_waiter_prio_def g f Let_def)
  have h: "held_top_prio k1 (held k1 c) (t_base_priority (tcbs k1 c)) = Some ?n"
    using held_top_prio_list [of k1 "held k1 c" "as @ bs"] u(2)
    by (simp add: held_ok_def inherited_prio_def top f(5))
  have n7: "?n \<le> 7"
    using p by (intro inherited_prio_le) (simp_all add: mutex_top_waiter_prio_def Let_def)
  let ?k2 = "upd_tcb c (\<lambda>x. x\<lparr>t_priority := ?n\<rparr>) k1"
  have tc: "task_change_priority c ?n k1 = ?k2"
    using n7 c f(2) [of c] by (simp add: task_change_priority_def)
  have k2: "(if ?n \<noteq> prio k1 c then task_change_priority c ?n k1 else k1) = ?k2"
  proof (cases "?n = prio k1 c")
    case True
    have "(tcbs k1 c)\<lparr>t_priority := prio k1 c\<rparr> = tcbs k1 c" by simp
    then have "upd_tcb c (\<lambda>x. x\<lparr>t_priority := ?n\<rparr>) k1 = k1" unfolding True by (rule upd_tcb_same)
    then show ?thesis using True by simp
  qed (simp add: tc)
  have cR: "c \<notin> set (R q)" if "q \<le> 7" for q
    using sched_inv_running [OF I c(3)] that by (auto simp: on_lists_def)
  have "sched_inv ?k2 R B D" by (rule sched_inv_prio [OF I1 cR])
  moreover have "held_ok ?k2 c (as @ bs)" using u(2) by (simp add: held_ok_def)
  moreover have "sem_ok ?k2 m B a" using m(3) by (subst wait_ok_tcb [of _ _ k]) (simp_all add: g f)
  moreover have "mutex_unlock_common m k = Inr (VA_PASS, mutex_handoff m ?k2)"
    using c m(1) u(1) h k2 by (simp add: mutex_unlock_common_def Let_def)
  moreover have "status ?k2 c = TASK_RUNNING" "t_base_priority (tcbs ?k2 c) = t_base_priority (tcbs k c)"
    using f(2,5) [of c] c(3) by simp_all
  ultimately show ?thesis using u(4,6) g(2) by (intro exI [of _ ?k2]) auto
qed

section \<open>Priority inheritance\<close>

text \<open>
  \<open>pi_chain k m os\<close>: mutex \<open>m\<close> is owned by the first of \<open>os\<close>, which is blocked on a mutex owned by
  the next one, and so on; the last owner is not blocked on a mutex.
\<close>

fun pi_chain :: "kernel \<Rightarrow> nat \<Rightarrow> nat list \<Rightarrow> bool" where
  "pi_chain k m [] \<longleftrightarrow> m = 0 \<or> owner k m = 0"
| "pi_chain k m [x] \<longleftrightarrow> m \<noteq> 0 \<and> x \<noteq> 0 \<and> owner k m = x \<and>
     (status k x \<noteq> TASK_BLOCKED \<or> t_wait_mutex (tcbs k x) = 0)"
| "pi_chain k m (x # y # zs) \<longleftrightarrow> m \<noteq> 0 \<and> x \<noteq> 0 \<and> owner k m = x \<and> status k x = TASK_BLOCKED \<and>
     t_wait_mutex (tcbs k x) \<noteq> 0 \<and> pi_chain k (t_wait_mutex (tcbs k x)) (y # zs)"

definition prio_core :: "tcb \<Rightarrow> tcb" where
  "prio_core t = t\<lparr>t_next := 0, t_prev := 0, t_priority := 0\<rparr>"

lemma prio_core_fields:
  assumes "prio_core a = prio_core b"
  shows "t_status a = t_status b" "t_wait_mutex a = t_wait_mutex b" "t_wait_sem a = t_wait_sem b"
    "t_wait_next a = t_wait_next b" "t_held_mutexes a = t_held_mutexes b" "t_delay_ticks a = t_delay_ticks b"
    "t_base_priority a = t_base_priority b"
  using assms by (cases a; cases b; simp add: prio_core_def)+

lemma prio_core_simps [simp]:
  "prio_core (t\<lparr>t_next := n\<rparr>) = prio_core t" "prio_core (t\<lparr>t_prev := n\<rparr>) = prio_core t"
  "prio_core (t\<lparr>t_priority := p\<rparr>) = prio_core t"
  "t_status t = s \<Longrightarrow> prio_core (t\<lparr>t_status := s\<rparr>) = prio_core t"
  by (simp_all add: prio_core_def)

lemma task_change_priority_frame:
  assumes I: "sched_inv k R B D" and p: "p \<le> 7" "t \<noteq> 0" "prio k t \<le> 7"
    and l: "status k t = TASK_READY \<longrightarrow> t \<in> set (R (prio k t))"
  shows "\<exists>R'. sched_inv (task_change_priority t p k) R' B D"
    "prio_core (tcbs (task_change_priority t p k) x) = prio_core (tcbs k x)"
    "prio (task_change_priority t p k) x = (if x = t then p else prio k x)"
    "semas (task_change_priority t p k) = semas k" "rmutexes (task_change_priority t p k) = rmutexes k"
    "current_task (task_change_priority t p k) = current_task k"
proof -
  show "\<exists>R'. sched_inv (task_change_priority t p k) R' B D"
    using task_change_priority_ready [OF I p(3), of t p] task_change_priority_other [OF I, of t p] l p(1)
    by (cases "status k t = TASK_READY") blast+
  show "prio_core (tcbs (task_change_priority t p k) x) = prio_core (tcbs k x)"
  proof (cases "status k t = TASK_READY")
    case True
    have "prio_core (tcbs (rl_remove t k) y) = prio_core (tcbs k y)" for y
      using rl_remove_links_only [of k t] unfolding links_only_def by (metis prio_core_simps(1,2))
    moreover have "status (rl_remove t k) t = TASK_READY"
      using True links_only_fields(1) [OF rl_remove_links_only [of k t], of t] by simp
    ultimately show ?thesis
      using True p by (simp add: task_change_priority_def Let_def add_to_ready_list_def
          remove_from_ready_list_def rl_append_def)
  qed (use p in \<open>simp add: task_change_priority_def\<close>)
  have "prio (rl_remove t k) y = prio k y" for y using links_only_fields(2) [OF rl_remove_links_only] .
  then show "prio (task_change_priority t p k) x = (if x = t then p else prio k x)"
    using p by (simp add: task_change_priority_def Let_def add_to_ready_list_def remove_from_ready_list_def rl_append_def)
qed (simp_all add: task_change_priority_def Let_def add_to_ready_list_def remove_from_ready_list_def)


lemma pi_chain_cong:
  assumes "rmutexes k' = rmutexes k" "\<And>x. status k' x = status k x"
    "\<And>x. t_wait_mutex (tcbs k' x) = t_wait_mutex (tcbs k x)"
  shows "pi_chain k' m os = pi_chain k m os"
proof (induction os arbitrary: m)
  case (Cons x os)
  then show ?case by (cases os) (simp_all add: assms)
qed (simp add: assms)

text \<open>Every ready task is on the queue of its priority.\<close>

definition ready_listed :: "kernel \<Rightarrow> (nat \<Rightarrow> nat list) \<Rightarrow> bool" where
  "ready_listed k R \<longleftrightarrow> (\<forall>x. x \<noteq> 0 \<and> status k x = TASK_READY \<longrightarrow> x \<in> set (R (prio k x)))"

lemma pi_boost_chain:
  assumes "sched_inv k R B D" "pi_chain k m os" "d + length os \<le> 4" "distinct os"
    and "\<forall>x \<in> set os. prio k x < prio k c" "prio k c \<le> 7" "ready_listed k R"
  shows "\<exists>k' R'. pi_boost d c m k = Inr k' \<and> sched_inv k' R' B D \<and>
    (\<forall>x. prio_core (tcbs k' x) = prio_core (tcbs k x)) \<and>
    (\<forall>x. prio k' x = (if x \<in> set os then prio k c else prio k x)) \<and>
    semas k' = semas k \<and> rmutexes k' = rmutexes k \<and> current_task k' = current_task k"
  using assms
proof (induction os arbitrary: d m k R)
  case Nil
  then show ?case by (subst pi_boost.simps) auto
next
  case (Cons x os)
  let ?p = "prio k c" and ?k1 = "task_change_priority x (prio k c) k"
  have x: "m \<noteq> 0" "x \<noteq> 0" "owner k m = x" "prio k x < ?p" using Cons.prems(2,5) by (cases os; auto)+
  have l: "status k x = TASK_READY \<longrightarrow> x \<in> set (R (prio k x))"
    using Cons.prems(7) x(2) by (simp add: ready_listed_def)
  have x7: "prio k x \<le> 7" using x(4) Cons.prems(6) by simp
  note f = task_change_priority_frame [OF Cons.prems(1,6) x(2) x7 l]
  have pc: "status ?k1 y = status k y" "t_wait_mutex (tcbs ?k1 y) = t_wait_mutex (tcbs k y)" for y
    using prio_core_fields(1,2) [OF f(2) [of y]] by simp_all
  show ?case
  proof (cases os)
    case Nil
    obtain R' where R': "sched_inv ?k1 R' B D" using f(1) by blast
    have "pi_boost d c m k = Inr ?k1"
      using x Cons.prems(2,3) pc by (subst pi_boost.simps) (auto simp: Nil Let_def)
    then show ?thesis using R' f by (intro exI [of _ ?k1] exI [of _ R']) (simp add: Nil)
  next
    case (Cons y zs)
    have b: "status k x = TASK_BLOCKED" "t_wait_mutex (tcbs k x) \<noteq> 0"
      "pi_chain k (t_wait_mutex (tcbs k x)) os"
      using Cons.prems(2) by (simp_all add: Cons)
    have cx: "c \<noteq> x" using x(4) by auto
    have I1: "sched_inv ?k1 R B D" by (rule task_change_priority_other [OF Cons.prems(1)]) (simp add: b)
    have ch: "pi_chain ?k1 (t_wait_mutex (tcbs k x)) os"
      using b(3) by (subst pi_chain_cong [of _ k]) (simp_all add: f(5) pc)
    have rl: "ready_listed ?k1 R" using Cons.prems(7) b(1) by (auto simp: ready_listed_def pc f(3))
    have pr: "\<forall>z \<in> set os. prio ?k1 z < prio ?k1 c" "prio ?k1 c = ?p"
      using Cons.prems(4,5) cx by (auto simp: f(3))
    obtain k' R' where r: "pi_boost (d + 1) c (t_wait_mutex (tcbs k x)) ?k1 = Inr k'" "sched_inv k' R' B D"
      "\<forall>z. prio_core (tcbs k' z) = prio_core (tcbs ?k1 z)"
      "\<forall>z. prio k' z = (if z \<in> set os then prio ?k1 c else prio ?k1 z)"
      "semas k' = semas ?k1" "rmutexes k' = rmutexes ?k1" "current_task k' = current_task ?k1"
      using Cons.IH [OF I1 ch _ _ pr(1) _ rl, of "d + 1"] Cons.prems(3,4,6) pr(2) by auto
    have "pi_boost d c m k = Inr k'"
      using x Cons.prems(3) pc b r(1) by (subst pi_boost.simps) (simp add: Cons Let_def)
    moreover have "\<forall>z. prio k' z = (if z \<in> set (x # os) then ?p else prio k z)"
      using r(4) pr(2) by (auto simp: f(3))
    ultimately show ?thesis
      using r f by (intro exI [of _ k'] exI [of _ R']) simp
  qed
qed

section \<open>The free mutex\<close>

text \<open>A semaphore with limit 1, as a mutex uses it.\<close>

definition asem_of :: "int \<Rightarrow> nat list \<Rightarrow> asem" where
  "asem_of c xs = \<lparr>as_count = c, as_limit = 1, as_wait = xs\<rparr>"

lemma held_ok_frame:
  "held_ok k c ms \<Longrightarrow> held k' c = held k c \<Longrightarrow> (\<And>x. x \<in> set ms \<Longrightarrow> rmutexes k' x = rmutexes k x) \<Longrightarrow>
   held_ok k' c ms"
  using wseg_cong [of ms "mnext k'" "mnext k"] by (simp add: held_ok_def)

lemma mutex_lock_free:
  assumes I: "sched_inv k R B D" and c: "current_task k = c" "c \<noteq> 0"
    and m: "owner k m = 0" "sem_ok k m B a" "as_count a = 1" "as_wait a = []" "held_ok k c ms" "m \<noteq> 0"
  shows "\<exists>k'. mutex_lock_common m n k = Inr (VA_PASS, k') \<and> sched_inv k' R B D \<and> owner k' m = c \<and>
    m_recursion_count (rmutexes k' m) = 1 \<and> held_ok k' c (m # ms) \<and> sem_ok k' m B (a\<lparr>as_count := 0\<rparr>) \<and>
    current_task k' = c \<and> status k' c = status k c \<and> (\<forall>x. prio k' x = prio k x) \<and>
    t_base_priority (tcbs k' c) = t_base_priority (tcbs k c)"
proof -
  let ?k1 = "upd_tcb c (\<lambda>t. t\<lparr>t_wait_mutex := m\<rparr>) k"
  have b: "pi_boost 0 c m k = Inr k" using m(1) by (subst pi_boost.simps) simp
  have s1: "sem_ok ?k1 m B a" using m(2) by (subst wait_ok_tcb [of _ _ k]) simp_all
  have I1: "sched_inv ?k1 R B D" by (rule sched_inv_fields [OF I]) (simp_all add: same_sched_def)
  let ?k2 = "upd_sema m (\<lambda>x. x\<lparr>s_count := atomic_dec (s_count x)\<rparr>) (v_perf_on_ipc_take_attempt ?k1)"
  have t: "semaphore_take_common m n ?k1 = Inr (VA_PASS, ?k2)"
    using m(2,3) by (simp add: semaphore_take_common_def Let_def sem_ok_def)
  have s2: "sem_ok ?k2 m B (a\<lparr>as_count := 0\<rparr>)"
    using semaphore_take_pass [OF s1, of n R B D] t m(3) by auto
  have I2: "sched_inv ?k2 R B D" by (intro sched_inv_perf(5) sched_inv_perf(1) I1)
  let ?k3 = "upd_tcb c (\<lambda>t. t\<lparr>t_wait_mutex := 0\<rparr>) ?k2"
  let ?k4 = "upd_rmutex m (\<lambda>x. x\<lparr>m_owner := c, m_recursion_count := 1, m_next_held := held ?k3 c\<rparr>) ?k3"
  let ?k5 = "upd_tcb c (\<lambda>t. t\<lparr>t_held_mutexes := m\<rparr>) ?k4"
  have e: "mutex_lock_common m n k = Inr (VA_PASS, ?k5)"
    using c m(1) b t by (simp add: mutex_lock_common_def Let_def)
  have "sched_inv ?k5 R B D" by (rule sched_inv_fields [OF I2]) (simp_all add: same_sched_def)
  moreover have "sem_ok ?k5 m B (a\<lparr>as_count := 0\<rparr>)" using s2 by (subst wait_ok_tcb [of _ _ ?k2]) simp_all
  moreover have "m \<notin> set ms" using m(1,5) c(2) by (auto simp: held_ok_def)
  moreover have "wseg (mnext ?k5) (held k c) ms 0"
    using m(5) \<open>m \<notin> set ms\<close> by (subst wseg_cong [of _ _ "mnext k"]) (auto simp: held_ok_def)
  ultimately show ?thesis
    using e m(5,6) c by (intro exI [of _ ?k5]) (auto simp: held_ok_def)
qed

end
