(* ===== verification/Ipc_Properties.thy ===== *)
theory Ipc_Properties
  imports Ipc Sched_Properties
begin

text \<open>
  The properties of semaphores and mutexes, and the state their witnesses run on: task 16 runs at
  priority 3; task 32 (priority 1) is ready and owns mutex 640; tasks 80 (priority 2) and 96
  (priority 1) wait on semaphore 512, and 96 owns mutex 704; semaphore 768 has a unit, and mutex
  832 is free.
\<close>

section \<open>A sample state\<close>

definition ipc_tcbs :: "nat \<Rightarrow> tcb" where
  "ipc_tcbs = (\<lambda>_. sample_tcb 0 0 TASK_TERMINATED 0 0)
     (8 := sample_tcb 8 0 TASK_READY 0 0, 16 := sample_tcb 16 3 TASK_RUNNING 0 0,
      32 := (sample_tcb 32 1 TASK_READY 0 0)\<lparr>t_held_mutexes := 640\<rparr>,
      80 := (sample_tcb 80 2 TASK_BLOCKED 96 0)\<lparr>t_wait_sem := 512, t_wait_next := 96\<rparr>,
      96 := (sample_tcb 96 1 TASK_BLOCKED 0 80)\<lparr>t_wait_sem := 512, t_held_mutexes := 704\<rparr>)"

definition ipc_kernel :: kernel where
  "ipc_kernel = sample_kernel
     \<lparr>tcbs := ipc_tcbs,
      semas := (\<lambda>_. \<lparr>s_wait_q = 0, s_tail = 0, s_count = 0, s_limit = 1, s_observers = None\<rparr>)
        (512 := \<lparr>s_wait_q = 80, s_tail = 96, s_count = 0, s_limit = 1, s_observers = None\<rparr>,
         768 := \<lparr>s_wait_q = 0, s_tail = 0, s_count = 1, s_limit = 1, s_observers = None\<rparr>,
         832 := \<lparr>s_wait_q = 0, s_tail = 0, s_count = 1, s_limit = 1, s_observers = None\<rparr>),
      rmutexes := (\<lambda>_. \<lparr>m_owner = 0, m_recursion_count = 0, m_next_held = 0\<rparr>)
        (640 := \<lparr>m_owner = 32, m_recursion_count = 1, m_next_held = 0\<rparr>,
         704 := \<lparr>m_owner = 96, m_recursion_count = 1, m_next_held = 0\<rparr>),
      ready_lists := (\<lambda>_. 0)(0 := 8, 1 := 32), ready_tails := (\<lambda>_. 0)(0 := 8, 1 := 32),
      blocked_list := 80, delayed_list := 0, ready_bitmap := 3\<rparr>"

definition ipc_ready :: "nat \<Rightarrow> nat list" where
  "ipc_ready = (\<lambda>_. [])(0 := [8], 1 := [32])"

lemmas ipc_defs = ipc_kernel_def ipc_tcbs_def sample_tcb_def ipc_ready_def

lemma ipc_fields [simp]:
  "tcbs ipc_kernel = ipc_tcbs" "current_task ipc_kernel = 16" "ready_bitmap ipc_kernel = 3"
  "idle_task ipc_kernel = 8"
  by (simp_all add: ipc_kernel_def)

lemma ipc_inv: "sched_inv ipc_kernel ipc_ready [80, 96] []"
proof -
  have "ready_ok ipc_kernel p (ipc_ready p)" if "p \<le> 7" for p
    by (auto simp: ready_ok_def ipc_defs dll_def)
  moreover have "bit (ready_bitmap ipc_kernel) p \<longleftrightarrow> p \<le> 7 \<and> ipc_ready p \<noteq> []" for p
    unfolding ipc_fields bit_three by (auto simp: ipc_ready_def)
  moreover have "queue_ok ipc_kernel (delayed_list ipc_kernel) [] {TASK_DELAYED}"
    "queue_ok ipc_kernel (blocked_list ipc_kernel) [80, 96] {TASK_BLOCKED, TASK_TERMINATED}"
    by (auto simp: queue_ok_def ipc_defs dll_def)
  ultimately show ?thesis by (auto simp: sched_inv_def)
qed

lemma ipc_sems:
  "sem_ok ipc_kernel 512 [80, 96] (asem_of 0 [80, 96])" "sem_ok ipc_kernel 768 [80, 96] (asem_of 1 [])"
  "sem_ok ipc_kernel 640 [80, 96] (asem_of 0 [])" "sem_ok ipc_kernel 832 [80, 96] (asem_of 1 [])"
  "sem_ok ipc_kernel 704 [80, 96] (asem_of 0 [])"
  by (simp_all add: sem_ok_def wait_ok_def ipc_defs asem_of_def)

lemma ipc_ready_listed: "ready_listed ipc_kernel ipc_ready"
  by (simp add: ready_listed_def ipc_defs)

section \<open>Semaphores\<close>

text \<open>
  Claim C16. \<open>semaphore_take_common\<close> is the take of the abstract semaphore: it takes a unit when there
  is one, fails at once when it may not block, and otherwise queues the caller by priority and
  puts it on the blocked list. It always returns, keeps the scheduler's invariant, and never
  leaves a task waiting while a unit is available.
\<close>

theorem semaphore_take_refines:
  assumes "sched_inv k R B D" "sem_ok k s B a" "s \<noteq> 0" "current_task k = c" "c \<noteq> 0"
      "status k c = TASK_RUNNING"
  shows "\<exists>r a' k' B'. semaphore_take_common s n k = Inr (r, k') \<and> asem_take (prio k) c (n \<noteq> 0) a = (r, a') \<and>
    B' = (if r = V_SYSCALL_BLOCKED then B @ [c] else B) \<and> sem_ok k' s B' a' \<and> sched_inv k' R B' D"
proof (cases "as_count a > 0")
  case True
  then show ?thesis
    using semaphore_take_pass [OF assms(2) True, of n R B D] assms(1) by (auto simp: asem_take_def)
next
  case False
  then have z: "as_count a = 0" using assms(2) by (simp add: sem_ok_def)
  show ?thesis
  proof (cases "n = 0")
    case True
    have "sem_ok (v_perf_on_ipc_take_attempt k) s B a"
      using assms(2) by (subst wait_ok_tcb [of _ _ k]) simp_all
    then show ?thesis
      using True z semaphore_take_would_block [OF assms(2) z] sched_inv_perf(1) [OF assms(1)]
      by (auto simp: asem_take_def)
  next
    case False
    show ?thesis
      using semaphore_take_blocks [OF assms(1,2) z assms(4-6) False assms(3)] z False
      by (auto simp: asem_take_def)
  qed
qed

theorem semaphore_take_refines_witness:
  "\<exists>r a' k' B'. semaphore_take_common 512 7 ipc_kernel = Inr (r, k') \<and>
    asem_take (prio ipc_kernel) 16 True (asem_of 0 [80, 96]) = (r, a') \<and>
    B' = (if r = V_SYSCALL_BLOCKED then [80, 96] @ [16] else [80, 96]) \<and> sem_ok k' 512 B' a' \<and>
    sched_inv k' ipc_ready B' []"
  using semaphore_take_refines [OF ipc_inv ipc_sems(1), of 16 7]
  by (simp add: ipc_tcbs_def sample_tcb_def)

text \<open>
  Claim C17. \<open>semaphore_give_common\<close> is the give of the abstract semaphore: with a waiter it hands the
  unit straight to the first one, which becomes ready with result \<open>VA_PASS\<close>; without one it
  counts up to the limit and fails beyond it. No task observes the semaphore through \<open>v_wait\<close>, and the
  waiters have priorities the kernel has.
\<close>

theorem semaphore_give_refines:
  assumes "sched_inv k R B D" "sem_ok k s B a" "s_observers (semas k s) = None"
      "\<forall>w \<in> set (as_wait a). prio k w \<le> MAX_PRIORITY"
  shows "\<exists>k' h R' B'. semaphore_give_common s woken k = Inr (fst (asem_give a), h, k') \<and>
    sem_ok k' s B' (snd (asem_give a)) \<and> sched_inv k' R' B' D \<and>
    (\<forall>w ws. as_wait a = w # ws \<longrightarrow> status k' w = TASK_READY \<and> t_wait_sem (tcbs k' w) = 0 \<and>
       t_syscall_result (tcbs k' w) = VA_PASS \<and> t_has_syscall_result (tcbs k' w))"
proof (cases "as_wait a")
  case Nil
  then show ?thesis using semaphore_give_free [OF assms(1,2) Nil assms(3), of woken] by auto
next
  case (Cons w ws)
  have p: "prio k w \<le> 7" using assms(4) Cons by simp
  obtain k' h where g: "semaphore_give_common s woken k = Inr (VA_PASS, h, k')"
    "sem_ok k' s (remove1 w B) (a\<lparr>as_wait := ws\<rparr>)"
    "sched_inv k' (R(prio k w := R (prio k w) @ [w])) (remove1 w B) D"
    "t_syscall_result (tcbs k' w) = VA_PASS" "t_has_syscall_result (tcbs k' w)" "t_wait_sem (tcbs k' w) = 0"
    using semaphore_give_handoff [OF assms(1,2) Cons refl p, of woken] by blast
  have "status k' w = TASK_READY" using sched_inv_status(1) [OF g(3) p, of w] by simp
  then show ?thesis
    using g Cons by (intro exI [of _ k'] exI [of _ h] exI [of _ "R(prio k w := R (prio k w) @ [w])"]
        exI [of _ "remove1 w B"]) (simp add: asem_give_def)
qed

theorem semaphore_give_refines_witness:
  "\<exists>k' h R' B'. semaphore_give_common 512 None ipc_kernel = Inr (VA_PASS, h, k') \<and>
    sem_ok k' 512 B' (asem_of 0 [96]) \<and> sched_inv k' R' B' [] \<and> status k' 80 = TASK_READY"
  using semaphore_give_refines [OF ipc_inv ipc_sems(1), of None]
  by (auto simp: asem_give_def asem_of_def ipc_defs)

lemma filter_prio_insert:
  assumes "sorted_wrt (\<lambda>x y. f x \<ge> (f y :: nat)) xs"
  shows "filter (\<lambda>x. f x = f t) (prio_insert f t xs) = filter (\<lambda>x. f x = f t) xs @ [t]"
  using assms
proof (induction xs)
  case (Cons a xs)
  show ?case
  proof (cases "f a \<ge> f t")
    case True
    then have "prio_insert f t (a # xs) = a # prio_insert f t xs" by (simp add: prio_insert_def)
    then show ?thesis using Cons by simp
  next
    case False
    then have "prio_insert f t (a # xs) = t # a # xs" by (simp add: prio_insert_def)
    moreover have "filter (\<lambda>x. f x = f t) (a # xs) = []"
      using False Cons.prems by (auto simp: filter_empty_conv)
    ultimately show ?thesis by simp
  qed
qed (simp add: prio_insert_def)

text \<open>
  \<open>wait_q_enqueue\<close> keeps a wait queue ordered by priority, most urgent first, and within
  a priority in the order of arrival; its walk always ends.
\<close>

theorem wait_q_enqueue_ordered:
  assumes "wait_ok k s xs" "sorted_wrt (\<lambda>x y. prio k x \<ge> prio k y) xs" "t \<noteq> 0" "t \<notin> set xs"
  shows "\<exists>k' ys. wait_q_enqueue s t k = Inr k' \<and> wait_ok k' s ys \<and> set ys = insert t (set xs) \<and>
    sorted_wrt (\<lambda>x y. prio k' x \<ge> prio k' y) ys \<and>
    filter (\<lambda>x. prio k' x = prio k' t) ys = filter (\<lambda>x. prio k x = prio k t) xs @ [t]"
proof -
  obtain k' where e: "wait_q_enqueue s t k = Inr k'" "wait_ok k' s (prio_insert (prio k) t xs)" "wait_only k k'"
    using wait_q_enqueue_result [OF assms(1,3,4)] by blast
  have "prio k' x = prio k x" for x using wait_only_fields(1) [OF e(3)] .
  then show ?thesis
    using e(1,2) sorted_prio_insert [OF assms(2)] filter_prio_insert [OF assms(2)]
    by (intro exI [of _ k'] exI [of _ "prio_insert (prio k) t xs"]) simp
qed

theorem wait_q_enqueue_ordered_witness:
  "\<exists>k' ys. wait_q_enqueue 512 32 ipc_kernel = Inr k' \<and> wait_ok k' 512 ys \<and> set ys = {32, 80, 96} \<and>
    sorted_wrt (\<lambda>x y. prio k' x \<ge> prio k' y) ys \<and> filter (\<lambda>x. prio k' x = prio k' 32) ys = [96, 32]"
proof -
  have "wait_ok ipc_kernel 512 [80, 96]" using ipc_sems(1) by (simp add: sem_ok_def asem_of_def)
  then show ?thesis
    using wait_q_enqueue_ordered [of ipc_kernel 512 "[80, 96]" 32] by (simp add: ipc_tcbs_def sample_tcb_def)
qed

text \<open>
  A counting semaphore created with a maximum of \<open>0x80000000\<close> or more is unusable: the
  limit is stored in a signed counter and becomes negative, so every give fails.
\<close>

theorem counting_limit_overflow:
  assumes "2 ^ 31 \<le> max_count" "max_count < 2 ^ 32" "buf \<noteq> 0"
    and "v_semaphore_create_counting_static max_count 0 buf k = (s, k')"
  shows "s = buf \<and> (\<exists>k''. v_semaphore_give s k' = Inr (VA_FAIL, k'') \<and> semas k'' = semas k')"
proof -
  have e: "s = buf" "k' = sema_init buf 0 max_count k"
    using assms(3,4) by (auto simp: v_semaphore_create_counting_static_def)
  have "s32 (int max_count) = int max_count - 2 ^ 32"
    using assms(1,2) by (simp add: s32_def mod_pos_pos_trivial zmod_trivial_iff mod_if)
      (simp add: mod_pos_geq mod_pos_pos_trivial)
  then have "s_count (semas k' buf) \<ge> s_limit (semas k' buf)" "s_wait_q (semas k' buf) = 0"
    using assms(2) by (simp_all add: e sema_init_def s32_def)
  then show ?thesis
    using assms(3) by (simp add: e(1) v_semaphore_give_def semaphore_give_common_def wait_q_dequeue_def Let_def)
qed

theorem counting_limit_overflow_witness:
  "\<exists>k''. v_semaphore_give 1024 (sema_init 1024 0 0xFFFFFFFF ipc_kernel) = Inr (VA_FAIL, k'')"
  using counting_limit_overflow [of "0xFFFFFFFF" 1024 ipc_kernel 1024 "sema_init 1024 0 0xFFFFFFFF ipc_kernel"]
  by (auto simp: v_semaphore_create_counting_static_def)

section \<open>Mutexes\<close>

text \<open>
  Claim C19. Unlocking a mutex: the caller gives up exactly this mutex, its priority becomes its base
  raised to the most urgent waiter of the mutexes it still holds, and the mutex goes straight to
  its first waiter, which is made ready as its owner with result \<open>VA_PASS\<close>, or becomes free.
\<close>

theorem mutex_unlock_hands_over:
  assumes "sched_inv k R B D" "current_task k = c" "c \<noteq> 0" "status k c = TASK_RUNNING"
    and "owner k m = c" "held_ok k c (as @ m # bs)" "sem_ok k m B a" "as_count a = 0" "as_limit a = 1"
    and "\<forall>x. prio k x \<le> MAX_PRIORITY" "t_base_priority (tcbs k c) \<le> MAX_PRIORITY"
  shows "\<exists>k' R' B'. mutex_unlock_common m k = Inr (VA_PASS, k') \<and> sched_inv k' R' B' D \<and>
    sem_ok k' m B' (snd (asem_give a)) \<and> held_ok k' c (as @ bs) \<and>
    prio k' c = inherited_prio k (t_base_priority (tcbs k c)) (as @ bs) \<and>
    (case as_wait a of
       [] \<Rightarrow> owner k' m = 0
     | w # ws \<Rightarrow> owner k' m = w \<and> held k' w = m \<and> status k' w = TASK_READY \<and>
         t_wait_mutex (tcbs k' w) = 0 \<and> t_syscall_result (tcbs k' w) = VA_PASS)"
proof -
  obtain k2 where u: "mutex_unlock_common m k = Inr (VA_PASS, mutex_handoff m k2)" "sched_inv k2 R B D"
    "held_ok k2 c (as @ bs)" "prio k2 c = inherited_prio k (t_base_priority (tcbs k c)) (as @ bs)"
    "\<forall>x. x \<noteq> c \<longrightarrow> tcbs k2 x = tcbs k x" "sem_ok k2 m B a"
    using mutex_unlock_prepare [OF assms(1-7,10,11)] by blast
  let ?k' = "mutex_handoff m k2"
  have nm: "x \<noteq> m" if "x \<in> set (as @ bs)" for x using assms(6) that by (auto simp: held_ok_def)
  show ?thesis
  proof (cases "as_wait a")
    case Nil
    note f = mutex_handoff_free [OF u(6) Nil assms(8,9)]
    have "asem_give a = (VA_PASS, a\<lparr>as_count := 1\<rparr>)" using Nil assms(8,9) by (simp add: asem_give_def)
    moreover have "held_ok ?k' c (as @ bs)" by (rule held_ok_frame [OF u(3)]) (simp_all add: f(5,7) nm)
    ultimately show ?thesis using u f(1-3,5) Nil by (intro exI [of _ ?k'] exI [of _ R] exI [of _ B]) simp
  next
    case (Cons w ws)
    have "w \<in> set B" using u(6) Cons by (simp add: sem_ok_def)
    then have "w \<noteq> c" using sched_inv_running [OF assms(1,4)] by (auto simp: on_lists_def)
    then have p: "prio k2 w = prio k w" "prio k w \<le> 7" using u(5) assms(10) by simp_all
    note f = mutex_handoff_waiter [OF u(2,6) Cons p]
    have "status ?k' w = TASK_READY" using sched_inv_status(1) [OF f(2) p(2), of w] by simp
    moreover have "snd (asem_give a) = a\<lparr>as_wait := ws\<rparr>" by (simp add: asem_give_def Cons)
    moreover have "held_ok ?k' c (as @ bs)"
      by (rule held_ok_frame [OF u(3)]) (use \<open>w \<noteq> c\<close> in \<open>simp_all add: f(5,8) nm\<close>)
    ultimately show ?thesis
      using u(1,4) f Cons by (intro exI [of _ ?k'] exI [of _ "R(prio k w := R (prio k w) @ [w])"]
          exI [of _ "remove1 w B"]) simp
  qed
qed


definition ipc_owner :: kernel where
  "ipc_owner = upd_rmutex 512 (\<lambda>m. m\<lparr>m_owner := 16, m_recursion_count := 1\<rparr>)
     (upd_tcb 16 (\<lambda>t. t\<lparr>t_held_mutexes := 512\<rparr>) ipc_kernel)"

lemma ipc_owner_inv: "sched_inv ipc_owner ipc_ready [80, 96] []"
  unfolding ipc_owner_def
  by (rule sched_inv_fields [OF ipc_inv]) (simp_all add: same_sched_def)

theorem mutex_unlock_hands_over_witness:
  "\<exists>k' R' B'. mutex_unlock_common 512 ipc_owner = Inr (VA_PASS, k') \<and> sched_inv k' R' B' [] \<and>
    owner k' 512 = 80 \<and> held k' 80 = 512 \<and> status k' 80 = TASK_READY \<and> prio k' 16 = 3"
proof -
  have p: "prio ipc_owner x \<le> 7" for x by (simp add: ipc_owner_def ipc_tcbs_def sample_tcb_def)
  have h: "held_ok ipc_owner 16 ([] @ 512 # [])"
    by (simp add: held_ok_def ipc_owner_def ipc_kernel_def)
  have s: "sem_ok ipc_owner 512 [80, 96] (asem_of 0 [80, 96])"
    using ipc_sems(1) by (subst wait_ok_tcb [of _ _ ipc_kernel]) (simp_all add: ipc_owner_def)
  have f: "current_task ipc_owner = 16" "status ipc_owner 16 = TASK_RUNNING" "owner ipc_owner 512 = 16"
    "t_base_priority (tcbs ipc_owner 16) = 3"
    by (simp_all add: ipc_owner_def ipc_tcbs_def sample_tcb_def)
  show ?thesis
    using mutex_unlock_hands_over [OF ipc_owner_inv f(1) _ f(2,3) h s] p
    by (auto simp: asem_of_def f inherited_prio_def)
qed

text \<open>
  Claim C18. Transitive priority inheritance: a task that blocks on a mutex raises every owner along
  the chain of mutexes, up to \<open>MAX_PI_DEPTH\<close> owners, to its own priority and no other task; it is
  queued on the mutex and the call returns.
\<close>

theorem mutex_lock_inherits:
  assumes "sched_inv k R B D" "ready_listed k R" "current_task k = c" "c \<noteq> 0" "status k c = TASK_RUNNING"
    and "prio k c \<le> MAX_PRIORITY" "m \<noteq> 0" "sem_ok k m B a" "as_count a = 0" "n \<noteq> 0"
    and "pi_chain k m os" "length os \<le> MAX_PI_DEPTH" "distinct os" "\<forall>x \<in> set os. prio k x < prio k c"
  shows "\<exists>k' R'. mutex_lock_common m n k = Inr (V_SYSCALL_BLOCKED, k') \<and> sched_inv k' R' (B @ [c]) D \<and>
    (\<forall>x. prio k' x = (if x \<in> set os then prio k c else prio k x)) \<and>
    sem_ok k' m (B @ [c]) (a\<lparr>as_wait := prio_insert (prio k') c (as_wait a)\<rparr>) \<and>
    t_wait_mutex (tcbs k' c) = m"
proof -
  obtain k1 R1 where b: "pi_boost 0 c m k = Inr k1" "sched_inv k1 R1 B D"
    "\<forall>x. prio_core (tcbs k1 x) = prio_core (tcbs k x)"
    "\<forall>x. prio k1 x = (if x \<in> set os then prio k c else prio k x)"
    "semas k1 = semas k" "rmutexes k1 = rmutexes k" "current_task k1 = current_task k"
    using pi_boost_chain [OF assms(1,11) _ assms(13,14,6,2), of 0] assms(12) by auto
  note pc = prio_core_fields [OF b(3) [rule_format]]
  let ?k2 = "upd_tcb c (\<lambda>t. t\<lparr>t_wait_mutex := m\<rparr>) k1"
  have I2: "sched_inv ?k2 R1 B D" by (rule sched_inv_fields [OF b(2)]) (simp_all add: same_sched_def)
  have s2: "sem_ok ?k2 m B a"
    using assms(8) by (subst wait_ok_tcb [of _ _ k]) (simp_all add: b(5) pc)
  have c2: "current_task ?k2 = c" "status ?k2 c = TASK_RUNNING" using b(7) assms(3,5) pc(1) by simp_all
  have pr: "prio ?k2 = prio k1" by (auto simp: fun_eq_iff)
  obtain k3 where t: "semaphore_take_common m n ?k2 = Inr (V_SYSCALL_BLOCKED, k3)"
    "sem_ok k3 m (B @ [c]) (a\<lparr>as_wait := prio_insert (prio k1) c (as_wait a)\<rparr>)" "sched_inv k3 R1 (B @ [c]) D"
    "\<forall>x. prio k3 x = prio ?k2 x" "\<forall>x. t_wait_mutex (tcbs k3 x) = t_wait_mutex (tcbs ?k2 x)"
    using semaphore_take_blocks [OF I2 s2 assms(9) c2(1) assms(4) c2(2) assms(10,7)] unfolding pr by blast
  have "mutex_lock_common m n k = Inr (V_SYSCALL_BLOCKED, k3)"
    using assms(3,4) b(1) t(1) by (simp add: mutex_lock_common_def Let_def)
  moreover have "prio k3 = prio k1" using t(4) pr by metis
  ultimately show ?thesis using t b(4) by (intro exI [of _ k3] exI [of _ R1]) simp
qed

theorem mutex_lock_inherits_witness:
  "\<exists>k' R'. mutex_lock_common 640 5 ipc_kernel = Inr (V_SYSCALL_BLOCKED, k') \<and>
    sched_inv k' R' [80, 96, 16] [] \<and> prio k' 32 = 3 \<and> t_wait_mutex (tcbs k' 16) = 640"
proof -
  have "pi_chain ipc_kernel 640 [32]" by (simp add: ipc_defs)
  moreover have "\<forall>x \<in> set [32]. prio ipc_kernel x < prio ipc_kernel 16"
    by (simp add: ipc_tcbs_def sample_tcb_def)
  ultimately show ?thesis
    using mutex_lock_inherits [OF ipc_inv ipc_ready_listed ipc_fields(2) _ _ _ _ ipc_sems(3), of 5 "[32]"]
    by (auto simp: asem_of_def ipc_tcbs_def sample_tcb_def)
qed

text \<open>
  Claim C20. Locking a free mutex and unlocking it again: the lock succeeds at once and makes the
  caller the owner, the unlock succeeds, and the mutex, the caller's list of held mutexes and the
  ready queues are what they were.
\<close>

theorem mutex_lock_unlock_roundtrip:
  assumes "sched_inv k R B D" "current_task k = c" "c \<noteq> 0" "status k c = TASK_RUNNING"
    and "owner k m = 0" "sem_ok k m B a" "as_count a = 1" "as_limit a = 1" "as_wait a = []"
      "held_ok k c ms" "m \<noteq> 0"
    and "\<forall>x. prio k x \<le> MAX_PRIORITY" "t_base_priority (tcbs k c) \<le> MAX_PRIORITY"
  shows "\<exists>k1 k2. mutex_lock_common m n k = Inr (VA_PASS, k1) \<and> owner k1 m = c \<and> held_ok k1 c (m # ms) \<and>
    mutex_unlock_common m k1 = Inr (VA_PASS, k2) \<and> owner k2 m = 0 \<and> held_ok k2 c ms \<and>
    sem_ok k2 m B a \<and> sched_inv k2 R B D"
proof -
  obtain k1 where l: "mutex_lock_common m n k = Inr (VA_PASS, k1)" "sched_inv k1 R B D" "owner k1 m = c"
    "held_ok k1 c (m # ms)" "sem_ok k1 m B (a\<lparr>as_count := 0\<rparr>)" "current_task k1 = c"
    "status k1 c = status k c" "\<forall>x. prio k1 x = prio k x"
    "t_base_priority (tcbs k1 c) = t_base_priority (tcbs k c)"
    using mutex_lock_free [OF assms(1-3,5-7,9-11)] by blast
  have p: "\<forall>x. prio k1 x \<le> 7" "t_base_priority (tcbs k1 c) \<le> 7" using l(8,9) assms(12,13) by simp_all
  have h: "held_ok k1 c ([] @ m # ms)" using l(4) by simp
  obtain k2 where u: "mutex_unlock_common m k1 = Inr (VA_PASS, mutex_handoff m k2)" "sched_inv k2 R B D"
    "held_ok k2 c ([] @ ms)" "sem_ok k2 m B (a\<lparr>as_count := 0\<rparr>)"
    using mutex_unlock_prepare [OF l(2,6) assms(3) _ l(3) h l(5) p] l(7) assms(4) by auto
  have "as_wait (a\<lparr>as_count := 0\<rparr>) = []" "as_count (a\<lparr>as_count := 0\<rparr>) = 0" "as_limit (a\<lparr>as_count := 0\<rparr>) = 1"
    using assms(8,9) by simp_all
  note f = mutex_handoff_free [OF u(4) this]
  have "m \<notin> set ms" using l(4) by (simp add: held_ok_def)
  then have "held_ok (mutex_handoff m k2) c ms"
    by (intro held_ok_frame [OF u(3) [simplified]]) (auto simp: f(5) intro: f(7))
  moreover have "a\<lparr>as_count := 1\<rparr> = a" using assms(7) by (cases a) simp
  then have "sem_ok (mutex_handoff m k2) m B a" using f(1) by simp
  ultimately show ?thesis using l(1,3,4) u(1) f(3) f(2) [OF u(2)] by blast
qed

theorem mutex_lock_unlock_roundtrip_witness:
  "\<exists>k1 k2. mutex_lock_common 832 0 ipc_kernel = Inr (VA_PASS, k1) \<and> owner k1 832 = 16 \<and>
    mutex_unlock_common 832 k1 = Inr (VA_PASS, k2) \<and> owner k2 832 = 0"
proof -
  have h: "held_ok ipc_kernel 16 []" "owner ipc_kernel 832 = 0" by (simp_all add: held_ok_def ipc_defs)
  have p: "\<forall>x. prio ipc_kernel x \<le> 7" "t_base_priority (tcbs ipc_kernel 16) \<le> 7"
    "status ipc_kernel 16 = TASK_RUNNING"
    by (simp_all add: ipc_tcbs_def sample_tcb_def)
  show ?thesis
    using mutex_lock_unlock_roundtrip [OF ipc_inv ipc_fields(2) _ p(3) h(2) ipc_sems(4) _ _ _ h(1) _ p(1,2), of 0]
    by (auto simp: asem_of_def)
qed

text \<open>
  Raising the priority of a task that itself waits on a semaphore does not move it in that
  wait queue: the queue then starts with a less urgent task, which the next give wakes first,
  although the queue is meant to hand the unit to the most urgent waiter.
\<close>

theorem boosted_waiter_stays_behind:
  assumes "sched_inv k R B D" "ready_listed k R" "pi_chain k m os" "length os \<le> MAX_PI_DEPTH" "distinct os"
    and "\<forall>x \<in> set os. prio k x < prio k c" "prio k c \<le> MAX_PRIORITY"
    and "wait_ok k s (x # y # ws)" "x \<notin> set os" "y \<in> set os" "prio k x < prio k c"
  shows "\<exists>k'. pi_boost 0 c m k = Inr k' \<and> prio k' x < prio k' y \<and> fst (wait_q_dequeue s k') = x"
proof -
  obtain k' where b: "pi_boost 0 c m k = Inr k'" "\<forall>z. prio_core (tcbs k' z) = prio_core (tcbs k z)"
    "\<forall>z. prio k' z = (if z \<in> set os then prio k c else prio k z)" "semas k' = semas k"
    using pi_boost_chain [OF assms(1,3) _ assms(5,6,7,2), of 0] assms(4) by auto
  have "wait_ok k' s (x # y # ws)"
    using assms(8) prio_core_fields(4) [OF b(2) [rule_format]]
    by (subst wait_ok_cong [of _ _ k]) (simp_all add: b(4))
  then have "fst (wait_q_dequeue s k') = x" using wait_q_dequeue_result by fastforce
  then show ?thesis using b(1,3) assms(9-11) by auto
qed

theorem boosted_waiter_stays_behind_witness:
  "\<exists>k'. pi_boost 0 16 704 ipc_kernel = Inr k' \<and> prio k' 80 < prio k' 96 \<and> fst (wait_q_dequeue 512 k') = 80"
proof -
  have "pi_chain ipc_kernel 704 [96]" by (simp add: ipc_defs)
  moreover have "wait_ok ipc_kernel 512 [80, 96]" using ipc_sems(1) by (simp add: sem_ok_def asem_of_def)
  ultimately show ?thesis
    using boosted_waiter_stays_behind [OF ipc_inv ipc_ready_listed, of 704 "[96]" 16 512 80 96 "[]"]
    by (simp add: ipc_tcbs_def sample_tcb_def)
qed

end
