(* ===== verification/Bounded_Queue.thy ===== *)
theory Bounded_Queue
  imports Main
begin

text \<open>
  The contract of a bounded queue, as an interface: an implementation promises what one \<open>put\<close> and
  one \<open>get\<close> do to the list of elements it represents. Any sequence of calls then returns what the
  abstract queue returns. A put on a full queue is refused, or, in a lossy queue, drops the oldest
  element. The MPMC queue provides this interface, under both of its policies.
\<close>

section \<open>The abstract queue\<close>

datatype 'e queue_op = Put 'e | Get

datatype 'e queue_res = Accepted bool | Item "'e option"

fun spec_step :: "nat \<Rightarrow> bool \<Rightarrow> 'e queue_op \<Rightarrow> 'e list \<Rightarrow> 'e queue_res \<times> 'e list" where
  "spec_step c lossy (Put x) xs =
     (if length xs < c then (Accepted True, xs @ [x])
      else if lossy then (Accepted True, tl xs @ [x]) else (Accepted False, xs))"
| "spec_step c lossy Get [] = (Item None, [])"
| "spec_step c lossy Get (x # xs) = (Item (Some x), xs)"

fun spec_run :: "nat \<Rightarrow> bool \<Rightarrow> 'e queue_op list \<Rightarrow> 'e list \<Rightarrow> 'e queue_res list \<times> 'e list" where
  "spec_run c lossy [] xs = ([], xs)"
| "spec_run c lossy (a # as) xs =
     (let (r, xs) = spec_step c lossy a xs; (rs, xs) = spec_run c lossy as xs in (r # rs, xs))"

section \<open>The interface\<close>

text \<open>
  A call that faults is \<open>None\<close>; the laws say that no call on a representation does.
\<close>

fun queue_step :: "('e \<Rightarrow> 'q \<Rightarrow> (bool \<times> 'q) option) \<Rightarrow> ('q \<Rightarrow> ('e option \<times> 'q) option) \<Rightarrow>
    'e queue_op \<Rightarrow> 'q \<Rightarrow> ('e queue_res \<times> 'q) option" where
  "queue_step put_fn get_fn (Put x) q = map_option (\<lambda>(b, q). (Accepted b, q)) (put_fn x q)"
| "queue_step put_fn get_fn Get q = map_option (\<lambda>(r, q). (Item r, q)) (get_fn q)"

fun queue_run :: "('e \<Rightarrow> 'q \<Rightarrow> (bool \<times> 'q) option) \<Rightarrow> ('q \<Rightarrow> ('e option \<times> 'q) option) \<Rightarrow>
    'e queue_op list \<Rightarrow> 'q \<Rightarrow> ('e queue_res list \<times> 'q) option" where
  "queue_run put_fn get_fn [] q = Some ([], q)"
| "queue_run put_fn get_fn (a # as) q =
     (case queue_step put_fn get_fn a q of
        None \<Rightarrow> None
      | Some (r, q) \<Rightarrow> map_option (\<lambda>(rs, q). (r # rs, q)) (queue_run put_fn get_fn as q))"

locale bounded_queue =
  fixes rep :: "'q \<Rightarrow> 'e list \<Rightarrow> bool"
    and bound :: "'q \<Rightarrow> nat"
    and lossy :: "'q \<Rightarrow> bool"
    and valid :: "'q \<Rightarrow> 'e \<Rightarrow> bool"
    and put_fn :: "'e \<Rightarrow> 'q \<Rightarrow> (bool \<times> 'q) option"
    and get_fn :: "'q \<Rightarrow> ('e option \<times> 'q) option"
  assumes rep_bound: "rep q xs \<Longrightarrow> length xs \<le> bound q"
    and put_law: "rep q xs \<Longrightarrow> valid q x \<Longrightarrow>
      \<exists>q'. put_fn x q = Some (length xs < bound q \<or> lossy q, q') \<and>
        rep q' (if length xs < bound q then xs @ [x] else if lossy q then tl xs @ [x] else xs) \<and>
        bound q' = bound q \<and> lossy q' = lossy q \<and> valid q' = valid q"
    and get_law: "rep q xs \<Longrightarrow>
      \<exists>q'. get_fn q = Some (case xs of [] \<Rightarrow> None | x # _ \<Rightarrow> Some x, q') \<and>
        rep q' (tl xs) \<and> bound q' = bound q \<and> lossy q' = lossy q \<and> valid q' = valid q"
begin

lemma step_refines:
  assumes "rep q xs" "\<And>x. a = Put x \<Longrightarrow> valid q x"
  shows "\<exists>r q'. queue_step put_fn get_fn a q = Some (r, q') \<and> fst (spec_step (bound q) (lossy q) a xs) = r \<and>
    rep q' (snd (spec_step (bound q) (lossy q) a xs)) \<and> bound q' = bound q \<and> lossy q' = lossy q \<and> valid q' = valid q"
proof (cases a)
  case (Put x)
  then show ?thesis using put_law [OF assms(1), of x] assms(2) by auto
next
  case Get
  then show ?thesis using get_law [OF assms(1)] by (cases xs) auto
qed

lemma run_refines:
  assumes "rep q xs" "\<And>x. Put x \<in> set as \<Longrightarrow> valid q x"
  shows "\<exists>rs q'. queue_run put_fn get_fn as q = Some (rs, q') \<and> fst (spec_run (bound q) (lossy q) as xs) = rs \<and>
    rep q' (snd (spec_run (bound q) (lossy q) as xs)) \<and> bound q' = bound q"
  using assms
proof (induction as arbitrary: q xs)
  case (Cons a as)
  obtain r q1 where s: "queue_step put_fn get_fn a q = Some (r, q1)" "fst (spec_step (bound q) (lossy q) a xs) = r"
    "rep q1 (snd (spec_step (bound q) (lossy q) a xs))" "bound q1 = bound q" "lossy q1 = lossy q" "valid q1 = valid q"
    using step_refines [OF Cons.prems(1), of a] Cons.prems(2) by fastforce
  obtain rs q' where i: "queue_run put_fn get_fn as q1 = Some (rs, q')"
    "fst (spec_run (bound q) (lossy q) as (snd (spec_step (bound q) (lossy q) a xs))) = rs"
    "rep q' (snd (spec_run (bound q) (lossy q) as (snd (spec_step (bound q) (lossy q) a xs))))" "bound q' = bound q"
    using Cons.IH [OF s(3)] Cons.prems(2) s(4-6) by fastforce
  have "spec_run (bound q) (lossy q) (a # as) xs =
      (r # rs, snd (spec_run (bound q) (lossy q) as (snd (spec_step (bound q) (lossy q) a xs))))"
    using s(2) i(2) by (auto simp: Let_def split: prod.splits)
  then show ?case using s(1) i by (intro exI [of _ "r # rs"] exI [of _ q']) simp
qed simp

end

end
