(* ===== verification/Mpmc.thy ===== *)
theory Mpmc
  imports Ipc Kernel_Heap Bounded_Queue
begin

text \<open>
  Creation of semaphores and mutexes from the kernel heap (\<open>kernel/ipc.c\<close>) and the MPMC queue
  (\<open>kernel/structure.c\<close>, lines 332 to 496), a ring of elements guarded by a mutex and two counting
  semaphores.

  The queue calls are modelled as they run in handler mode, on behalf of \<open>v_queue_try_send\<close> and
  \<open>v_queue_try_recv\<close>: a take or lock that has to wait returns \<open>V_SYSCALL_BLOCKED\<close>, which the code
  treats as any result other than \<open>VA_PASS\<close>, and which it ignores for the lock.
\<close>

section \<open>Definitions\<close>

subsection \<open>Creation\<close>

definition heap_res :: "heap_fault + 'a \<Rightarrow> 'a kres" where
  "heap_res r = (case r of Inl Heap_Panic \<Rightarrow> Inl K_Panic | Inl Heap_Undefined \<Rightarrow> Inl K_Undef | Inr a \<Rightarrow> Inr a)"

text \<open>Sizes of the structures on the 32-bit target.\<close>

abbreviation (input) SIZEOF_SEMA :: nat where "SIZEOF_SEMA \<equiv> 20"
abbreviation (input) SIZEOF_RMUTEX :: nat where "SIZEOF_RMUTEX \<equiv> 32"

definition v_semaphore_create_binary ::
    "'i index_ops \<Rightarrow> heap_cfg \<Rightarrow> kernel \<times> 'i heap \<Rightarrow> (nat \<times> kernel \<times> 'i heap) kres" where
  "v_semaphore_create_binary ops cfg = (\<lambda>(k, h).
     kbind (heap_res (v_malloc ops cfg SIZEOF_SEMA h)) (\<lambda>(sem, h).
       if sem = 0 then Inr (0, k, h) else Inr (sem, sema_init sem 0 1 k, h)))"

definition v_semaphore_create_counting ::
    "'i index_ops \<Rightarrow> heap_cfg \<Rightarrow> nat \<Rightarrow> nat \<Rightarrow> kernel \<times> 'i heap \<Rightarrow> (nat \<times> kernel \<times> 'i heap) kres" where
  "v_semaphore_create_counting ops cfg max_count initial_count = (\<lambda>(k, h).
     if initial_count > max_count then Inr (0, k, h)
     else kbind (heap_res (v_malloc ops cfg SIZEOF_SEMA h)) (\<lambda>(sem, h).
       if sem = 0 then Inr (0, k, h) else Inr (sem, sema_init sem initial_count max_count k, h)))"

definition v_mutex_create ::
    "'i index_ops \<Rightarrow> heap_cfg \<Rightarrow> kernel \<times> 'i heap \<Rightarrow> (nat \<times> kernel \<times> 'i heap) kres" where
  "v_mutex_create ops cfg = (\<lambda>(k, h).
     kbind (heap_res (v_malloc ops cfg SIZEOF_RMUTEX h)) (\<lambda>(mtx, h).
       if mtx = 0 then Inr (0, k, h)
       else Inr (mtx, upd_rmutex mtx (\<lambda>m. m\<lparr>m_owner := 0, m_recursion_count := 0, m_next_held := 0\<rparr>)
                        (sema_init mtx 1 1 k), h)))"

definition v_mutex_create_recursive ::
    "'i index_ops \<Rightarrow> heap_cfg \<Rightarrow> kernel \<times> 'i heap \<Rightarrow> (nat \<times> kernel \<times> 'i heap) kres" where
  "v_mutex_create_recursive ops cfg = (\<lambda>(k, h).
     kbind (heap_res (v_malloc ops cfg SIZEOF_RMUTEX h)) (\<lambda>(mtx, h).
       if mtx = 0 then Inr (0, k, h)
       else Inr (mtx, upd_rmutex mtx (\<lambda>m. m\<lparr>m_owner := 0, m_recursion_count := 0, m_next_held := 0\<rparr>)
                        (sema_init mtx 1 1 k), h)))"

subsection \<open>The queue\<close>

datatype mpmc_policy = MPMC_POLICY_DROP | MPMC_POLICY_OVERWRITE

text \<open>
  \<open>mq_store\<close> are the bytes \<open>q->buffer\<close> points at. \<open>mpmc_init\<close> leaves the two wake hints of the
  descriptor layer as they are.
\<close>

record mpmc_queue =
  mq_store :: "u8 list"
  mq_capacity :: nat
  mq_elem_size :: nat
  mq_policy :: mpmc_policy
  mq_head :: nat
  mq_tail :: nat
  mq_count :: nat
  mq_lock :: nat
  mq_not_empty :: nat
  mq_not_full :: nat
  mq_fd_wake_rd :: nat
  mq_fd_wake_wr :: nat

definition mpmc_init ::
    "'i index_ops \<Rightarrow> heap_cfg \<Rightarrow> u8 list \<Rightarrow> nat \<Rightarrow> nat \<Rightarrow> mpmc_queue \<Rightarrow> kernel \<times> 'i heap \<Rightarrow>
     (mpmc_queue \<times> kernel \<times> 'i heap) kres" where
  "mpmc_init ops cfg buffer capacity elem_size q s =
     (let q = q\<lparr>mq_store := buffer, mq_capacity := capacity, mq_elem_size := elem_size,
                mq_head := 0, mq_tail := 0, mq_count := 0\<rparr>
      in kbind (v_mutex_create ops cfg s) (\<lambda>(l, s).
         let q = q\<lparr>mq_lock := l, mq_policy := MPMC_POLICY_DROP\<rparr>
         in kbind (v_semaphore_create_counting ops cfg capacity 0 s) (\<lambda>(e, s).
            kbind (v_semaphore_create_counting ops cfg capacity capacity s) (\<lambda>(f, s).
              Inr (q\<lparr>mq_not_empty := e, mq_not_full := f\<rparr>, s)))))"

definition mpmc_set_policy :: "mpmc_policy \<Rightarrow> mpmc_queue \<Rightarrow> mpmc_queue" where
  "mpmc_set_policy p q = q\<lparr>mq_policy := p\<rparr>"

text \<open>The copy of an element into the slot at \<open>head\<close>, and of the one at \<open>tail\<close> out of it.\<close>

definition mpmc_store :: "u8 list \<Rightarrow> mpmc_queue \<Rightarrow> mpmc_queue" where
  "mpmc_store item q =
     q\<lparr>mq_store := memcpy_into (mq_store q) (mq_head q * mq_elem_size q) (take (mq_elem_size q) item)\<rparr>"

definition mpmc_load :: "mpmc_queue \<Rightarrow> u8 list" where
  "mpmc_load q = bytes_at (mq_store q) (mq_tail q * mq_elem_size q) (mq_elem_size q)"

text \<open>The end of a push: the element goes in under the lock, then the readers are told.\<close>

definition mpmc_push_locked :: "u8 list \<Rightarrow> mpmc_queue \<Rightarrow> kernel \<Rightarrow> (bool \<times> mpmc_queue \<times> kernel) kres" where
  "mpmc_push_locked item q k =
     kbind (v_mutex_lock (mq_lock q) V_WAIT_FOREVER k) (\<lambda>(_, k).
       if mq_capacity q = 0 then Inl K_Undef
       else
         let q = mpmc_store item q;
             q = q\<lparr>mq_head := (mq_head q + 1) mod mq_capacity q\<rparr>;
             q = q\<lparr>mq_count := mq_count q + 1\<rparr>
         in kbind (v_mutex_unlock (mq_lock q) k) (\<lambda>(_, k).
            kbind (v_semaphore_give (mq_not_empty q) k) (\<lambda>(_, k).
            kbind (if mq_fd_wake_rd q \<noteq> 0 then v_semaphore_give (mq_fd_wake_rd q) k else Inr (0, k))
              (\<lambda>(_, k). Inr (True, q, k)))))"

definition mpmc_push_timeout ::
    "u8 list \<Rightarrow> nat \<Rightarrow> mpmc_queue \<Rightarrow> kernel \<Rightarrow> (bool \<times> mpmc_queue \<times> kernel) kres" where
  "mpmc_push_timeout item timeout q k =
     (let is_overwrite = (mq_policy q = MPMC_POLICY_OVERWRITE);
          take_timeout = (if is_overwrite then 0 else timeout)
      in kbind (v_semaphore_take (mq_not_full q) take_timeout k) (\<lambda>(r, k).
         if r = VA_PASS then mpmc_push_locked item q k
         else if is_overwrite then
           kbind (v_mutex_lock (mq_lock q) V_WAIT_FOREVER k) (\<lambda>(_, k).
             if mq_capacity q = 0 then
               kbind (v_mutex_unlock (mq_lock q) k) (\<lambda>(_, k). Inr (False, q, k))
             else if mq_count q = mq_capacity q then
               let q = mpmc_store item q;
                   q = q\<lparr>mq_head := (mq_head q + 1) mod mq_capacity q\<rparr>;
                   q = q\<lparr>mq_tail := (mq_tail q + 1) mod mq_capacity q\<rparr>
               in kbind (v_mutex_unlock (mq_lock q) k) (\<lambda>(_, k). Inr (True, q, k))
             else kbind (v_mutex_unlock (mq_lock q) k) (\<lambda>(_, k).
               kbind (v_semaphore_take (mq_not_full q) 0 k) (\<lambda>(r, k).
                 if r = VA_PASS then mpmc_push_locked item q k
                 else kbind (v_semaphore_take (mq_not_full q) 1 k) (\<lambda>(r, k).
                   if r = VA_PASS then mpmc_push_locked item q k else Inr (False, q, k)))))
         else Inr (False, q, k)))"

definition mpmc_pop_timeout ::
    "nat \<Rightarrow> mpmc_queue \<Rightarrow> kernel \<Rightarrow> (u8 list option \<times> mpmc_queue \<times> kernel) kres" where
  "mpmc_pop_timeout timeout q k =
     kbind (v_semaphore_take (mq_not_empty q) timeout k) (\<lambda>(r, k).
       if r \<noteq> VA_PASS then Inr (None, q, k)
       else kbind (v_mutex_lock (mq_lock q) V_WAIT_FOREVER k) (\<lambda>(_, k).
         let item = mpmc_load q;
             next_tail = mq_tail q + 1;
             next_tail = (if next_tail \<ge> mq_capacity q then 0 else next_tail);
             q = q\<lparr>mq_tail := next_tail\<rparr>;
             q = q\<lparr>mq_count := u32_sub (mq_count q) 1\<rparr>
         in kbind (v_mutex_unlock (mq_lock q) k) (\<lambda>(_, k).
            kbind (v_semaphore_give (mq_not_full q) k) (\<lambda>(_, k).
            kbind (if mq_fd_wake_wr q \<noteq> 0 then v_semaphore_give (mq_fd_wake_wr q) k else Inr (0, k))
              (\<lambda>(_, k). Inr (Some item, q, k))))))"

definition mpmc_push :: "u8 list \<Rightarrow> mpmc_queue \<Rightarrow> kernel \<Rightarrow> (bool \<times> mpmc_queue \<times> kernel) kres" where
  "mpmc_push item q k = mpmc_push_timeout item 0xFFFFFFFF q k"

definition mpmc_pop :: "mpmc_queue \<Rightarrow> kernel \<Rightarrow> (u8 list option \<times> mpmc_queue \<times> kernel) kres" where
  "mpmc_pop q k = mpmc_pop_timeout 0xFFFFFFFF q k"

definition mpmc_try_push :: "u8 list \<Rightarrow> mpmc_queue \<Rightarrow> kernel \<Rightarrow> (bool \<times> mpmc_queue \<times> kernel) kres" where
  "mpmc_try_push item q k = mpmc_push_timeout item 0 q k"

definition mpmc_try_pop :: "mpmc_queue \<Rightarrow> kernel \<Rightarrow> (u8 list option \<times> mpmc_queue \<times> kernel) kres" where
  "mpmc_try_pop q k = mpmc_pop_timeout 0 q k"

text \<open>The bulk calls; the items of a push are the list of elements, as are those popped.\<close>

fun mpmc_push_bulk :: "u8 list list \<Rightarrow> mpmc_queue \<Rightarrow> kernel \<Rightarrow> (nat \<times> mpmc_queue \<times> kernel) kres" where
  "mpmc_push_bulk [] q k = Inr (0, q, k)"
| "mpmc_push_bulk (x # xs) q k =
     kbind (mpmc_try_push x q k) (\<lambda>(ok, q, k).
       if \<not> ok then Inr (0, q, k)
       else kbind (mpmc_push_bulk xs q k) (\<lambda>(n, q, k). Inr (n + 1, q, k)))"

fun mpmc_pop_bulk :: "nat \<Rightarrow> mpmc_queue \<Rightarrow> kernel \<Rightarrow> (u8 list list \<times> mpmc_queue \<times> kernel) kres" where
  "mpmc_pop_bulk 0 q k = Inr ([], q, k)"
| "mpmc_pop_bulk (Suc n) q k =
     kbind (mpmc_try_pop q k) (\<lambda>(r, q, k).
       case r of
         None \<Rightarrow> Inr ([], q, k)
       | Some x \<Rightarrow> kbind (mpmc_pop_bulk n q k) (\<lambda>(xs, q, k). Inr (x # xs, q, k)))"

definition mpmc_size :: "mpmc_queue \<Rightarrow> kernel \<Rightarrow> (nat \<times> kernel) kres" where
  "mpmc_size q k =
     kbind (v_mutex_lock (mq_lock q) V_WAIT_FOREVER k) (\<lambda>(_, k).
       let s = mq_count q
       in kbind (v_mutex_unlock (mq_lock q) k) (\<lambda>(_, k). Inr (s, k)))"

definition mpmc_capacity :: "mpmc_queue \<Rightarrow> nat" where
  "mpmc_capacity q = mq_capacity q"

definition mpmc_is_empty :: "mpmc_queue \<Rightarrow> kernel \<Rightarrow> (bool \<times> kernel) kres" where
  "mpmc_is_empty q k = kbind (mpmc_size q k) (\<lambda>(n, k). Inr (n = 0, k))"

definition mpmc_is_full :: "mpmc_queue \<Rightarrow> kernel \<Rightarrow> (bool \<times> kernel) kres" where
  "mpmc_is_full q k = kbind (mpmc_size q k) (\<lambda>(n, k). Inr (n = mq_capacity q, k))"

definition mpmc_peek :: "mpmc_queue \<Rightarrow> kernel \<Rightarrow> (u8 list option \<times> kernel) kres" where
  "mpmc_peek q k =
     kbind (v_mutex_lock (mq_lock q) V_WAIT_FOREVER k) (\<lambda>(_, k).
       if mq_count q = 0 then kbind (v_mutex_unlock (mq_lock q) k) (\<lambda>(_, k). Inr (None, k))
       else
         let item = mpmc_load q
         in kbind (v_mutex_unlock (mq_lock q) k) (\<lambda>(_, k). Inr (Some item, k)))"

text \<open>Taking every unit of a semaphore, and giving \<open>n\<close> of them, in \<open>mpmc_reset\<close>.\<close>

partial_function (option) drain_sem :: "nat \<Rightarrow> kernel \<Rightarrow> kernel kres option" where
  "drain_sem s k =
     (case v_semaphore_take s 0 k of
        Inl e \<Rightarrow> Some (Inl e)
      | Inr (r, k) \<Rightarrow> if r = VA_PASS then drain_sem s k else Some (Inr k))"

declare drain_sem.simps [code]

fun give_times :: "nat \<Rightarrow> nat \<Rightarrow> kernel \<Rightarrow> kernel kres" where
  "give_times 0 s k = Inr k"
| "give_times (Suc n) s k = kbind (v_semaphore_give s k) (\<lambda>(_, k). give_times n s k)"

definition mpmc_reset :: "mpmc_queue \<Rightarrow> kernel \<Rightarrow> (mpmc_queue \<times> kernel) kres" where
  "mpmc_reset q k =
     kbind (v_mutex_lock (mq_lock q) V_WAIT_FOREVER k) (\<lambda>(_, k).
       let q = q\<lparr>mq_head := 0, mq_tail := 0, mq_count := 0\<rparr>
       in kbind (kbind (walk_end (drain_sem (mq_not_empty q) k)) id) (\<lambda>k.
          kbind (kbind (walk_end (drain_sem (mq_not_full q) k)) id) (\<lambda>k.
          kbind (give_times (mq_capacity q) (mq_not_full q) k) (\<lambda>k.
          kbind (v_mutex_unlock (mq_lock q) k) (\<lambda>(_, k). Inr (q, k))))))"

section \<open>What the synchronisation calls leave alone\<close>

lemma task_change_priority_semas: "semas (task_change_priority t p k) = semas k"
  by (simp add: task_change_priority_def Let_def add_to_ready_list_def remove_from_ready_list_def)

lemma pi_boost_semas: "pi_boost d c m k = Inr k' \<Longrightarrow> semas k' = semas k"
proof (induction d c m k rule: pi_boost.induct)
  case (1 depth c m k)
  let ?x = "owner k m"
  let ?k1 = "task_change_priority ?x (prio k c) k"
  let ?go = "m \<noteq> 0 \<and> ?x \<noteq> 0 \<and> prio k ?x < prio k c"
  have e: "pi_boost depth c m k = (if ?go then if depth + 1 > 4 then Inl K_Panic
      else if status ?k1 ?x \<noteq> TASK_BLOCKED \<or> t_wait_mutex (tcbs ?k1 ?x) = 0 then Inr ?k1
      else pi_boost (depth + 1) c (t_wait_mutex (tcbs ?k1 ?x)) ?k1 else Inr k)"
    by (subst pi_boost.simps) (simp add: Let_def)
  show ?case
  proof (cases "?go \<and> \<not> depth + 1 > 4 \<and> \<not> (status ?k1 ?x \<noteq> TASK_BLOCKED \<or> t_wait_mutex (tcbs ?k1 ?x) = 0)")
    case True
    then have "pi_boost (depth + 1) c (t_wait_mutex (tcbs ?k1 ?x)) ?k1 = Inr k'" using "1.prems" e by metis
    then have "semas k' = semas ?k1" using "1.IH" [OF _ _ refl refl] True by blast
    then show ?thesis by (simp add: task_change_priority_semas)
  next
    case False
    then show ?thesis
      using "1.prems" unfolding e by (auto simp: task_change_priority_semas split: if_splits)
  qed
qed

lemma remove_from_blocked_semas: "semas (remove_from_blocked_list t k) = semas k"
  by (simp add: remove_from_blocked_list_def remove_task_def Let_def)

lemma mutex_handoff_semas: "s \<noteq> m \<Longrightarrow> semas (mutex_handoff m k) s = semas k s"
  by (simp add: mutex_handoff_def wait_q_dequeue_def Let_def remove_from_blocked_semas add_to_ready_list_def)

lemma mutex_lock_semas:
  assumes "mutex_lock_common m n k = Inr (VA_PASS, k')" "s \<noteq> m"
  shows "semas k' s = semas k s"
proof (cases "current_task k = 0")
  case True
  then show ?thesis using assms by (simp add: mutex_lock_common_def)
next
  case False
  let ?c = "current_task k"
  obtain k1 where b: "pi_boost 0 ?c m k = Inr k1"
    using assms False by (auto simp: mutex_lock_common_def kbind_Inr Let_def)
  let ?k2 = "upd_tcb ?c (\<lambda>t. t\<lparr>t_wait_mutex := m\<rparr>) k1"
  have p: "s_count (semas k1 m) > 0"
    using assms False b
    by (auto simp: mutex_lock_common_def semaphore_take_common_def kbind_Inr Let_def split: if_splits)
  then show ?thesis
    using assms False b pi_boost_semas [OF b]
    by (auto simp: mutex_lock_common_def semaphore_take_common_def Let_def split: if_splits)
qed

lemma mutex_unlock_semas:
  assumes "mutex_unlock_common m k = Inr (VA_PASS, k')" "s \<noteq> m"
  shows "semas k' s = semas k s"
proof -
  have u: "semas k1 = semas k" if "unlink_held c m k = Inr k1" for c k1
    using that by (auto simp: unlink_held_def kbind_Inr Let_def split: if_splits)
  show ?thesis
    using assms u by (fastforce simp: mutex_unlock_common_def kbind_Inr Let_def mutex_handoff_semas
        task_change_priority_semas split: if_splits)
qed

section \<open>An uncontended queue\<close>

text \<open>
  \<open>quiet k m\<close>: the running task can lock and unlock mutex \<open>m\<close> without waiting.
\<close>

definition quiet :: "kernel \<Rightarrow> nat \<Rightarrow> bool" where
  "quiet k m \<longleftrightarrow> (\<exists>R B D ms. sched_inv k R B D \<and> held_ok k (current_task k) ms) \<and> m \<noteq> 0 \<and>
     current_task k \<noteq> 0 \<and> status k (current_task k) = TASK_RUNNING \<and> owner k m = 0 \<and>
     s_wait_q (semas k m) = 0 \<and> s_tail (semas k m) = 0 \<and> s_count (semas k m) = 1 \<and> s_limit (semas k m) = 1 \<and>
     (\<forall>x. prio k x \<le> 7) \<and> t_base_priority (tcbs k (current_task k)) \<le> 7"

text \<open>\<open>locked k m\<close>: it owns \<open>m\<close>, locked last, and nobody waits for it.\<close>

definition locked :: "kernel \<Rightarrow> nat \<Rightarrow> bool" where
  "locked k m \<longleftrightarrow> (\<exists>R B D ms. sched_inv k R B D \<and> held_ok k (current_task k) (m # ms)) \<and> m \<noteq> 0 \<and>
     current_task k \<noteq> 0 \<and> status k (current_task k) = TASK_RUNNING \<and> owner k m = current_task k \<and>
     s_wait_q (semas k m) = 0 \<and> s_tail (semas k m) = 0 \<and> s_count (semas k m) = 0 \<and> s_limit (semas k m) = 1 \<and>
     (\<forall>x. prio k x \<le> 7) \<and> t_base_priority (tcbs k (current_task k)) \<le> 7"

lemma quiet_sem: "quiet k m \<Longrightarrow> sem_ok k m B (asem_of 1 [])"
  by (simp add: quiet_def sem_ok_def wait_ok_def asem_of_def)

lemma locked_sem: "locked k m \<Longrightarrow> sem_ok k m B (asem_of 0 [])"
  by (simp add: locked_def sem_ok_def wait_ok_def asem_of_def)

lemma lock_quiet:
  assumes q: "quiet k m"
  shows "\<exists>k1. v_mutex_lock m n k = Inr (VA_PASS, k1) \<and> locked k1 m \<and> (\<forall>s. s \<noteq> m \<longrightarrow> semas k1 s = semas k s)"
proof -
  let ?c = "current_task k" and ?a = "asem_of 1 []"
  obtain R B D ms where I: "sched_inv k R B D" "held_ok k ?c ms" using q by (auto simp: quiet_def)
  have c: "?c \<noteq> 0" "status k ?c = TASK_RUNNING" "owner k m = 0" "m \<noteq> 0" "\<forall>x. prio k x \<le> 7"
    "t_base_priority (tcbs k ?c) \<le> 7"
    using q by (auto simp: quiet_def)
  have a: "as_count ?a = 1" "as_wait ?a = []" by (simp_all add: asem_of_def)
  obtain k1 where l: "mutex_lock_common m n k = Inr (VA_PASS, k1)" "sched_inv k1 R B D" "owner k1 m = ?c"
    "held_ok k1 ?c (m # ms)" "sem_ok k1 m B (?a\<lparr>as_count := 0\<rparr>)" "current_task k1 = ?c"
    "status k1 ?c = status k ?c" "\<forall>x. prio k1 x = prio k x"
    "t_base_priority (tcbs k1 ?c) = t_base_priority (tcbs k ?c)"
    using mutex_lock_free [OF I(1) refl c(1,3) quiet_sem [OF q] a I(2) c(4)] by blast
  have "s_wait_q (semas k1 m) = 0 \<and> s_tail (semas k1 m) = 0 \<and> s_count (semas k1 m) = 0 \<and> s_limit (semas k1 m) = 1"
    using l(5) by (simp add: sem_ok_def wait_ok_def asem_of_def)
  then have "locked k1 m" using l(2-4,6-9) c unfolding locked_def by auto
  moreover have "semas k1 s = semas k s" if "s \<noteq> m" for s using mutex_lock_semas [OF l(1) that] .
  ultimately show ?thesis using l(1) c(4) by (simp add: v_mutex_lock_def)
qed

lemma unlock_locked:
  assumes q: "locked k m"
  shows "\<exists>k2. v_mutex_unlock m k = Inr (VA_PASS, k2) \<and> quiet k2 m \<and> (\<forall>s. s \<noteq> m \<longrightarrow> semas k2 s = semas k s)"
proof -
  let ?c = "current_task k" and ?a = "asem_of 0 []"
  obtain R B D ms where I: "sched_inv k R B D" "held_ok k ?c ([] @ m # ms)" using q by (auto simp: locked_def)
  have c: "?c \<noteq> 0" "status k ?c = TASK_RUNNING" "owner k m = ?c" "m \<noteq> 0" and p: "\<forall>x. prio k x \<le> 7"
    "t_base_priority (tcbs k ?c) \<le> 7"
    using q by (auto simp: locked_def)
  obtain k2 where u: "mutex_unlock_common m k = Inr (VA_PASS, mutex_handoff m k2)" "sched_inv k2 R B D"
    "held_ok k2 ?c ([] @ ms)" "prio k2 ?c = inherited_prio k (t_base_priority (tcbs k ?c)) ([] @ ms)"
    "\<forall>x. x \<noteq> ?c \<longrightarrow> tcbs k2 x = tcbs k x" "sem_ok k2 m B ?a"
    "current_task k2 = ?c" "status k2 ?c = TASK_RUNNING" "t_base_priority (tcbs k2 ?c) = t_base_priority (tcbs k ?c)"
    using mutex_unlock_prepare [OF I(1) refl c(1-3) I(2) locked_sem [OF q] p] by blast
  have z: "as_wait ?a = []" "as_count ?a = 0" "as_limit ?a = 1"
    by (simp_all add: asem_of_def)
  note f = mutex_handoff_free [OF u(6) z]
  let ?k3 = "mutex_handoff m k2"
  have "m \<notin> set ms" using I(2) by (simp add: held_ok_def)
  then have h3: "held_ok ?k3 ?c ms"
    by (intro held_ok_frame [OF u(3) [simplified]]) (auto simp: f(5) intro: f(7))
  have "inherited_prio k (t_base_priority (tcbs k ?c)) ([] @ ms) \<le> 7"
    using p by (intro inherited_prio_le) (simp_all add: mutex_top_waiter_prio_def Let_def)
  then have p3: "prio ?k3 x \<le> 7" for x using u(4,5) p(1) f(5) by (cases "x = ?c") auto
  have s3: "sem_ok ?k3 m B (asem_of 1 [])" using f(1) by (simp add: asem_of_def)
  then have "s_wait_q (semas ?k3 m) = 0 \<and> s_tail (semas ?k3 m) = 0 \<and> s_count (semas ?k3 m) = 1 \<and>
      s_limit (semas ?k3 m) = 1"
    by (simp add: sem_ok_def wait_ok_def asem_of_def)
  then have "quiet ?k3 m"
    using f(2) [OF u(2)] h3 p3 c f(3,5,8) u(7-9) p(2) unfolding quiet_def by auto
  moreover have "semas ?k3 s = semas k s" if "s \<noteq> m" for s
    using mutex_unlock_semas [OF u(1) that] .
  ultimately show ?thesis
    using u(1) c(4) by (intro exI [of _ ?k3]) (simp add: v_mutex_unlock_def)
qed

lemma lock_unlock_quiet:
  assumes "quiet k m"
  shows "\<exists>k1 k2. v_mutex_lock m n k = Inr (VA_PASS, k1) \<and> v_mutex_unlock m k1 = Inr (VA_PASS, k2) \<and>
    quiet k2 m \<and> (\<forall>s. s \<noteq> m \<longrightarrow> semas k2 s = semas k s)"
  using lock_quiet [OF assms, of n] unlock_locked by metis

text \<open>Both survive the accounting and updates of other semaphores.\<close>

definition ipc_frame :: "(kernel \<Rightarrow> nat \<Rightarrow> bool) \<Rightarrow> nat \<Rightarrow> bool" where
  "ipc_frame P m \<longleftrightarrow> (\<forall>k. P k m \<longrightarrow> P (v_perf_on_ipc_take_attempt k) m \<and> P (v_perf_on_ipc_give k) m \<and>
     (\<forall>s f. s \<noteq> m \<longrightarrow> P (upd_sema s f k) m))"

lemma ipc_frame_lock: "ipc_frame quiet m" "ipc_frame locked m"
proof -
  have h: "held_ok (upd_sema s f k) t ms = held_ok k t ms"
    "held_ok (v_perf_on_ipc_take_attempt k) t ms = held_ok k t ms"
    "held_ok (v_perf_on_ipc_give k) t ms = held_ok k t ms" for s f k t ms
    by (simp_all add: held_ok_def)
  have si: "sched_inv k R B D \<Longrightarrow> sched_inv (upd_sema s f k) R B D"
    "sched_inv k R B D \<Longrightarrow> sched_inv (v_perf_on_ipc_take_attempt k) R B D"
    "sched_inv k R B D \<Longrightarrow> sched_inv (v_perf_on_ipc_give k) R B D" for k R B D s f
    by (intro sched_inv_perf(5) sched_inv_perf(1,3); assumption)+
  show "ipc_frame quiet m" "ipc_frame locked m"
    unfolding ipc_frame_def quiet_def locked_def h using si by (simp_all, metis+)
qed

lemmas ipc_frameD = ipc_frame_def [THEN iffD1, rule_format]

section \<open>The elements of a queue\<close>

definition mpmc_slots :: "mpmc_queue \<Rightarrow> u8 list list" where
  "mpmc_slots q = map (\<lambda>i. bytes_at (mq_store q) (i * mq_elem_size q) (mq_elem_size q)) [0..<mq_capacity q]"

definition idle_sem :: "kernel \<Rightarrow> nat \<Rightarrow> nat \<Rightarrow> nat \<Rightarrow> bool" where
  "idle_sem k s n c \<longleftrightarrow> s \<noteq> 0 \<and> s_wait_q (semas k s) = 0 \<and> s_tail (semas k s) = 0 \<and>
     s_observers (semas k s) = None \<and> s_count (semas k s) = int n \<and> s_limit (semas k s) = int c"

definition mpmc_wf :: "mpmc_queue \<Rightarrow> bool" where
  "mpmc_wf q \<longleftrightarrow> 0 < mq_capacity q \<and> mq_capacity q < 2 ^ 31 \<and>
     mq_capacity q * mq_elem_size q \<le> length (mq_store q) \<and> mq_tail q < mq_capacity q \<and>
     mq_count q \<le> mq_capacity q \<and> mq_head q = (mq_tail q + mq_count q) mod mq_capacity q"

definition mpmc_contents :: "mpmc_queue \<Rightarrow> u8 list list" where
  "mpmc_contents q = ring_view (mpmc_slots q) (mq_tail q) (mq_count q)"

text \<open>The semaphores of the descriptor layer, if the queue is registered there: nobody sleeps on them.\<close>

definition wakes_ok :: "mpmc_queue \<Rightarrow> kernel \<Rightarrow> bool" where
  "wakes_ok q k \<longleftrightarrow> (\<forall>w \<in> {mq_fd_wake_rd q, mq_fd_wake_wr q}. w \<noteq> 0 \<longrightarrow>
     w \<notin> {mq_lock q, mq_not_empty q, mq_not_full q} \<and> (\<exists>n c. n \<le> c \<and> c < 2 ^ 31 \<and> idle_sem k w n c))"

definition mpmc_idle :: "mpmc_queue \<Rightarrow> kernel \<Rightarrow> bool" where
  "mpmc_idle q k \<longleftrightarrow> mpmc_wf q \<and> quiet k (mq_lock q) \<and> wakes_ok q k \<and>
     distinct [mq_lock q, mq_not_empty q, mq_not_full q] \<and>
     idle_sem k (mq_not_empty q) (mq_count q) (mq_capacity q) \<and>
     idle_sem k (mq_not_full q) (mq_capacity q - mq_count q) (mq_capacity q)"

lemma length_mpmc_slots [simp]: "length (mpmc_slots q) = mq_capacity q"
  by (simp add: mpmc_slots_def)

lemma length_mpmc_contents: "mpmc_wf q \<Longrightarrow> length (mpmc_contents q) = mq_count q"
  by (simp add: mpmc_wf_def mpmc_contents_def)

lemma bytes_at_memcpy:
  assumes "a + length d \<le> length b" "c + n \<le> length b" "c + n \<le> a \<or> a + length d \<le> c"
  shows "bytes_at (memcpy_into b a d) c n = bytes_at b c n"
  using assms by (intro nth_equalityI) (auto simp: nth_memcpy_into)

lemma bytes_at_memcpy_same:
  "a + length d \<le> length b \<Longrightarrow> bytes_at (memcpy_into b a d) a (length d) = d"
  by (simp add: bytes_at_def memcpy_into_def)

lemma slot_fits: "i < (c :: nat) \<Longrightarrow> c * e \<le> n \<Longrightarrow> i * e + e \<le> n"
  using mult_le_mono1 [of "Suc i" c e] by simp

lemma slots_store:
  assumes q: "mpmc_wf q" and n: "length item = mq_elem_size q"
  shows "mpmc_slots (mpmc_store item q) = (mpmc_slots q)[mq_head q := item]"
proof (rule nth_equalityI)
  let ?e = "mq_elem_size q" and ?c = "mq_capacity q" and ?h = "mq_head q"
  have h: "?h < ?c" "?c * ?e \<le> length (mq_store q)" using q by (auto simp: mpmc_wf_def)
  fix i assume "i < length (mpmc_slots (mpmc_store item q))"
  then have i: "i < ?c" by (simp add: mpmc_store_def)
  note fi = slot_fits [OF i h(2)] and fh = slot_fits [OF h]
  have "bytes_at (memcpy_into (mq_store q) (?h * ?e) item) (i * ?e) ?e =
      (if i = ?h then item else bytes_at (mq_store q) (i * ?e) ?e)"
  proof (cases "i = ?h")
    case False
    then have "i * ?e + ?e \<le> ?h * ?e \<or> ?h * ?e + length item \<le> i * ?e"
      using slot_fits [of i ?h ?e "?h * ?e"] slot_fits [of ?h i ?e "i * ?e"] n by (cases "i < ?h") auto
    then show ?thesis using False bytes_at_memcpy [of "?h * ?e" item "mq_store q" "i * ?e" ?e] fi fh n by auto
  qed (use fh n bytes_at_memcpy_same [of "?h * ?e" item "mq_store q"] in simp)
  then show "mpmc_slots (mpmc_store item q) ! i = ((mpmc_slots q)[?h := item]) ! i"
    using i n by (auto simp: mpmc_slots_def mpmc_store_def nth_list_update)
qed (simp add: mpmc_store_def)

definition pushed :: "u8 list \<Rightarrow> mpmc_queue \<Rightarrow> mpmc_queue" where
  "pushed x q = (mpmc_store x q)\<lparr>mq_head := (mq_head q + 1) mod mq_capacity q, mq_count := mq_count q + 1\<rparr>"

definition popped :: "mpmc_queue \<Rightarrow> mpmc_queue" where
  "popped q = q\<lparr>mq_tail := (mq_tail q + 1) mod mq_capacity q, mq_count := mq_count q - 1\<rparr>"

lemma pushed_contents:
  assumes q: "mpmc_wf q" and n: "length x = mq_elem_size q" and c: "mq_count q < mq_capacity q"
  shows "mpmc_wf (pushed x q)" "mpmc_contents (pushed x q) = mpmc_contents q @ [x]"
proof -
  have w: "mq_tail q < mq_capacity q" "mq_head q = (mq_tail q + mq_count q) mod mq_capacity q"
    "mq_head q < mq_capacity q" "mq_capacity q * mq_elem_size q \<le> length (mq_store q)"
    using q by (auto simp: mpmc_wf_def)
  have "length (mq_store (mpmc_store x q)) = length (mq_store q)"
    using slot_fits [OF w(3,4)] n by (simp add: mpmc_store_def)
  then show "mpmc_wf (pushed x q)"
    using q c by (auto simp: mpmc_wf_def pushed_def mpmc_store_def mod_Suc_eq)
  have s: "mpmc_slots (pushed x q) = (mpmc_slots q)[mq_head q := x]"
    using slots_store [OF q n] by (simp add: pushed_def mpmc_slots_def)
  have r: "ring_view (ring_write (mpmc_slots q) ((mq_tail q + mq_count q) mod mq_capacity q) [x])
      (mq_tail q) (mq_count q + 1) = ring_view (mpmc_slots q) (mq_tail q) (mq_count q) @ [x]"
    using ring_view_write [of "mq_tail q" "mpmc_slots q" "mq_count q" "[x]"] w(1) c by simp
  show "mpmc_contents (pushed x q) = mpmc_contents q @ [x]"
    unfolding mpmc_contents_def s using r w ring_write_one [of "mq_head q" "mpmc_slots q" x]
    by (simp add: pushed_def mpmc_store_def)
qed

lemma popped_contents:
  assumes q: "mpmc_wf q" and c: "0 < mq_count q"
  shows "mpmc_wf (popped q)" "mpmc_contents q = mpmc_load q # mpmc_contents (popped q)"
proof -
  have w: "mq_tail q < mq_capacity q" "mq_count q \<le> mq_capacity q"
    "mq_capacity q * mq_elem_size q \<le> length (mq_store q)"
    using q by (auto simp: mpmc_wf_def)
  show "mpmc_wf (popped q)"
    using q c mod_add_left_eq [of "mq_tail q + 1" "mq_capacity q" "mq_count q - 1"]
    by (auto simp: mpmc_wf_def popped_def)
  have "mpmc_slots q ! mq_tail q = mpmc_load q" using w by (simp add: mpmc_slots_def mpmc_load_def)
  then show "mpmc_contents q = mpmc_load q # mpmc_contents (popped q)"
    using ring_view_Cons [of "mq_tail q" "mpmc_slots q" "mq_count q"] w c
    by (simp add: mpmc_contents_def popped_def mpmc_slots_def)
qed


section \<open>One push, one pop\<close>

lemma idle_sem_ok: "idle_sem k s n c \<Longrightarrow> n \<le> c \<Longrightarrow> c < 2 ^ 31 \<Longrightarrow> s_wait_q (semas k s) = 0 \<and>
    sem_ok k s B \<lparr>as_count = int n, as_limit = int c, as_wait = []\<rparr>"
  by (simp add: idle_sem_def sem_ok_def wait_ok_def)

lemma idle_sem_take:
  assumes "idle_sem k s n c" "0 < n" "n \<le> c" "c < 2 ^ 31" "P k m" "s \<noteq> m" "ipc_frame P m"
  shows "\<exists>k'. v_semaphore_take s w k = Inr (VA_PASS, k') \<and> idle_sem k' s (n - 1) c \<and> P k' m \<and>
    (\<forall>x. x \<noteq> s \<longrightarrow> semas k' x = semas k x)"
proof -
  let ?k = "upd_sema s (\<lambda>x. x\<lparr>s_count := atomic_dec (s_count x)\<rparr>) (v_perf_on_ipc_take_attempt k)"
  have "v_semaphore_take s w k = Inr (VA_PASS, ?k)"
    using assms by (simp add: v_semaphore_take_def semaphore_take_common_def idle_sem_def Let_def)
  moreover have "atomic_dec (int n) = int (n - 1)"
    using assms by (simp add: atomic_dec_def s32_id of_nat_diff)
  then have "idle_sem ?k s (n - 1) c" using assms(1) by (simp add: idle_sem_def)
  moreover have "P ?k m" using ipc_frameD [OF assms(7)] assms by blast
  ultimately show ?thesis by (intro exI [of _ ?k]) simp
qed

lemma idle_sem_refuse:
  assumes "idle_sem k s 0 c" "P k m" "ipc_frame P m"
  shows "\<exists>k'. v_semaphore_take s 0 k = Inr (VA_FAIL, k') \<and> semas k' = semas k \<and> P k' m"
  using assms ipc_frameD [OF assms(3,2)]
  by (auto simp: v_semaphore_take_def semaphore_take_common_def idle_sem_def Let_def)

lemma idle_sem_give:
  assumes "idle_sem k s n c" "n < c" "c < 2 ^ 31" "P k m" "s \<noteq> m" "ipc_frame P m"
  shows "\<exists>k'. v_semaphore_give s k = Inr (VA_PASS, k') \<and> idle_sem k' s (n + 1) c \<and> P k' m \<and>
    (\<forall>x. x \<noteq> s \<longrightarrow> semas k' x = semas k x)"
proof -
  let ?k = "upd_sema s (\<lambda>x. x\<lparr>s_count := atomic_inc (s_count x)\<rparr>) (v_perf_on_ipc_give k)"
  have q: "wait_q_dequeue s (v_perf_on_ipc_give k) = (0, v_perf_on_ipc_give k)"
    using assms by (simp add: wait_q_dequeue_def idle_sem_def)
  have w: "wake_observers None k' = Some k'" for k' by (subst wake_observers.simps) simp
  have "v_semaphore_give s k = Inr (VA_PASS, ?k)"
    using assms q w by (simp add: v_semaphore_give_def semaphore_give_common_def idle_sem_def Let_def
        mwait_wake_observers_def)
  moreover have "atomic_inc (int n) = int (n + 1)"
    using assms by (simp add: atomic_inc_def s32_id)
  then have "idle_sem ?k s (n + 1) c" using assms(1) by (simp add: idle_sem_def)
  moreover have "P ?k m" using ipc_frameD [OF assms(6)] assms by blast
  ultimately show ?thesis by (intro exI [of _ ?k]) simp
qed

lemma idle_sem_cong: "idle_sem k s n c \<Longrightarrow> semas k' s = semas k s \<Longrightarrow> idle_sem k' s n c"
  by (simp add: idle_sem_def)

lemma wakes_ok_cong:
  "wakes_ok q k \<Longrightarrow> \<forall>s. s \<notin> {mq_lock q, mq_not_empty q, mq_not_full q} \<longrightarrow> semas k' s = semas k s \<Longrightarrow> wakes_ok q k'"
  unfolding wakes_ok_def by (metis idle_sem_cong)

lemma wakes_ok_fields:
  "mq_fd_wake_rd q' = mq_fd_wake_rd q \<Longrightarrow> mq_fd_wake_wr q' = mq_fd_wake_wr q \<Longrightarrow> mq_lock q' = mq_lock q \<Longrightarrow>
   mq_not_empty q' = mq_not_empty q \<Longrightarrow> mq_not_full q' = mq_not_full q \<Longrightarrow> wakes_ok q' k = wakes_ok q k"
  by (simp add: wakes_ok_def)

lemma idle_sem_give_full:
  assumes "idle_sem k s c c" "P k m" "ipc_frame P m"
  shows "\<exists>k'. v_semaphore_give s k = Inr (VA_FAIL, k') \<and> semas k' = semas k \<and> P k' m"
proof -
  have "wait_q_dequeue s (v_perf_on_ipc_give k) = (0, v_perf_on_ipc_give k)"
    using assms by (simp add: wait_q_dequeue_def idle_sem_def)
  then show ?thesis
    using assms ipc_frameD [OF assms(3,2)]
    by (auto simp: v_semaphore_give_def semaphore_give_common_def idle_sem_def Let_def)
qed

text \<open>Telling a sleeper of the descriptor layer, when there is one to tell.\<close>

lemma wake_give:
  assumes w: "wakes_ok q k" "w \<in> {mq_fd_wake_rd q, mq_fd_wake_wr q}" and k: "quiet k (mq_lock q)"
  shows "\<exists>r k'. (if w \<noteq> 0 then v_semaphore_give w k else Inr (0, k)) = Inr (r, k') \<and> wakes_ok q k' \<and>
    quiet k' (mq_lock q) \<and> (\<forall>s \<in> {mq_lock q, mq_not_empty q, mq_not_full q}. semas k' s = semas k s)"
proof (cases "w = 0")
  case False
  then obtain n c where n: "n \<le> c" "c < 2 ^ 31" "idle_sem k w n c" and d: "w \<notin> {mq_lock q, mq_not_empty q, mq_not_full q}"
    using w unfolding wakes_ok_def by blast
  have "\<exists>r k' n'. v_semaphore_give w k = Inr (r, k') \<and> n' \<le> c \<and> idle_sem k' w n' c \<and> quiet k' (mq_lock q) \<and>
      (\<forall>x. x \<noteq> w \<longrightarrow> semas k' x = semas k x)"
  proof (cases "n = c")
    case True
    then obtain k' where "v_semaphore_give w k = Inr (VA_FAIL, k')" "semas k' = semas k" "quiet k' (mq_lock q)"
      using idle_sem_give_full [OF _ k ipc_frame_lock(1), of w c] n(3) by blast
    moreover then have "idle_sem k' w n c" using idle_sem_cong [OF n(3)] by simp
    ultimately show ?thesis using n(1) by (intro exI [of _ VA_FAIL] exI [of _ k'] exI [of _ n]) simp
  next
    case ne: False
    then have "n < c" using n(1) by simp
    then show ?thesis using idle_sem_give [OF n(3) _ n(2) k _ ipc_frame_lock(1)] d by (metis Suc_eq_plus1 Suc_leI insertCI)
  qed
  then obtain r k' n' where g: "v_semaphore_give w k = Inr (r, k')" "n' \<le> c" "idle_sem k' w n' c" "quiet k' (mq_lock q)"
    "\<forall>x. x \<noteq> w \<longrightarrow> semas k' x = semas k x" by blast
  have "wakes_ok q k'"
    unfolding wakes_ok_def
  proof (intro ballI impI)
    fix v assume v: "v \<in> {mq_fd_wake_rd q, mq_fd_wake_wr q}" "v \<noteq> 0"
    show "v \<notin> {mq_lock q, mq_not_empty q, mq_not_full q} \<and> (\<exists>n c. n \<le> c \<and> c < 2 ^ 31 \<and> idle_sem k' v n c)"
    proof (cases "v = w")
      case True
      then show ?thesis using d n(2) g(2,3) by blast
    next
      case False
      then show ?thesis using w(1) v g(5) unfolding wakes_ok_def by (metis idle_sem_cong)
    qed
  qed
  then show ?thesis using False g d by auto
qed (use w k in simp)

lemma mpmc_push_room:
  assumes I: "mpmc_idle q k" and n: "length x = mq_elem_size q" and r: "mq_count q < mq_capacity q"
  shows "\<exists>k'. mpmc_push_timeout x t q k = Inr (True, pushed x q, k') \<and> mpmc_idle (pushed x q) k'"
proof -
  let ?l = "mq_lock q" and ?e = "mq_not_empty q" and ?f = "mq_not_full q" and ?c = "mq_capacity q"
    and ?n = "mq_count q"
  have w: "mpmc_wf q" "quiet k ?l" "?l \<noteq> ?e" "?e \<noteq> ?l" "?l \<noteq> ?f" "?f \<noteq> ?l" "?e \<noteq> ?f" "?f \<noteq> ?e" "?c < 2 ^ 31"
    "idle_sem k ?e ?n ?c" "idle_sem k ?f (?c - ?n) ?c" "wakes_ok q k"
    using I by (auto simp: mpmc_idle_def mpmc_wf_def)
  obtain k1 where t: "v_semaphore_take ?f (if mq_policy q = MPMC_POLICY_OVERWRITE then 0 else t) k = Inr (VA_PASS, k1)"
    "idle_sem k1 ?f (?c - ?n - 1) ?c" "quiet k1 ?l" "\<forall>s. s \<noteq> ?f \<longrightarrow> semas k1 s = semas k s"
    using idle_sem_take [OF w(11) _ _ w(9,2,6) ipc_frame_lock(1)] r by auto
  obtain k2 k3 where l: "v_mutex_lock ?l V_WAIT_FOREVER k1 = Inr (VA_PASS, k2)"
    "v_mutex_unlock ?l k2 = Inr (VA_PASS, k3)" "quiet k3 ?l" "\<forall>s. s \<noteq> ?l \<longrightarrow> semas k3 s = semas k1 s"
    using lock_unlock_quiet [OF t(3)] by metis
  have e3: "idle_sem k3 ?e ?n ?c" using idle_sem_cong [OF w(10), of k3] t(4) l(4) w by simp
  obtain k4 where g: "v_semaphore_give ?e k3 = Inr (VA_PASS, k4)" "idle_sem k4 ?e (?n + 1) ?c" "quiet k4 ?l"
    "\<forall>s. s \<noteq> ?e \<longrightarrow> semas k4 s = semas k3 s"
    using idle_sem_give [OF e3 r w(9) l(3) w(4) ipc_frame_lock(1)] by blast
  have f4: "idle_sem k4 ?f (?c - ?n - 1) ?c" using idle_sem_cong [OF t(2), of k4] g(4) l(4) w by simp
  have "wakes_ok q k4" by (rule wakes_ok_cong [OF w(12)]) (use t(4) l(4) g(4) in auto)
  from wake_give [OF this _ g(3), of "mq_fd_wake_rd q"] obtain r5 k5 where
    h: "(if mq_fd_wake_rd q \<noteq> 0 then v_semaphore_give (mq_fd_wake_rd q) k4 else Inr (0, k4)) = Inr (r5, k5)"
    "wakes_ok q k5" "quiet k5 ?l" "\<forall>s \<in> {?l, ?e, ?f}. semas k5 s = semas k4 s" by auto
  have "mpmc_push_timeout x t q k = Inr (True, pushed x q, k5)"
    using t(1) l(1,2) g(1) r h(1)
    by (auto simp: mpmc_push_timeout_def mpmc_push_locked_def Let_def pushed_def mpmc_store_def split: if_splits)
  moreover have "idle_sem k5 ?e (?n + 1) ?c" "idle_sem k5 ?f (?c - ?n - 1) ?c"
    using h(4) idle_sem_cong [OF g(2), of k5] idle_sem_cong [OF f4, of k5] by simp_all
  then have "mpmc_idle (pushed x q) k5"
    using pushed_contents(1) [OF w(1) n r] h(2,3) w wakes_ok_fields [of "pushed x q" q k5]
    by (simp add: mpmc_idle_def pushed_def mpmc_store_def)
  ultimately show ?thesis by blast
qed

lemma mpmc_push_full:
  assumes I: "mpmc_idle q k" and r: "mq_count q = mq_capacity q" and p: "mq_policy q = MPMC_POLICY_DROP"
  shows "\<exists>k'. mpmc_try_push x q k = Inr (False, q, k') \<and> mpmc_idle q k'"
proof -
  have "idle_sem k (mq_not_full q) 0 (mq_capacity q)" "quiet k (mq_lock q)" using I r by (auto simp: mpmc_idle_def)
  from idle_sem_refuse [OF this ipc_frame_lock(1)] obtain k' where "v_semaphore_take (mq_not_full q) 0 k = Inr (VA_FAIL, k')"
    "semas k' = semas k" "quiet k' (mq_lock q)" by blast
  then show ?thesis
    using I p by (auto simp: mpmc_try_push_def mpmc_push_timeout_def Let_def mpmc_idle_def idle_sem_def wakes_ok_def)
qed

text \<open>A push onto a full queue that overwrites: the oldest element makes room for the new one.\<close>

lemma mpmc_push_overwrite:
  assumes I: "mpmc_idle q k" and n: "length x = mq_elem_size q" and r: "mq_count q = mq_capacity q"
    and p: "mq_policy q = MPMC_POLICY_OVERWRITE"
  shows "\<exists>k'. mpmc_push_timeout x t q k = Inr (True, pushed x (popped q), k') \<and> mpmc_idle (pushed x (popped q)) k'"
proof -
  let ?l = "mq_lock q" and ?f = "mq_not_full q"
  have w: "mpmc_wf q" "0 < mq_capacity q" "idle_sem k ?f 0 (mq_capacity q)" "quiet k ?l" "wakes_ok q k"
    using I r by (auto simp: mpmc_idle_def mpmc_wf_def)
  obtain k1 where t: "v_semaphore_take ?f 0 k = Inr (VA_FAIL, k1)" "semas k1 = semas k" "quiet k1 ?l"
    using idle_sem_refuse [OF w(3,4) ipc_frame_lock(1)] by blast
  obtain k2 k3 where l: "v_mutex_lock ?l V_WAIT_FOREVER k1 = Inr (VA_PASS, k2)"
    "v_mutex_unlock ?l k2 = Inr (VA_PASS, k3)" "quiet k3 ?l" "\<forall>s. s \<noteq> ?l \<longrightarrow> semas k3 s = semas k1 s"
    using lock_unlock_quiet [OF t(3)] by metis
  let ?q = "pushed x (popped q)"
  have e: "mpmc_push_timeout x t q k = Inr (True, ?q, k3)"
    using t(1) l(1,2) r p w(2)
    by (simp add: mpmc_push_timeout_def Let_def pushed_def popped_def mpmc_store_def)
  have c: "0 < mq_count q" using r w(2) by simp
  have "mpmc_wf ?q"
    using pushed_contents(1) [OF popped_contents(1) [OF w(1) c], of x] n r w(2) by (simp add: popped_def)
  moreover have "wakes_ok ?q k3"
    using wakes_ok_cong [OF w(5), of k3] t(2) l(4) wakes_ok_fields [of ?q q k3] by (simp add: pushed_def popped_def mpmc_store_def)
  moreover have "idle_sem k3 s m c = idle_sem k s m c" if "s \<noteq> ?l" for s m c
    using t(2) l(4) that by (simp add: idle_sem_def)
  ultimately have "mpmc_idle ?q k3"
    using I l(3) c r by (auto simp: mpmc_idle_def pushed_def popped_def mpmc_store_def)
  then show ?thesis using e by blast
qed

lemma mpmc_pop_some:
  assumes I: "mpmc_idle q k" and r: "0 < mq_count q"
  shows "\<exists>k'. mpmc_pop_timeout t q k = Inr (Some (mpmc_load q), popped q, k') \<and> mpmc_idle (popped q) k'"
proof -
  let ?l = "mq_lock q" and ?e = "mq_not_empty q" and ?f = "mq_not_full q" and ?c = "mq_capacity q"
    and ?n = "mq_count q"
  have w: "mpmc_wf q" "quiet k ?l" "?l \<noteq> ?e" "?e \<noteq> ?l" "?l \<noteq> ?f" "?f \<noteq> ?l" "?e \<noteq> ?f" "?f \<noteq> ?e" "?c < 2 ^ 31"
    "idle_sem k ?e ?n ?c" "idle_sem k ?f (?c - ?n) ?c" "wakes_ok q k"
    "?n \<le> ?c" "mq_tail q < ?c"
    using I by (auto simp: mpmc_idle_def mpmc_wf_def)
  obtain k1 where t: "v_semaphore_take ?e t k = Inr (VA_PASS, k1)"
    "idle_sem k1 ?e (?n - 1) ?c" "quiet k1 ?l" "\<forall>s. s \<noteq> ?e \<longrightarrow> semas k1 s = semas k s"
    using idle_sem_take [OF w(10) r w(13,9,2,4) ipc_frame_lock(1)] by blast
  obtain k2 k3 where l: "v_mutex_lock ?l V_WAIT_FOREVER k1 = Inr (VA_PASS, k2)"
    "v_mutex_unlock ?l k2 = Inr (VA_PASS, k3)" "quiet k3 ?l" "\<forall>s. s \<noteq> ?l \<longrightarrow> semas k3 s = semas k1 s"
    using lock_unlock_quiet [OF t(3)] by metis
  have f3: "idle_sem k3 ?f (?c - ?n) ?c" using idle_sem_cong [OF w(11), of k3] t(4) l(4) w by simp
  have lt: "?c - ?n < ?c" using r w(13) by simp
  obtain k4 where g: "v_semaphore_give ?f k3 = Inr (VA_PASS, k4)" "idle_sem k4 ?f (?c - ?n + 1) ?c" "quiet k4 ?l"
    "\<forall>s. s \<noteq> ?f \<longrightarrow> semas k4 s = semas k3 s"
    using idle_sem_give [OF f3 lt w(9) l(3) w(6) ipc_frame_lock(1)] by blast
  have e4: "idle_sem k4 ?e (?n - 1) ?c" using idle_sem_cong [OF t(2), of k4] g(4) l(4) w by simp
  have nt: "(if mq_tail q + 1 \<ge> ?c then 0 else mq_tail q + 1) = (mq_tail q + 1) mod ?c"
    using w(14) by (cases "mq_tail q + 1 = ?c") auto
  have d: "u32_sub ?n 1 = ?n - 1" using r w(9,13) by (intro u32_sub_ge) auto
  have "wakes_ok q k4" by (rule wakes_ok_cong [OF w(12)]) (use t(4) l(4) g(4) in auto)
  from wake_give [OF this _ g(3), of "mq_fd_wake_wr q"] obtain r5 k5 where
    h: "(if mq_fd_wake_wr q \<noteq> 0 then v_semaphore_give (mq_fd_wake_wr q) k4 else Inr (0, k4)) = Inr (r5, k5)"
    "wakes_ok q k5" "quiet k5 ?l" "\<forall>s \<in> {?l, ?e, ?f}. semas k5 s = semas k4 s" by auto
  have "mpmc_pop_timeout t q k = Inr (Some (mpmc_load q), popped q, k5)"
    using t(1) l(1,2) g(1) h(1) nt d by (auto simp: mpmc_pop_timeout_def Let_def popped_def split: if_splits)
  moreover have "idle_sem k5 ?e (?n - 1) ?c" "idle_sem k5 ?f (?c - ?n + 1) ?c"
    using h(4) idle_sem_cong [OF e4, of k5] idle_sem_cong [OF g(2), of k5] by simp_all
  moreover have "?c - (?n - 1) = ?c - ?n + 1" using r w(13) by simp
  ultimately have "mpmc_idle (popped q) k5" "mpmc_pop_timeout t q k = Inr (Some (mpmc_load q), popped q, k5)"
    using popped_contents(1) [OF w(1) r] h(2,3) w wakes_ok_fields [of "popped q" q k5]
    by (simp_all add: mpmc_idle_def popped_def)
  then show ?thesis by blast
qed

lemma mpmc_pop_empty:
  assumes I: "mpmc_idle q k" and r: "mq_count q = 0"
  shows "\<exists>k'. mpmc_try_pop q k = Inr (None, q, k') \<and> mpmc_idle q k'"
proof -
  have "idle_sem k (mq_not_empty q) 0 (mq_capacity q)" "quiet k (mq_lock q)" using I r by (auto simp: mpmc_idle_def)
  from idle_sem_refuse [OF this ipc_frame_lock(1)] obtain k' where "v_semaphore_take (mq_not_empty q) 0 k = Inr (VA_FAIL, k')"
    "semas k' = semas k" "quiet k' (mq_lock q)" by blast
  then show ?thesis
    using I by (auto simp: mpmc_try_pop_def mpmc_pop_timeout_def Let_def mpmc_idle_def idle_sem_def wakes_ok_def)
qed

section \<open>The queue as a bounded queue\<close>

definition mpmc_rep :: "mpmc_queue \<times> kernel \<Rightarrow> u8 list list \<Rightarrow> bool" where
  "mpmc_rep = (\<lambda>(q, k) xs. mpmc_idle q k \<and> mpmc_contents q = xs)"

definition mpmc_put :: "u8 list \<Rightarrow> mpmc_queue \<times> kernel \<Rightarrow> (bool \<times> mpmc_queue \<times> kernel) option" where
  "mpmc_put x = (\<lambda>(q, k). case mpmc_try_push x q k of Inl _ \<Rightarrow> None | Inr r \<Rightarrow> Some r)"

definition mpmc_get :: "mpmc_queue \<times> kernel \<Rightarrow> (u8 list option \<times> mpmc_queue \<times> kernel) option" where
  "mpmc_get = (\<lambda>(q, k). case mpmc_try_pop q k of Inl _ \<Rightarrow> None | Inr r \<Rightarrow> Some r)"

definition mpmc_bound :: "mpmc_queue \<times> kernel \<Rightarrow> nat" where
  "mpmc_bound = (\<lambda>(q, k). mq_capacity q)"

definition mpmc_valid :: "mpmc_queue \<times> kernel \<Rightarrow> u8 list \<Rightarrow> bool" where
  "mpmc_valid = (\<lambda>(q, k) x. length x = mq_elem_size q)"

definition mpmc_lossy :: "mpmc_queue \<times> kernel \<Rightarrow> bool" where
  "mpmc_lossy = (\<lambda>(q, k). mq_policy q = MPMC_POLICY_OVERWRITE)"

interpretation mpmc: bounded_queue mpmc_rep mpmc_bound mpmc_lossy mpmc_valid mpmc_put mpmc_get
proof unfold_locales
  fix qk :: "mpmc_queue \<times> kernel" and xs
  obtain q k where qk: "qk = (q, k)" by fastforce
  assume "mpmc_rep qk xs"
  then have R: "mpmc_idle q k" "mpmc_contents q = xs" "mpmc_wf q"
    by (auto simp: mpmc_rep_def qk mpmc_idle_def)
  have n: "length xs = mq_count q" "mq_count q \<le> mq_capacity q"
    using R(2,3) length_mpmc_contents [OF R(3)] by (auto simp: mpmc_wf_def)
  show "length xs \<le> mpmc_bound qk" using n by (simp add: mpmc_bound_def qk)
  show "\<exists>qk'. mpmc_put x qk = Some (length xs < mpmc_bound qk \<or> mpmc_lossy qk, qk') \<and>
      mpmc_rep qk' (if length xs < mpmc_bound qk then xs @ [x] else if mpmc_lossy qk then tl xs @ [x] else xs) \<and>
      mpmc_bound qk' = mpmc_bound qk \<and> mpmc_lossy qk' = mpmc_lossy qk \<and> mpmc_valid qk' = mpmc_valid qk" if v: "mpmc_valid qk x" for x
  proof -
    have l: "length x = mq_elem_size q" using v by (simp add: mpmc_valid_def qk)
    note f = qk mpmc_put_def mpmc_try_push_def mpmc_rep_def mpmc_bound_def mpmc_lossy_def mpmc_valid_def
    consider (room) "mq_count q < mq_capacity q" | (drop) "mq_count q = mq_capacity q" "mq_policy q = MPMC_POLICY_DROP"
      | (over) "mq_count q = mq_capacity q" "mq_policy q = MPMC_POLICY_OVERWRITE"
      using n(2) mpmc_policy.exhaust nat_less_le by metis
    then show ?thesis
    proof cases
      case room
      obtain k' where "mpmc_push_timeout x 0 q k = Inr (True, pushed x q, k')" "mpmc_idle (pushed x q) k'"
        using mpmc_push_room [OF R(1) l room] by blast
      then show ?thesis
        using room n R(2) pushed_contents(2) [OF R(3) l room]
        by (intro exI [of _ "(pushed x q, k')"]) (simp add: f pushed_def mpmc_store_def)
    next
      case drop
      then obtain k' where "mpmc_try_push x q k = Inr (False, q, k')" "mpmc_idle q k'"
        using mpmc_push_full [OF R(1) drop] by blast
      then show ?thesis using drop n R by (intro exI [of _ "(q, k')"]) (simp add: f)
    next
      case over
      let ?q = "pushed x (popped q)"
      obtain k' where k': "mpmc_push_timeout x 0 q k = Inr (True, ?q, k')" "mpmc_idle ?q k'"
        using mpmc_push_overwrite [OF R(1) l over] by blast
      have c: "0 < mq_count q" using over(1) R(3) by (simp add: mpmc_wf_def)
      have "mpmc_contents ?q = tl xs @ [x]"
        using pushed_contents(2) [OF popped_contents(1) [OF R(3) c], of x] popped_contents(2) [OF R(3) c] l over(1) c R(2)
        by (simp add: popped_def)
      then show ?thesis
        using k' over n by (intro exI [of _ "(?q, k')"]) (simp add: f pushed_def popped_def mpmc_store_def)
    qed
  qed
  show "\<exists>qk'. mpmc_get qk = Some (case xs of [] \<Rightarrow> None | x # _ \<Rightarrow> Some x, qk') \<and> mpmc_rep qk' (tl xs) \<and>
      mpmc_bound qk' = mpmc_bound qk \<and> mpmc_lossy qk' = mpmc_lossy qk \<and> mpmc_valid qk' = mpmc_valid qk"
  proof (cases "mq_count q = 0")
    case True
    then obtain k' where "mpmc_try_pop q k = Inr (None, q, k')" "mpmc_idle q k'"
      using mpmc_pop_empty [OF R(1)] by blast
    then show ?thesis
      using True n R by (intro exI [of _ "(q, k')"])
        (simp add: qk mpmc_get_def mpmc_rep_def mpmc_bound_def mpmc_lossy_def mpmc_valid_def)
  next
    case False
    then have z: "0 < mq_count q" by simp
    obtain k' where "mpmc_pop_timeout 0 q k = Inr (Some (mpmc_load q), popped q, k')" "mpmc_idle (popped q) k'"
      using mpmc_pop_some [OF R(1) z] by blast
    moreover have "xs = mpmc_load q # mpmc_contents (popped q)" using popped_contents(2) [OF R(3) z] R(2) by simp
    ultimately show ?thesis
      by (intro exI [of _ "(popped q, k')"])
        (simp add: qk mpmc_get_def mpmc_try_pop_def mpmc_rep_def mpmc_bound_def mpmc_lossy_def mpmc_valid_def popped_def)
  qed
qed

end
