(* ===== verification/Pbus_State.thy ===== *)
theory Pbus_State
  imports Vaios_Prelude
begin

text \<open>
  The data of the peripheral bus arbiter (\<open>include/periph_bus.h\<close>, \<open>kernel/periph_bus.c\<close>): jobs and buses
  in stores indexed by their addresses, the pool of lock slots, the table of devices and the pool of
  user handles. \<open>sl_job\<close>, \<open>sl_sem\<close>, \<open>ph_job\<close> and \<open>ph_done_buf\<close> are the addresses of members of static
  objects and never change. A pointer to element \<open>i\<close> of a static array is \<open>i + 1\<close> and NULL is 0.
\<close>

datatype job_state = JOB_IDLE | JOB_QUEUED | JOB_ACTIVE

text \<open>The two hooks of a job: those of the user handles, or of code outside these files.\<close>

datatype start_fn = Handle_Start | App_Start nat

datatype done_fn = Handle_Done | App_Done nat

record pbus_job =
  pj_start :: "start_fn option"
  pj_done :: "done_fn option"
  pj_arg :: nat
  pj_prio :: nat
  pj_period :: u32w
  pj_next :: nat
  pj_cyc_next :: nat
  pj_grant :: nat
  pj_countdown :: u32w
  pj_state :: job_state

record pbus =
  pb_queue :: nat
  pb_active :: nat
  pb_locked :: bool
  pb_cyclic :: nat
  pb_overruns :: u32w

record lock_slot =
  sl_job :: nat
  sl_sem :: nat
  sl_bus :: nat
  sl_owner :: nat

text \<open>A transfer; the buffers of the kernel copy are those of its handle.\<close>

record pbus_xfer =
  xf_addr :: nat
  xf_flags :: nat
  xf_tx_len :: nat
  xf_rx_len :: nat

record pbus_dev =
  pd_name :: "string option"
  pd_bus :: nat
  pd_start :: nat
  pd_dev_start :: nat
  pd_ctx :: nat
  pd_addr :: nat

record pbus_handle =
  ph_dev :: nat
  ph_job :: nat
  ph_x :: pbus_xfer
  ph_tx :: "u8 list"
  ph_rx :: "u8 list"
  ph_done_buf :: nat
  ph_done :: nat
  ph_rc :: int
  ph_used :: bool
  ph_submitted :: bool
  ph_orphan :: bool

record pbus_state =
  pb_jobs :: "nat \<Rightarrow> pbus_job"
  pb_buses :: "nat \<Rightarrow> pbus"
  lock_slots :: "lock_slot list"
  dma_owner :: "nat \<Rightarrow> nat \<Rightarrow> nat"
  pbus_devs :: "pbus_dev list"
  pbus_handles :: "pbus_handle list"

text \<open>A job with every field zero, as a compound literal starts.\<close>

abbreviation (input) NO_JOB :: pbus_job where
  "NO_JOB \<equiv> \<lparr>pj_start = None, pj_done = None, pj_arg = 0, pj_prio = 0, pj_period = 0, pj_next = 0,
     pj_cyc_next = 0, pj_grant = 0, pj_countdown = 0, pj_state = JOB_IDLE\<rparr>"

end
