(* ===== verification/Devfs.thy ===== *)
theory Devfs
  imports Mpmc Spsc_Fifo Pbus_State
begin

text \<open>
  The device file system and the descriptor tables (\<open>kernel/devfs.c\<close>, \<open>include/vfile.h\<close>), with the
  kernel log ring of \<open>kernel/utils.c\<close> behind \<open>/dev/kmsg\<close>.

  A descriptor points at an op-table. The op-tables of the kernel are static objects, named here
  by a datatype; \<open>App_Ops\<close> are those that code outside these files registers. The functions in a
  table are found through a parameter \<open>tab\<close>, as the calls through \<open>e->ops->close\<close> are; the
  kernel's own tables are put together in \<open>Vfile\<close>, on top of the modules that define them.

  A pointer to element \<open>i\<close> of a static array is \<open>i + 1\<close> and NULL is 0. Paths are NUL-terminated
  strings in C and \<open>string\<close> here, without the terminator; data are bytes.
\<close>

section \<open>State\<close>

abbreviation (input) VAIOS_MAX_FDS :: nat where "VAIOS_MAX_FDS \<equiv> 8"
abbreviation (input) MAX_DEV_NODES :: nat where "MAX_DEV_NODES \<equiv> 8"
abbreviation (input) CONSOLE_TX_SIZE :: nat where "CONSOLE_TX_SIZE \<equiv> 256"
abbreviation (input) CONSOLE_RX_SIZE :: nat where "CONSOLE_RX_SIZE \<equiv> 256"
abbreviation (input) KMSG_RING_SIZE :: nat where "KMSG_RING_SIZE \<equiv> 1024"
abbreviation (input) CAPTURE_SIZE :: nat where "CAPTURE_SIZE \<equiv> 2048"

datatype ops_id = Console_Ops | Kmsg_Ops | Capture_Ops | Ipc_Sem_Ops | Ipc_Mtx_Ops | Q_Fd_Ops | Pbus_Ops | App_Ops nat

record dev_node =
  dn_name :: string
  dn_ops :: ops_id
  dn_priv :: nat

record fd_entry =
  fe_ops :: "ops_id option"
  fe_priv :: nat

abbreviation (input) FREE_FD :: fd_entry where "FREE_FD \<equiv> \<lparr>fe_ops = None, fe_priv = 0\<rparr>"

record kmsg =
  kmsg_ring :: "u8 list"
  kmsg_head :: u32w
  kmsg_tail :: u32w

text \<open>
  \<open>con_out\<close> are the strings handed to \<open>v_port_hw_console_write_string\<close>, oldest first, and \<open>con_hw_in\<close>
  the bytes \<open>v_port_hw_console_try_read\<close> has to give.
\<close>

record console =
  con_tx :: "u8 list"
  con_tx_head :: nat
  con_tx_tail :: nat
  con_tx_sem :: nat
  con_writer_seen :: bool
  con_last :: u8
  con_rx :: "u8 list"
  con_head :: nat
  con_tail :: nat
  con_rx_sem :: nat
  con_rx_armed :: bool
  con_out :: "u8 list list"
  con_hw_in :: "u8 list"

record capture =
  cap_buf :: "u8 list option"
  cap_len :: nat
  cap_rd :: nat
  cap_cut :: bool

record named_sem =
  ns_name :: string
  ns_sem :: nat
  ns_refcount :: int
  ns_used :: bool

record named_mtx =
  nm_name :: string
  nm_mtx :: nat
  nm_refcount :: int
  nm_used :: bool

record q_entry =
  qe_name :: "string option"
  qe_wake_rd :: nat
  qe_wake_wr :: nat
  qe_mpmc :: nat
  qe_spsc :: nat
  qe_reader :: bool
  qe_writer :: bool

record q_handle =
  qh_entry :: nat
  qh_used :: bool
  qh_flags :: nat

text \<open>
  The whole system: the kernel of the scheduler and the synchronisation calls, the kernel heap,
  and the tables of the descriptor layer. \<open>ns_sem\<close>, \<open>nm_mtx\<close>, \<open>qe_wake_rd\<close> and \<open>qe_wake_wr\<close> are
  addresses of members of static objects and never change. Queue objects are found by address.
\<close>

record 'i sys =
  sy_k :: kernel
  sy_heap :: "'i heap"
  sy_nodes :: "dev_node list"
  sy_fds :: "nat \<Rightarrow> nat \<Rightarrow> fd_entry"
  sy_con :: console
  sy_kmsg :: kmsg
  sy_cap :: capture
  sy_sems :: "named_sem list"
  sy_mtxs :: "named_mtx list"
  sy_qreg :: "q_entry list"
  sy_qh :: "q_handle list"
  sy_mpmc :: "nat \<Rightarrow> mpmc_queue"
  sy_spsc :: "nat \<Rightarrow> spsc_fifo"
  sy_pb :: pbus_state

text \<open>An op-table; a missing function is \<open>None\<close>.\<close>

record 's file_ops =
  fo_read :: "(nat \<Rightarrow> nat \<Rightarrow> 's \<Rightarrow> (int \<times> u8 list \<times> 's) kres) option"
  fo_write :: "(nat \<Rightarrow> u8 list \<Rightarrow> 's \<Rightarrow> (int \<times> 's) kres) option"
  fo_close :: "(nat \<Rightarrow> 's \<Rightarrow> (int \<times> 's) kres) option"
  fo_open :: "(string \<Rightarrow> int \<Rightarrow> 's \<Rightarrow> (int \<times> nat \<times> 's) kres) option"
  fo_wait :: "(nat \<Rightarrow> nat \<Rightarrow> 's \<Rightarrow> (int \<times> 's) kres) option"

section \<open>Definitions\<close>

subsection \<open>The device registry\<close>

definition v_devfs_register :: "string \<Rightarrow> ops_id \<Rightarrow> nat \<Rightarrow> 'i sys \<Rightarrow> int \<times> 'i sys" where
  "v_devfs_register name ops priv s =
     (if length (sy_nodes s) \<ge> MAX_DEV_NODES then (-1, s)
      else (0, s\<lparr>sy_nodes := sy_nodes s @ [\<lparr>dn_name = name, dn_ops = ops, dn_priv = priv\<rparr>]\<rparr>))"

text \<open>\<open>name\<close> is the caller's buffer, NULL or of \<open>cap\<close> bytes; the result is the string left in it.\<close>

definition v_devfs_node :: "int \<Rightarrow> bool \<Rightarrow> nat \<Rightarrow> 'i sys \<Rightarrow> (int \<times> string)" where
  "v_devfs_node i name cap s =
     (if i < 0 \<or> i \<ge> int (length (sy_nodes s)) \<or> \<not> name \<or> cap = 0 then (-1, [])
      else (0, take (cap - 1) (dn_name (sy_nodes s ! nat i))))"

text \<open>
  The character-by-character comparison of \<open>dev_find\<close>: \<open>n\<close> is the rest of the node's name, \<open>p\<close> the
  rest of the path, \<open>prev\<close> the character before \<open>n\<close>. The result is the tail of the path.
\<close>

fun dev_match :: "char option \<Rightarrow> string \<Rightarrow> string \<Rightarrow> string option" where
  "dev_match prev (c # n) (d # p) = (if c = d then dev_match (Some c) n p else None)"
| "dev_match prev [] [] = Some []"
| "dev_match prev [] (d # p) = (if prev = Some CHR ''/'' then Some (d # p) else None)"
| "dev_match prev (c # n) [] = None"

fun dev_scan :: "string \<Rightarrow> dev_node list \<Rightarrow> (dev_node \<times> string) option" where
  "dev_scan path [] = None"
| "dev_scan path (d # ds) =
     (case dev_match None (dn_name d) path of
        Some t \<Rightarrow> Some (d, t)
      | None \<Rightarrow> dev_scan path ds)"

definition dev_find :: "string \<Rightarrow> 'i sys \<Rightarrow> (dev_node \<times> string) option" where
  "dev_find path s = dev_scan path (sy_nodes s)"

subsection \<open>Descriptor tables\<close>

definition set_fd :: "nat \<Rightarrow> nat \<Rightarrow> fd_entry \<Rightarrow> 'i sys \<Rightarrow> 'i sys" where
  "set_fd t fd e s = s\<lparr>sy_fds := (sy_fds s)(t := (sy_fds s t)(fd := e))\<rparr>"

definition v_fd_table_init :: "nat \<Rightarrow> 'i sys \<Rightarrow> 'i sys" where
  "v_fd_table_init t s =
     (let s = foldl (\<lambda>s i. set_fd t i FREE_FD s) s [0..<VAIOS_MAX_FDS]
      in case dev_find ''/dev/console'' s of
           None \<Rightarrow> s
         | Some (con, _) \<Rightarrow>
             foldl (\<lambda>s fd. set_fd t fd \<lparr>fe_ops = Some (dn_ops con), fe_priv = dn_priv con\<rparr> s) s
               [0..<min 3 VAIOS_MAX_FDS])"

definition fd_lookup :: "int \<Rightarrow> 'i sys \<Rightarrow> (ops_id \<times> nat) option" where
  "fd_lookup fd s =
     (if fd < 0 \<or> fd \<ge> int VAIOS_MAX_FDS then None
      else let e = sy_fds s (current_task (sy_k s)) (nat fd)
           in map_option (\<lambda>ops. (ops, fe_priv e)) (fe_ops e))"

fun fd_first_free :: "(nat \<Rightarrow> fd_entry) \<Rightarrow> nat list \<Rightarrow> nat option" where
  "fd_first_free f [] = None"
| "fd_first_free f (i # is) = (if fe_ops (f i) = None then Some i else fd_first_free f is)"

definition v_fd_alloc :: "ops_id \<Rightarrow> nat \<Rightarrow> 'i sys \<Rightarrow> int \<times> 'i sys" where
  "v_fd_alloc ops priv s =
     (case fd_first_free (sy_fds s (current_task (sy_k s))) [0..<VAIOS_MAX_FDS] of
        None \<Rightarrow> (-1, s)
      | Some fd \<Rightarrow> (int fd, set_fd (current_task (sy_k s)) fd \<lparr>fe_ops = Some ops, fe_priv = priv\<rparr> s))"

definition v_fd_obj :: "int \<Rightarrow> ops_id \<Rightarrow> 'i sys \<Rightarrow> nat" where
  "v_fd_obj fd ops s =
     (case fd_lookup fd s of
        None \<Rightarrow> 0
      | Some (o', priv) \<Rightarrow> if o' \<noteq> ops then 0 else priv)"

fun fd_close_from :: "(ops_id \<Rightarrow> 'i sys file_ops) \<Rightarrow> nat \<Rightarrow> nat list \<Rightarrow> 'i sys \<Rightarrow> 'i sys kres" where
  "fd_close_from tab t [] s = Inr s"
| "fd_close_from tab t (fd # fds) s =
     (let e = sy_fds s t fd
      in case fe_ops e of
           None \<Rightarrow> fd_close_from tab t fds s
         | Some ops \<Rightarrow>
             kbind (case fo_close (tab ops) of
                      None \<Rightarrow> Inr s
                    | Some f \<Rightarrow> kbind (f (fe_priv e) s) (\<lambda>(_, s). Inr s))
               (\<lambda>s. fd_close_from tab t fds (set_fd t fd FREE_FD s)))"

definition v_fd_close_all :: "(ops_id \<Rightarrow> 'i sys file_ops) \<Rightarrow> nat \<Rightarrow> 'i sys \<Rightarrow> 'i sys kres" where
  "v_fd_close_all tab t s = fd_close_from tab t [0..<VAIOS_MAX_FDS] s"

subsection \<open>Files\<close>

definition v_file_open ::
    "(ops_id \<Rightarrow> 'i sys file_ops) \<Rightarrow> string \<Rightarrow> int \<Rightarrow> 'i sys \<Rightarrow> (int \<times> 'i sys) kres" where
  "v_file_open tab path flags s =
     (case dev_find path s of
        None \<Rightarrow> Inr (-1, s)
      | Some (node, _) \<Rightarrow>
          (case fo_open (tab (dn_ops node)) of
             None \<Rightarrow> Inr (v_fd_alloc (dn_ops node) (dn_priv node) s)
           | Some op \<Rightarrow>
               kbind (op path flags s) (\<lambda>(r, priv, s).
                 if r < 0 then Inr (r, s)
                 else
                   let (fd, s) = v_fd_alloc (dn_ops node) priv s
                   in if fd < 0 then
                        (case fo_close (tab (dn_ops node)) of
                           None \<Rightarrow> Inr (fd, s)
                         | Some cl \<Rightarrow> kbind (cl priv s) (\<lambda>(_, s). Inr (fd, s)))
                      else Inr (fd, s))))"

definition v_file_write ::
    "(ops_id \<Rightarrow> 'i sys file_ops) \<Rightarrow> int \<Rightarrow> u8 list \<Rightarrow> 'i sys \<Rightarrow> (int \<times> 'i sys) kres" where
  "v_file_write tab fd buf s =
     (case fd_lookup fd s of
        None \<Rightarrow> Inr (-1, s)
      | Some (ops, priv) \<Rightarrow>
          (case fo_write (tab ops) of
             None \<Rightarrow> Inr (-1, s)
           | Some f \<Rightarrow> f priv buf s))"

definition v_file_read ::
    "(ops_id \<Rightarrow> 'i sys file_ops) \<Rightarrow> int \<Rightarrow> nat \<Rightarrow> 'i sys \<Rightarrow> (int \<times> u8 list \<times> 'i sys) kres" where
  "v_file_read tab fd len s =
     (case fd_lookup fd s of
        None \<Rightarrow> Inr (-1, [], s)
      | Some (ops, priv) \<Rightarrow>
          (case fo_read (tab ops) of
             None \<Rightarrow> Inr (-1, [], s)
           | Some f \<Rightarrow> f priv len s))"

definition v_file_wait ::
    "(ops_id \<Rightarrow> 'i sys file_ops) \<Rightarrow> int \<Rightarrow> nat \<Rightarrow> 'i sys \<Rightarrow> (int \<times> 'i sys) kres" where
  "v_file_wait tab fd n s =
     (case fd_lookup fd s of
        None \<Rightarrow> Inr (-1, s)
      | Some (ops, priv) \<Rightarrow>
          (case fo_wait (tab ops) of
             None \<Rightarrow> Inr (-1, s)
           | Some f \<Rightarrow> f priv n s))"

definition v_file_dup :: "(ops_id \<Rightarrow> 'i sys file_ops) \<Rightarrow> int \<Rightarrow> 'i sys \<Rightarrow> int \<times> 'i sys" where
  "v_file_dup tab oldfd s =
     (case fd_lookup oldfd s of
        None \<Rightarrow> (-1, s)
      | Some (ops, priv) \<Rightarrow> if fo_close (tab ops) \<noteq> None then (-1, s) else v_fd_alloc ops priv s)"

definition v_file_dup2 :: "(ops_id \<Rightarrow> 'i sys file_ops) \<Rightarrow> int \<Rightarrow> int \<Rightarrow> 'i sys \<Rightarrow> int \<times> 'i sys" where
  "v_file_dup2 tab oldfd newfd s =
     (case fd_lookup oldfd s of
        None \<Rightarrow> (-1, s)
      | Some (ops, priv) \<Rightarrow>
          if fo_close (tab ops) \<noteq> None \<or> newfd < 0 \<or> newfd \<ge> int VAIOS_MAX_FDS then (-1, s)
          else
            let t = current_task (sy_k s);
                n = sy_fds s t (nat newfd)
            in if (case fe_ops n of None \<Rightarrow> False | Some o' \<Rightarrow> fo_close (tab o') \<noteq> None) then (-1, s)
               else (newfd, set_fd t (nat newfd) \<lparr>fe_ops = Some ops, fe_priv = priv\<rparr> s))"

definition v_file_close :: "(ops_id \<Rightarrow> 'i sys file_ops) \<Rightarrow> int \<Rightarrow> 'i sys \<Rightarrow> (int \<times> 'i sys) kres" where
  "v_file_close tab fd s =
     (case fd_lookup fd s of
        None \<Rightarrow> Inr (-1, s)
      | Some (ops, priv) \<Rightarrow>
          kbind (case fo_close (tab ops) of None \<Rightarrow> Inr (0, s) | Some f \<Rightarrow> f priv s) (\<lambda>(r, s).
            Inr (r, set_fd (current_task (sy_k s)) (nat fd) FREE_FD s)))"

subsection \<open>The kernel log\<close>

definition kmsg_put :: "u8 \<Rightarrow> kmsg \<Rightarrow> kmsg" where
  "kmsg_put b m =
     (let m = m\<lparr>kmsg_ring := (kmsg_ring m)[unat (kmsg_head m) mod KMSG_RING_SIZE := b]\<rparr>;
          m = m\<lparr>kmsg_head := kmsg_head m + 1\<rparr>
      in if kmsg_head m - kmsg_tail m > of_nat KMSG_RING_SIZE
         then m\<lparr>kmsg_tail := kmsg_head m - of_nat KMSG_RING_SIZE\<rparr> else m)"

definition v_kmsg_append :: "u8 list \<Rightarrow> kmsg \<Rightarrow> kmsg" where
  "v_kmsg_append buf m = foldl (\<lambda>m b. kmsg_put b m) m buf"

fun kmsg_take :: "nat \<Rightarrow> kmsg \<Rightarrow> u8 list \<times> kmsg" where
  "kmsg_take 0 m = ([], m)"
| "kmsg_take (Suc n) m =
     (if kmsg_tail m = kmsg_head m then ([], m)
      else
        let b = kmsg_ring m ! (unat (kmsg_tail m) mod KMSG_RING_SIZE);
            (bs, m) = kmsg_take n (m\<lparr>kmsg_tail := kmsg_tail m + 1\<rparr>)
        in (b # bs, m))"

definition v_kmsg_read :: "nat \<Rightarrow> kmsg \<Rightarrow> int \<times> u8 list \<times> kmsg" where
  "v_kmsg_read len m = (let (bs, m) = kmsg_take len m in (int (length bs), bs, m))"

definition kmsg_dev_read :: "nat \<Rightarrow> nat \<Rightarrow> 'i sys \<Rightarrow> (int \<times> u8 list \<times> 'i sys) kres" where
  "kmsg_dev_read priv len s =
     (let (n, bs, m) = v_kmsg_read len (sy_kmsg s) in Inr (n, bs, s\<lparr>sy_kmsg := m\<rparr>))"

subsection \<open>Console output\<close>

text \<open>
  \<open>console_emit\<close> copies chunks of up to 127 bytes into a NUL-terminated buffer; the port's string
  function sees each up to its first NUL.
\<close>

fun emit_chunks :: "u8 list \<Rightarrow> u8 list list" where
  "emit_chunks [] = []"
| "emit_chunks (b # p) = takeWhile (\<lambda>c. c \<noteq> 0) (take 127 (b # p)) # emit_chunks (drop 127 (b # p))"

definition console_emit :: "u8 list \<Rightarrow> console \<Rightarrow> console" where
  "console_emit p c = c\<lparr>con_out := con_out c @ emit_chunks p\<rparr>"

abbreviation (input) CR :: u8 where "CR \<equiv> 13"
abbreviation (input) LF :: u8 where "LF \<equiv> 10"

text \<open>The loop of a direct write; \<open>tmp\<close> is what the local buffer of 64 bytes holds.\<close>

fun console_direct :: "u8 list \<Rightarrow> u8 list \<Rightarrow> console \<Rightarrow> console" where
  "console_direct tmp [] c = (if tmp \<noteq> [] then console_emit tmp c else c)"
| "console_direct tmp (b # p) c =
     (let tmp = (if b = LF \<and> con_last c \<noteq> CR then tmp @ [CR] else tmp);
          tmp = tmp @ [b];
          c = c\<lparr>con_last := b\<rparr>
      in if length tmp \<ge> 63 then console_direct [] p (console_emit tmp c)
         else console_direct tmp p c)"

definition tx_put :: "u8 \<Rightarrow> console \<Rightarrow> console" where
  "tx_put b c = c\<lparr>con_tx := (con_tx c)[con_tx_head c := b],
                  con_tx_head := (con_tx_head c + 1) mod CONSOLE_TX_SIZE\<rparr>"

definition tx_room :: "console \<Rightarrow> nat" where
  "tx_room c = u32_sub (con_tx_tail c + CONSOLE_TX_SIZE) (con_tx_head c + 1) mod CONSOLE_TX_SIZE"

fun console_queue :: "u8 list \<Rightarrow> console \<Rightarrow> nat \<times> console" where
  "console_queue [] c = (0, c)"
| "console_queue (b # p) c =
     (let crlf = (b = LF \<and> con_last c \<noteq> CR)
      in if tx_room c < (if crlf then 2 else 1) then (0, c)
         else
           let c = (if crlf then tx_put CR c else c);
               c = (tx_put b c)\<lparr>con_last := b\<rparr>;
               (n, c) = console_queue p c
           in (n + 1, c))"

text \<open>
  A give from an exception handler: \<open>pri\<close> is \<open>(vectactive, irq_prio)\<close>, as
  \<open>v_port_hw_active_irq_priority\<close> reports them, \<open>(11, 0)\<close> in a system call.
\<close>

abbreviation (input) MAX_SYSCALL_INTERRUPT_PRIORITY :: nat where "MAX_SYSCALL_INTERRUPT_PRIORITY \<equiv> 112"

definition give_and_pend :: "nat \<times> nat \<Rightarrow> nat \<Rightarrow> 'i sys \<Rightarrow> 'i sys kres" where
  "give_and_pend pri sem s =
     kbind (v_semaphore_give_from_isr MAX_SYSCALL_INTERRUPT_PRIORITY (fst pri) (snd pri) sem (Some False) (sy_k s))
       (\<lambda>(_, woke, k). Inr (s\<lparr>sy_k := if woke = Some True then k\<lparr>pendsv := True\<rparr> else k\<rparr>))"

definition console_write :: "nat \<Rightarrow> u8 list \<Rightarrow> 'i sys \<Rightarrow> (int \<times> 'i sys) kres" where
  "console_write priv buf s =
     (let c = sy_con s
      in if \<not> con_writer_seen c then Inr (int (length buf), s\<lparr>sy_con := console_direct [] buf c\<rparr>)
         else
           let (n, c) = console_queue buf c;
               s = s\<lparr>sy_con := c\<rparr>
           in kbind (if n > 0 then give_and_pend (11, 0) (con_tx_sem c) s else Inr s) (\<lambda>s. Inr (int n, s)))"

fun tx_chunk :: "nat \<Rightarrow> console \<Rightarrow> nat \<Rightarrow> u8 list \<times> nat" where
  "tx_chunk 0 c t = ([], t)"
| "tx_chunk (Suc m) c t =
     (if t = con_tx_head c then ([], t)
      else
        let (bs, t') = tx_chunk m c ((t + 1) mod CONSOLE_TX_SIZE)
        in (con_tx c ! t # bs, t'))"

partial_function (option) console_drain :: "nat \<Rightarrow> console \<Rightarrow> (nat \<times> console) option" where
  "console_drain sent c =
     (if con_tx_tail c = con_tx_head c then Some (sent, c)
      else
        let (tmp, t) = tx_chunk 64 c (con_tx_tail c);
            c = console_emit tmp c
        in console_drain (sent + length tmp) (c\<lparr>con_tx_tail := t\<rparr>))"

declare console_drain.simps [code]

text \<open>
  The writer task's step. \<open>None\<close> is a take that parked the task: the call returns once it is woken.
\<close>

definition v_console_writer_step :: "nat \<Rightarrow> 'i sys \<Rightarrow> (nat option \<times> 'i sys) kres" where
  "v_console_writer_step n s =
     (let c = (sy_con s)\<lparr>con_writer_seen := True\<rparr>;
          s = s\<lparr>sy_con := c\<rparr>;
          go = (\<lambda>s. kbind (walk_end (console_drain 0 c)) (\<lambda>(sent, c). Inr (Some sent, s\<lparr>sy_con := c\<rparr>)))
      in if con_tx_tail c = con_tx_head c then
           kbind (v_semaphore_take (con_tx_sem c) n (sy_k s)) (\<lambda>(r, k).
             let s = s\<lparr>sy_k := k\<rparr>
             in if r = V_SYSCALL_BLOCKED then Inr (None, s)
                else if r \<noteq> VA_PASS then Inr (Some 0, s)
                else go s)
         else go s)"

subsection \<open>Console input\<close>

fun rx_put :: "u8 list \<Rightarrow> console \<Rightarrow> console" where
  "rx_put [] c = c"
| "rx_put (b # bs) c =
     (let nxt = (con_head c + 1) mod CONSOLE_RX_SIZE
      in if nxt = con_tail c then c
         else rx_put bs (c\<lparr>con_rx := (con_rx c)[con_head c := b], con_head := nxt\<rparr>))"

definition console_rx_sink :: "nat \<times> nat \<Rightarrow> u8 list \<Rightarrow> 'i sys \<Rightarrow> 'i sys kres" where
  "console_rx_sink pri data s =
     (let s = s\<lparr>sy_con := rx_put data (sy_con s)\<rparr>
      in if con_rx_sem (sy_con s) \<noteq> 0 then give_and_pend pri (con_rx_sem (sy_con s)) s else Inr s)"

fun rx_take :: "nat \<Rightarrow> console \<Rightarrow> u8 list \<times> console" where
  "rx_take 0 c = ([], c)"
| "rx_take (Suc n) c =
     (if con_tail c = con_head c then ([], c)
      else
        let b = con_rx c ! con_tail c;
            (bs, c) = rx_take n (c\<lparr>con_tail := (con_tail c + 1) mod CONSOLE_RX_SIZE\<rparr>)
        in (b # bs, c))"

definition console_read :: "nat \<Rightarrow> nat \<Rightarrow> 'i sys \<Rightarrow> (int \<times> u8 list \<times> 'i sys) kres" where
  "console_read priv len s =
     (let (bs, c) = rx_take len (sy_con s);
          more = (if con_rx_armed c then [] else take (len - length bs) (con_hw_in c));
          c = c\<lparr>con_hw_in := drop (length more) (con_hw_in c)\<rparr>
      in Inr (int (length bs + length more), bs @ more, s\<lparr>sy_con := c\<rparr>))"

text \<open>Ten milliseconds of a kernel that ticks once a millisecond.\<close>

abbreviation (input) CONSOLE_POLL_TICKS :: nat where "CONSOLE_POLL_TICKS \<equiv> 10"

definition console_wait :: "nat \<Rightarrow> nat \<Rightarrow> 'i sys \<Rightarrow> (int \<times> 'i sys) kres" where
  "console_wait priv n s =
     (let c = sy_con s
      in if con_tail c \<noteq> con_head c then Inr (0, s)
         else if con_rx_sem c = 0 then Inr (-1, s)
         else
           let n = (if \<not> con_rx_armed c \<and> n > CONSOLE_POLL_TICKS then CONSOLE_POLL_TICKS else n)
           in kbind (v_semaphore_take (con_rx_sem c) n (sy_k s)) (\<lambda>(r, k).
                Inr (if r = VA_PASS then 0 else -1, s\<lparr>sy_k := k\<rparr>)))"

subsection \<open>Captured output\<close>

definition bytes_of :: "string \<Rightarrow> u8 list" where
  "bytes_of = map of_char"

definition CAPTURE_CUT :: "u8 list" where
  "CAPTURE_CUT = LF # bytes_of ''[vsh: output cut here, past what > can hold]'' @ [LF]"

fun capture_put :: "u8 list \<Rightarrow> u8 list \<Rightarrow> capture \<Rightarrow> u8 list \<times> capture" where
  "capture_put [] buf c = (buf, c)"
| "capture_put (b # p) buf c =
     (if cap_cut c then (buf, c)
      else if b = CR then capture_put p buf c
      else if cap_len c \<ge> CAPTURE_SIZE - length CAPTURE_CUT then
        (memcpy_into buf (cap_len c) CAPTURE_CUT,
         c\<lparr>cap_len := cap_len c + length CAPTURE_CUT, cap_cut := True\<rparr>)
      else capture_put p (buf[cap_len c := b]) (c\<lparr>cap_len := cap_len c + 1\<rparr>))"

text \<open>The buffer comes from the kernel heap on the first write; what is in it then is never read.\<close>

definition capture_write ::
    "'i index_ops \<Rightarrow> heap_cfg \<Rightarrow> nat \<Rightarrow> u8 list \<Rightarrow> 'i sys \<Rightarrow> (int \<times> 'i sys) kres" where
  "capture_write iops cfg priv p s =
     kbind (case cap_buf (sy_cap s) of
              Some buf \<Rightarrow> Inr (Some buf, s)
            | None \<Rightarrow> kbind (heap_res (v_malloc iops cfg CAPTURE_SIZE (sy_heap s))) (\<lambda>(a, h).
                Inr (if a = 0 then None else Some (replicate CAPTURE_SIZE 0), s\<lparr>sy_heap := h\<rparr>)))
       (\<lambda>(buf, s).
          case buf of
            None \<Rightarrow> Inr (int (length p), s)
          | Some buf \<Rightarrow>
              let (buf, c) = capture_put p buf (sy_cap s)
              in Inr (int (length p), s\<lparr>sy_cap := c\<lparr>cap_buf := Some buf\<rparr>\<rparr>))"

definition capture_read :: "nat \<Rightarrow> nat \<Rightarrow> 'i sys \<Rightarrow> (int \<times> u8 list \<times> 'i sys) kres" where
  "capture_read priv len s =
     (let c = sy_cap s;
          bs = (case cap_buf c of None \<Rightarrow> [] | Some buf \<Rightarrow> take (min len (cap_len c - cap_rd c)) (drop (cap_rd c) buf));
          c = c\<lparr>cap_rd := cap_rd c + length bs\<rparr>;
          c = (if cap_rd c = cap_len c then c\<lparr>cap_len := 0, cap_rd := 0, cap_cut := False\<rparr> else c)
      in Inr (int (length bs), bs, s\<lparr>sy_cap := c\<rparr>))"

subsection \<open>The built-in devices\<close>

text \<open>
  \<open>rx_store\<close> and \<open>tx_store\<close> are the addresses of the two static semaphores, \<open>armed\<close> what the port's
  \<open>rx_irq_init\<close> reports.
\<close>

definition v_devfs_init :: "nat \<Rightarrow> nat \<Rightarrow> bool \<Rightarrow> 'i sys \<Rightarrow> 'i sys" where
  "v_devfs_init rx_store tx_store armed s =
     (let c = (sy_con s)\<lparr>con_head := 0, con_tail := 0, con_tx_head := 0, con_tx_tail := 0\<rparr>;
          (rx, k) = v_semaphore_create_binary_static rx_store (sy_k s);
          (tx, k) = v_semaphore_create_binary_static tx_store k;
          s = s\<lparr>sy_k := k, sy_con := c\<lparr>con_rx_sem := rx, con_tx_sem := tx, con_rx_armed := armed\<rparr>\<rparr>;
          s = snd (v_devfs_register ''/dev/console'' Console_Ops 0 s);
          s = snd (v_devfs_register ''/dev/kmsg'' Kmsg_Ops 0 s)
      in snd (v_devfs_register ''/dev/capture'' Capture_Ops 0 s))"

end
