(* ===== verification/Ipc_Fd.thy ===== *)
theory Ipc_Fd
  imports Devfs
begin

text \<open>
  Named semaphores and mutexes behind descriptors, and the wait on several of them
  (\<open>kernel/ipc.c\<close>, the part under \<open>VAIOS_IPC_FD\<close>).
\<close>

section \<open>Definitions\<close>

abbreviation (input) MAX_NAMED_SEMS :: nat where "MAX_NAMED_SEMS \<equiv> 8"
abbreviation (input) MAX_NAMED_MTXS :: nat where "MAX_NAMED_MTXS \<equiv> 8"
abbreviation (input) V_IPC_CREATE :: nat where "V_IPC_CREATE \<equiv> 1"

subsection \<open>Names\<close>

text \<open>The comparison of two NUL-terminated strings, character by character.\<close>

fun sname_eq :: "string \<Rightarrow> string \<Rightarrow> bool" where
  "sname_eq (a # as) (b # bs) = (if a = b then sname_eq as bs else False)"
| "sname_eq [] [] = True"
| "sname_eq [] (b # bs) = False"
| "sname_eq (a # as) [] = False"

definition ipc_name_ok :: "string \<Rightarrow> bool" where
  "ipc_name_ok name \<longleftrightarrow> min 16 (length name) < 16"

subsection \<open>Named semaphores\<close>

fun sem_scan :: "string \<Rightarrow> nat \<Rightarrow> named_sem list \<Rightarrow> nat" where
  "sem_scan name i [] = 0"
| "sem_scan name i (x # xs) = (if ns_used x \<and> sname_eq (ns_name x) name then i + 1 else sem_scan name (i + 1) xs)"

definition named_sem_find :: "string \<Rightarrow> 'i sys \<Rightarrow> nat" where
  "named_sem_find name s = sem_scan name 0 (sy_sems s)"

fun sem_free_slot :: "nat \<Rightarrow> named_sem list \<Rightarrow> nat" where
  "sem_free_slot i [] = 0"
| "sem_free_slot i (x # xs) = (if \<not> ns_used x then i + 1 else sem_free_slot (i + 1) xs)"

definition upd_named_sem :: "nat \<Rightarrow> (named_sem \<Rightarrow> named_sem) \<Rightarrow> 'i sys \<Rightarrow> 'i sys" where
  "upd_named_sem p f s = s\<lparr>sy_sems := (sy_sems s)[p - 1 := f (sy_sems s ! (p - 1))]\<rparr>"

definition ipc_sem_close :: "nat \<Rightarrow> 'i sys \<Rightarrow> (int \<times> 'i sys) kres" where
  "ipc_sem_close p s =
     Inr (0, upd_named_sem p (\<lambda>x.
       if ns_refcount x > 0 then
         let x = x\<lparr>ns_refcount := ns_refcount x - 1\<rparr>
         in if ns_refcount x = 0 then x\<lparr>ns_used := False\<rparr> else x
       else x) s)"

text \<open>The slot for a name that is not in the table yet; 0 when it may not be created.\<close>

definition sem_create :: "string \<Rightarrow> nat \<Rightarrow> 'i sys \<Rightarrow> nat \<times> 'i sys" where
  "sem_create name flags s =
     (if flags AND V_IPC_CREATE = 0 then (0, s)
      else
        let p = sem_free_slot 0 (sy_sems s)
        in if p = 0 then (0, s)
           else
             let s = upd_named_sem p (\<lambda>x. x\<lparr>ns_name := take 15 name\<rparr>) s;
                 s = s\<lparr>sy_k := sema_init (ns_sem (sy_sems s ! (p - 1))) 0 1 (sy_k s)\<rparr>
             in (p, upd_named_sem p (\<lambda>x. x\<lparr>ns_refcount := 0, ns_used := True\<rparr>) s))"

definition v_sem_open :: "string \<Rightarrow> nat \<Rightarrow> 'i sys \<Rightarrow> (int \<times> 'i sys) kres" where
  "v_sem_open name flags s =
     (if \<not> ipc_name_ok name then Inr (-1, s)
      else
        let ns = named_sem_find name s;
            (ns, s) = (if ns = 0 then sem_create name flags s else (ns, s))
        in if ns = 0 then Inr (-1, s)
           else
             let s = upd_named_sem ns (\<lambda>x. x\<lparr>ns_refcount := ns_refcount x + 1\<rparr>) s;
                 (fd, s) = v_fd_alloc Ipc_Sem_Ops ns s
             in if fd < 0 then kbind (ipc_sem_close ns s) (\<lambda>(_, s). Inr (fd, s))
                else Inr (fd, s))"

definition v_sem_take :: "int \<Rightarrow> nat \<Rightarrow> 'i sys \<Rightarrow> (int \<times> 'i sys) kres" where
  "v_sem_take fd n s =
     (let ns = v_fd_obj fd Ipc_Sem_Ops s
      in if ns = 0 then Inr (VA_FAIL, s)
         else kbind (semaphore_take_common (ns_sem (sy_sems s ! (ns - 1))) n (sy_k s)) (\<lambda>(r, k).
           Inr (r, s\<lparr>sy_k := k\<rparr>)))"

definition v_sem_give :: "int \<Rightarrow> 'i sys \<Rightarrow> (int \<times> 'i sys) kres" where
  "v_sem_give fd s =
     (let ns = v_fd_obj fd Ipc_Sem_Ops s
      in if ns = 0 then Inr (VA_FAIL, s)
         else kbind (semaphore_give_common (ns_sem (sy_sems s ! (ns - 1))) None (sy_k s)) (\<lambda>(r, _, k).
           Inr (r, s\<lparr>sy_k := k\<rparr>)))"

subsection \<open>Named mutexes\<close>

fun mtx_scan :: "string \<Rightarrow> nat \<Rightarrow> named_mtx list \<Rightarrow> nat" where
  "mtx_scan name i [] = 0"
| "mtx_scan name i (x # xs) = (if nm_used x \<and> sname_eq (nm_name x) name then i + 1 else mtx_scan name (i + 1) xs)"

definition named_mtx_find :: "string \<Rightarrow> 'i sys \<Rightarrow> nat" where
  "named_mtx_find name s = mtx_scan name 0 (sy_mtxs s)"

fun mtx_free_slot :: "nat \<Rightarrow> named_mtx list \<Rightarrow> nat" where
  "mtx_free_slot i [] = 0"
| "mtx_free_slot i (x # xs) = (if \<not> nm_used x then i + 1 else mtx_free_slot (i + 1) xs)"

definition upd_named_mtx :: "nat \<Rightarrow> (named_mtx \<Rightarrow> named_mtx) \<Rightarrow> 'i sys \<Rightarrow> 'i sys" where
  "upd_named_mtx p f s = s\<lparr>sy_mtxs := (sy_mtxs s)[p - 1 := f (sy_mtxs s ! (p - 1))]\<rparr>"

definition ipc_mtx_close :: "nat \<Rightarrow> 'i sys \<Rightarrow> (int \<times> 'i sys) kres" where
  "ipc_mtx_close p s =
     Inr (0, upd_named_mtx p (\<lambda>x.
       if nm_refcount x > 0 then
         let x = x\<lparr>nm_refcount := nm_refcount x - 1\<rparr>
         in if nm_refcount x = 0 then x\<lparr>nm_used := False\<rparr> else x
       else x) s)"

definition mtx_create :: "string \<Rightarrow> nat \<Rightarrow> 'i sys \<Rightarrow> nat \<times> 'i sys" where
  "mtx_create name flags s =
     (if flags AND V_IPC_CREATE = 0 then (0, s)
      else
        let p = mtx_free_slot 0 (sy_mtxs s)
        in if p = 0 then (0, s)
           else
             let s = upd_named_mtx p (\<lambda>x. x\<lparr>nm_name := take 15 name\<rparr>) s;
                 a = nm_mtx (sy_mtxs s ! (p - 1));
                 k = sema_init a 1 1 (sy_k s);
                 k = upd_rmutex a (\<lambda>m. m\<lparr>m_owner := 0, m_recursion_count := 0, m_next_held := 0\<rparr>) k;
                 s = s\<lparr>sy_k := k\<rparr>
             in (p, upd_named_mtx p (\<lambda>x. x\<lparr>nm_refcount := 0, nm_used := True\<rparr>) s))"

definition v_mtx_open :: "string \<Rightarrow> nat \<Rightarrow> 'i sys \<Rightarrow> (int \<times> 'i sys) kres" where
  "v_mtx_open name flags s =
     (if \<not> ipc_name_ok name then Inr (-1, s)
      else
        let nm = named_mtx_find name s;
            (nm, s) = (if nm = 0 then mtx_create name flags s else (nm, s))
        in if nm = 0 then Inr (-1, s)
           else
             let s = upd_named_mtx nm (\<lambda>x. x\<lparr>nm_refcount := nm_refcount x + 1\<rparr>) s;
                 (fd, s) = v_fd_alloc Ipc_Mtx_Ops nm s
             in if fd < 0 then kbind (ipc_mtx_close nm s) (\<lambda>(_, s). Inr (fd, s))
                else Inr (fd, s))"

definition v_mtx_lock :: "int \<Rightarrow> nat \<Rightarrow> 'i sys \<Rightarrow> (int \<times> 'i sys) kres" where
  "v_mtx_lock fd n s =
     (let nm = v_fd_obj fd Ipc_Mtx_Ops s;
          m = nm_mtx (sy_mtxs s ! (nm - 1))
      in if nm = 0 then Inr (VA_FAIL, s)
         else if owner (sy_k s) m = current_task (sy_k s) then Inr (VA_FAIL, s)
         else kbind (mutex_lock_common m n (sy_k s)) (\<lambda>(r, k). Inr (r, s\<lparr>sy_k := k\<rparr>)))"

definition v_mtx_unlock :: "int \<Rightarrow> 'i sys \<Rightarrow> (int \<times> 'i sys) kres" where
  "v_mtx_unlock fd s =
     (let nm = v_fd_obj fd Ipc_Mtx_Ops s
      in if nm = 0 then Inr (VA_FAIL, s)
         else kbind (mutex_unlock_common (nm_mtx (sy_mtxs s ! (nm - 1))) (sy_k s)) (\<lambda>(r, k).
           Inr (r, s\<lparr>sy_k := k\<rparr>)))"

subsection \<open>Waiting on several descriptors\<close>

definition v_sem_poll :: "int \<Rightarrow> 'i sys \<Rightarrow> int" where
  "v_sem_poll fd s =
     (let ns = v_fd_obj fd Ipc_Sem_Ops s
      in if ns = 0 then -1
         else if s_count (semas (sy_k s) (ns_sem (sy_sems s ! (ns - 1)))) > 0 then 1 else 0)"

fun wait_ready :: "nat \<Rightarrow> int list \<Rightarrow> 'i sys \<Rightarrow> nat option" where
  "wait_ready i [] s = None"
| "wait_ready i (fd # fds) s =
     (let ns = v_fd_obj fd Ipc_Sem_Ops s
      in if ns \<noteq> 0 \<and> s_count (semas (sy_k s) (ns_sem (sy_sems s ! (ns - 1)))) > 0 then Some i
         else wait_ready (i + 1) fds s)"

text \<open>Arming: \<open>kn\<close> is the next free node of the running task.\<close>

fun wait_arm :: "nat \<Rightarrow> nat \<Rightarrow> int list \<Rightarrow> 'i sys \<Rightarrow> nat \<times> 'i sys" where
  "wait_arm i kn [] s = (kn, s)"
| "wait_arm i kn (fd # fds) s =
     (let ns = v_fd_obj fd Ipc_Sem_Ops s
      in if ns = 0 then wait_arm (i + 1) kn fds s
         else
           let cur = current_task (sy_k s);
               sem = ns_sem (sy_sems s ! (ns - 1));
               k = upd_wnode (cur, kn) (\<lambda>x. x\<lparr>wn_sem := sem, wn_owner := cur, wn_idx := int i,
                     wn_next := s_observers (semas (sy_k s) sem)\<rparr>) (sy_k s);
               k = upd_sema sem (\<lambda>x. x\<lparr>s_observers := Some (cur, kn)\<rparr>) k
           in wait_arm (i + 1) (kn + 1) fds (s\<lparr>sy_k := k\<rparr>))"

definition v_wait_block_impl :: "int list \<Rightarrow> int \<Rightarrow> nat \<Rightarrow> 'i sys \<Rightarrow> (int \<times> 'i sys) kres" where
  "v_wait_block_impl fds nfds n s =
     (if nfds \<le> 0 \<or> nfds > int VAIOS_MAX_FDS then Inr (-1, s)
      else
        let fds = take (nat nfds) fds;
            cur = current_task (sy_k s)
        in case wait_ready 0 fds s of
             Some i \<Rightarrow> Inr (int i, s)
           | None \<Rightarrow>
               if n = 0 then Inr (-1, s)
               else
                 let (kn, s) = wait_arm 0 0 fds s;
                     s = s\<lparr>sy_k := upd_tcb cur (\<lambda>t. t\<lparr>t_narm := kn\<rparr>) (sy_k s)\<rparr>
                 in if kn = 0 then Inr (-1, s)
                    else
                      let k = upd_tcb cur (\<lambda>t. t\<lparr>t_in_multiwait := True, t_status := TASK_BLOCKED,
                                t_delay_ticks := (if n = V_WAIT_FOREVER then 0
                                                  else v_wake_deadline n (sy_k s))\<rparr>) (sy_k s)
                      in kbind (add_to_blocked_list cur k) (\<lambda>k.
                           Inr (V_SYSCALL_BLOCKED, s\<lparr>sy_k := k\<lparr>pendsv := True\<rparr>\<rparr>)))"

definition v_wait_disarm_impl :: "'i sys \<Rightarrow> (int \<times> 'i sys) kres" where
  "v_wait_disarm_impl s =
     kbind (mwait_disarm (current_task (sy_k s)) (sy_k s)) (\<lambda>(r, k). Inr (r, s\<lparr>sy_k := k\<rparr>))"

text \<open>
  What \<open>v_wait\<close> does in the calling task once \<open>SYS_wait\<close> has returned \<open>r\<close>: either at once, or after
  the task was parked and woken with \<open>r\<close>.
\<close>

definition v_wait_return :: "int \<Rightarrow> 'i sys \<Rightarrow> (int \<times> 'i sys) kres" where
  "v_wait_return r s = (if r \<ge> 0 then Inr (r, s) else v_wait_disarm_impl s)"

subsection \<open>Teardown\<close>

definition v_ipc_task_teardown :: "(ops_id \<Rightarrow> 'i sys file_ops) \<Rightarrow> nat \<Rightarrow> 'i sys \<Rightarrow> 'i sys kres" where
  "v_ipc_task_teardown tab t s =
     kbind (ipc_teardown_waits t (sy_k s)) (\<lambda>k. v_fd_close_all tab t (s\<lparr>sy_k := k\<rparr>))"

end
