(* ===== verification/Queue_Fd.thy ===== *)
theory Queue_Fd
  imports Devfs
begin

text \<open>
  Queues behind descriptors (\<open>kernel/structure.c\<close>, from line 506 on): the registry of names, the
  open handles, and the calls a task makes on a handle.
\<close>

section \<open>Definitions\<close>

abbreviation (input) Q_REG_MAX :: nat where "Q_REG_MAX \<equiv> 8"
abbreviation (input) VAIOS_QUEUE_MAX_OPEN :: nat where "VAIOS_QUEUE_MAX_OPEN \<equiv> 4"
abbreviation (input) V_Q_RD :: nat where "V_Q_RD \<equiv> 1"
abbreviation (input) V_Q_WR :: nat where "V_Q_WR \<equiv> 2"
abbreviation (input) V_Q_EINVAL :: int where "V_Q_EINVAL \<equiv> -22"
abbreviation (input) V_Q_EBUSY :: int where "V_Q_EBUSY \<equiv> -16"

fun q_name_eq :: "string \<Rightarrow> string \<Rightarrow> bool" where
  "q_name_eq (a # as) (b # bs) = (if a = b then q_name_eq as bs else False)"
| "q_name_eq [] [] = True"
| "q_name_eq [] (b # bs) = False"
| "q_name_eq (a # as) [] = False"

fun q_scan :: "string \<Rightarrow> nat \<Rightarrow> q_entry list \<Rightarrow> nat" where
  "q_scan name i [] = 0"
| "q_scan name i (e # es) =
     (if (case qe_name e of None \<Rightarrow> False | Some n \<Rightarrow> q_name_eq n name) then i + 1 else q_scan name (i + 1) es)"

definition q_find :: "string \<Rightarrow> 'i sys \<Rightarrow> nat" where
  "q_find name s = q_scan name 0 (sy_qreg s)"

fun q_free_entry :: "nat \<Rightarrow> q_entry list \<Rightarrow> nat" where
  "q_free_entry i [] = 0"
| "q_free_entry i (e # es) = (if qe_name e = None then i + 1 else q_free_entry (i + 1) es)"

definition upd_qreg :: "nat \<Rightarrow> (q_entry \<Rightarrow> q_entry) \<Rightarrow> 'i sys \<Rightarrow> 'i sys" where
  "upd_qreg p f s = s\<lparr>sy_qreg := (sy_qreg s)[p - 1 := f (sy_qreg s ! (p - 1))]\<rparr>"

definition upd_qh :: "nat \<Rightarrow> (q_handle \<Rightarrow> q_handle) \<Rightarrow> 'i sys \<Rightarrow> 'i sys" where
  "upd_qh p f s = s\<lparr>sy_qh := (sy_qh s)[p - 1 := f (sy_qh s ! (p - 1))]\<rparr>"

text \<open>\<open>name\<close> is \<open>None\<close> for a NULL pointer; \<open>m\<close> and \<open>f\<close> are the addresses of the queues.\<close>

definition q_register :: "string option \<Rightarrow> nat \<Rightarrow> nat \<Rightarrow> 'i sys \<Rightarrow> int \<times> 'i sys" where
  "q_register name m f s =
     (case name of
        None \<Rightarrow> (V_Q_EINVAL, s)
      | Some nm \<Rightarrow>
          if nm = [] \<or> m = 0 \<and> f = 0 then (V_Q_EINVAL, s)
          else if q_find nm s \<noteq> 0 then (V_Q_EINVAL, s)
          else
            let p = q_free_entry 0 (sy_qreg s)
            in if p = 0 then (V_Q_EINVAL, s)
               else
                 let s = upd_qreg p (\<lambda>e. e\<lparr>qe_name := Some nm, qe_mpmc := m, qe_spsc := f,
                           qe_reader := False, qe_writer := False\<rparr>) s;
                     e = sy_qreg s ! (p - 1)
                 in if m \<noteq> 0 then
                      let (rd, k) = v_semaphore_create_binary_static (qe_wake_rd e) (sy_k s);
                          (wr, k) = v_semaphore_create_binary_static (qe_wake_wr e) k
                      in (VA_PASS, s\<lparr>sy_k := k, sy_mpmc := (sy_mpmc s)
                            (m := (sy_mpmc s m)\<lparr>mq_fd_wake_rd := rd, mq_fd_wake_wr := wr\<rparr>)\<rparr>)
                    else (VA_PASS, s))"

definition v_queue_register :: "string option \<Rightarrow> nat \<Rightarrow> 'i sys \<Rightarrow> int \<times> 'i sys" where
  "v_queue_register name q s = q_register name q 0 s"

definition v_queue_register_spsc :: "string option \<Rightarrow> nat \<Rightarrow> 'i sys \<Rightarrow> int \<times> 'i sys" where
  "v_queue_register_spsc name f s = q_register name 0 f s"

definition q_fd_close :: "nat \<Rightarrow> 'i sys \<Rightarrow> (int \<times> 'i sys) kres" where
  "q_fd_close p s =
     (let h = sy_qh s ! (p - 1);
          e = qh_entry h;
          s = (if e \<noteq> 0 \<and> qe_spsc (sy_qreg s ! (e - 1)) \<noteq> 0 then
                 let s = (if qh_flags h AND V_Q_RD \<noteq> 0 then upd_qreg e (\<lambda>x. x\<lparr>qe_reader := False\<rparr>) s else s)
                 in if qh_flags h AND V_Q_WR \<noteq> 0 then upd_qreg e (\<lambda>x. x\<lparr>qe_writer := False\<rparr>) s else s
               else s)
      in Inr (0, upd_qh p (\<lambda>h. h\<lparr>qh_used := False, qh_entry := 0\<rparr>) s))"

fun q_free_handle :: "nat \<Rightarrow> q_handle list \<Rightarrow> nat" where
  "q_free_handle i [] = 0"
| "q_free_handle i (h # hs) = (if \<not> qh_used h then i + 1 else q_free_handle (i + 1) hs)"

definition q_claim :: "nat \<Rightarrow> nat \<Rightarrow> nat \<Rightarrow> 'i sys \<Rightarrow> 'i sys" where
  "q_claim h e flags s =
     (let s = upd_qh h (\<lambda>x. x\<lparr>qh_used := True, qh_entry := e, qh_flags := flags mod 256\<rparr>) s
      in if qe_spsc (sy_qreg s ! (e - 1)) \<noteq> 0 then
           let s = (if flags AND V_Q_RD \<noteq> 0 then upd_qreg e (\<lambda>x. x\<lparr>qe_reader := True\<rparr>) s else s)
           in if flags AND V_Q_WR \<noteq> 0 then upd_qreg e (\<lambda>x. x\<lparr>qe_writer := True\<rparr>) s else s
         else s)"

definition v_queue_open :: "string option \<Rightarrow> nat \<Rightarrow> 'i sys \<Rightarrow> (int \<times> 'i sys) kres" where
  "v_queue_open name flags s =
     (case name of
        None \<Rightarrow> Inr (V_Q_EINVAL, s)
      | Some nm \<Rightarrow>
          if flags AND (V_Q_RD OR V_Q_WR) = 0 then Inr (V_Q_EINVAL, s)
          else
            let e = q_find nm s;
                x = sy_qreg s ! (e - 1)
            in if e = 0 then Inr (V_Q_EINVAL, s)
               else if qe_spsc x \<noteq> 0 \<and> (flags AND V_Q_RD \<noteq> 0 \<and> qe_reader x \<or> flags AND V_Q_WR \<noteq> 0 \<and> qe_writer x)
               then Inr (V_Q_EBUSY, s)
               else
                 let h = q_free_handle 0 (sy_qh s)
                 in if h = 0 then Inr (V_Q_EBUSY, s)
                    else
                      let s = q_claim h e flags s;
                          (fd, s) = v_fd_alloc Q_Fd_Ops h s
                      in if fd < 0 then kbind (q_fd_close h s) (\<lambda>(_, s). Inr (V_Q_EBUSY, s))
                         else Inr (fd, s))"

definition v_queue_elem_size :: "int \<Rightarrow> 'i sys \<Rightarrow> int" where
  "v_queue_elem_size fd s =
     (let h = v_fd_obj fd Q_Fd_Ops s;
          e = qh_entry (sy_qh s ! (h - 1));
          x = sy_qreg s ! (e - 1)
      in if h = 0 \<or> e = 0 then V_Q_EINVAL
         else
           let n = (if qe_mpmc x \<noteq> 0 then mq_elem_size (sy_mpmc s (qe_mpmc x))
                    else sf_elem_size (sy_spsc s (qe_spsc x)))
           in if n \<noteq> 0 \<and> n \<le> 0x7FFF then int n else V_Q_EINVAL)"

text \<open>One attempt to put an element in, and one to take an element out.\<close>

definition q_try_write :: "nat \<Rightarrow> u8 list \<Rightarrow> 'i sys \<Rightarrow> (int \<times> 'i sys) kres" where
  "q_try_write h item s =
     (let x = sy_qreg s ! (qh_entry (sy_qh s ! (h - 1)) - 1)
      in if qe_mpmc x \<noteq> 0 then
           kbind (mpmc_try_push item (sy_mpmc s (qe_mpmc x)) (sy_k s)) (\<lambda>(ok, q, k).
             Inr (if ok then VA_PASS else VA_FAIL, s\<lparr>sy_k := k, sy_mpmc := (sy_mpmc s)(qe_mpmc x := q)\<rparr>))
         else
           let (n, f) = spsc_write (Some (sy_spsc s (qe_spsc x))) item 1
           in Inr (if n = 1 then VA_PASS else VA_FAIL, s\<lparr>sy_spsc := (sy_spsc s)(qe_spsc x := the f)\<rparr>))"

definition q_try_read :: "nat \<Rightarrow> 'i sys \<Rightarrow> (int \<times> u8 list \<times> 'i sys) kres" where
  "q_try_read h s =
     (let x = sy_qreg s ! (qh_entry (sy_qh s ! (h - 1)) - 1)
      in if qe_mpmc x \<noteq> 0 then
           kbind (mpmc_try_pop (sy_mpmc s (qe_mpmc x)) (sy_k s)) (\<lambda>(r, q, k).
             let s = s\<lparr>sy_k := k, sy_mpmc := (sy_mpmc s)(qe_mpmc x := q)\<rparr>
             in case r of None \<Rightarrow> Inr (VA_FAIL, [], s) | Some item \<Rightarrow> Inr (VA_PASS, item, s))
         else
           let (n, item, f) = spsc_read (Some (sy_spsc s (qe_spsc x))) 1
           in Inr (if n = 1 then VA_PASS else VA_FAIL, item, s\<lparr>sy_spsc := (sy_spsc s)(qe_spsc x := the f)\<rparr>))"

definition v_queue_wait :: "int \<Rightarrow> nat \<Rightarrow> bool \<Rightarrow> 'i sys \<Rightarrow> (int \<times> 'i sys) kres" where
  "v_queue_wait fd n for_write s =
     (let h = v_fd_obj fd Q_Fd_Ops s;
          e = qh_entry (sy_qh s ! (h - 1));
          qa = qe_mpmc (sy_qreg s ! (e - 1));
          q = sy_mpmc s qa
      in if h = 0 \<or> e = 0 then Inr (V_Q_EINVAL, s)
         else if qh_flags (sy_qh s ! (h - 1)) AND (if for_write then V_Q_WR else V_Q_RD) = 0 then Inr (V_Q_EINVAL, s)
         else if qa = 0 then Inr (V_Q_EINVAL, s)
         else
           kbind (if for_write then mpmc_is_full q (sy_k s) else mpmc_is_empty q (sy_k s)) (\<lambda>(b, k).
             let s = s\<lparr>sy_k := k\<rparr>;
                 wake = (if for_write then mq_fd_wake_wr q else mq_fd_wake_rd q)
             in if \<not> b then Inr (VA_PASS, s)
                else if wake = 0 then Inr (V_Q_EINVAL, s)
                else kbind (v_semaphore_take wake n k) (\<lambda>(r, k). Inr (r, s\<lparr>sy_k := k\<rparr>))))"

text \<open>\<open>item\<close> is \<open>None\<close> for a NULL pointer, or whether the buffer of a receive is one.\<close>

definition v_queue_try_send :: "int \<Rightarrow> u8 list option \<Rightarrow> 'i sys \<Rightarrow> (int \<times> 'i sys) kres" where
  "v_queue_try_send fd item s =
     (let h = v_fd_obj fd Q_Fd_Ops s
      in case item of
           None \<Rightarrow> Inr (V_Q_EINVAL, s)
         | Some b \<Rightarrow>
             if h = 0 \<or> qh_flags (sy_qh s ! (h - 1)) AND V_Q_WR = 0 then Inr (V_Q_EINVAL, s)
             else q_try_write h b s)"

definition v_queue_try_recv :: "int \<Rightarrow> bool \<Rightarrow> 'i sys \<Rightarrow> (int \<times> u8 list \<times> 'i sys) kres" where
  "v_queue_try_recv fd buffer s =
     (let h = v_fd_obj fd Q_Fd_Ops s
      in if h = 0 \<or> \<not> buffer \<or> qh_flags (sy_qh s ! (h - 1)) AND V_Q_RD = 0 then Inr (V_Q_EINVAL, [], s)
         else q_try_read h s)"

end
