(* ===== verification/Periph_Bus.thy ===== *)
theory Periph_Bus
  imports Devfs
begin

text \<open>
  The arbiter of a shared peripheral bus (\<open>kernel/periph_bus.c\<close>): a queue of jobs by priority, jobs
  that run by DMA and end in an interrupt, locks for blocking transfers, cyclic jobs, and transfers of
  tasks through descriptors.

  The hooks of jobs and devices that the board supplies are the fields of \<open>pbus_hooks\<close>; they may change
  any state, and \<open>done\<close> may submit jobs. \<open>pri\<close> is the exception number and the interrupt priority of the
  context a call runs in. A call that sleeps in \<open>v_semaphore_take\<close> is in two parts: the one up to the
  take, which returns \<open>V_SYSCALL_BLOCKED\<close> when the task sleeps, and the one that runs when it returns.
\<close>

section \<open>Definitions\<close>

abbreviation (input) VAIOS_PBUS_MAX_LOCKERS :: nat where "VAIOS_PBUS_MAX_LOCKERS \<equiv> 4"
abbreviation (input) VAIOS_PBUS_XFER_MAX :: nat where "VAIOS_PBUS_XFER_MAX \<equiv> 64"
abbreviation (input) V_PBUS_EINVAL :: int where "V_PBUS_EINVAL \<equiv> -22"
abbreviation (input) V_PBUS_EBUSY :: int where "V_PBUS_EBUSY \<equiv> -16"
abbreviation (input) V_PBUS_ETIMEDOUT :: int where "V_PBUS_ETIMEDOUT \<equiv> -110"

record 's pbus_hooks =
  hk_start :: "nat \<Rightarrow> nat \<Rightarrow> 's \<Rightarrow> int \<times> 's"
  hk_done :: "nat \<Rightarrow> nat \<Rightarrow> int \<Rightarrow> 's \<Rightarrow> 's kres"
  hk_xfer :: "nat \<Rightarrow> nat \<Rightarrow> 's \<Rightarrow> int \<times> 's"
  hk_dev_xfer :: "nat \<Rightarrow> nat \<Rightarrow> nat \<Rightarrow> 's \<Rightarrow> int \<times> 's"

abbreviation jobs :: "'i sys \<Rightarrow> nat \<Rightarrow> pbus_job" where "jobs s \<equiv> pb_jobs (sy_pb s)"
abbreviation buses :: "'i sys \<Rightarrow> nat \<Rightarrow> pbus" where "buses s \<equiv> pb_buses (sy_pb s)"
abbreviation slots :: "'i sys \<Rightarrow> lock_slot list" where "slots s \<equiv> lock_slots (sy_pb s)"
abbreviation handles :: "'i sys \<Rightarrow> pbus_handle list" where "handles s \<equiv> pbus_handles (sy_pb s)"

definition upd_job :: "nat \<Rightarrow> (pbus_job \<Rightarrow> pbus_job) \<Rightarrow> 'i sys \<Rightarrow> 'i sys" where
  "upd_job j f s = s\<lparr>sy_pb := (sy_pb s)\<lparr>pb_jobs := (jobs s)(j := f (jobs s j))\<rparr>\<rparr>"

definition upd_bus :: "nat \<Rightarrow> (pbus \<Rightarrow> pbus) \<Rightarrow> 'i sys \<Rightarrow> 'i sys" where
  "upd_bus b f s = s\<lparr>sy_pb := (sy_pb s)\<lparr>pb_buses := (buses s)(b := f (buses s b))\<rparr>\<rparr>"

definition upd_slot :: "nat \<Rightarrow> (lock_slot \<Rightarrow> lock_slot) \<Rightarrow> 'i sys \<Rightarrow> 'i sys" where
  "upd_slot i f s = s\<lparr>sy_pb := (sy_pb s)\<lparr>lock_slots := (slots s)[i := f (slots s ! i)]\<rparr>\<rparr>"

definition upd_handle :: "nat \<Rightarrow> (pbus_handle \<Rightarrow> pbus_handle) \<Rightarrow> 'i sys \<Rightarrow> 'i sys" where
  "upd_handle h f s = s\<lparr>sy_pb := (sy_pb s)\<lparr>pbus_handles := (handles s)[h - 1 := f (handles s ! (h - 1))]\<rparr>\<rparr>"

abbreviation handle_of :: "'i sys \<Rightarrow> nat \<Rightarrow> pbus_handle" where "handle_of s h \<equiv> handles s ! (h - 1)"
abbreviation dev_of :: "'i sys \<Rightarrow> nat \<Rightarrow> pbus_dev" where "dev_of s h \<equiv> pbus_devs (sy_pb s) ! (ph_dev (handle_of s h) - 1)"

subsection \<open>The queue\<close>

text \<open>
  The pointer-to-pointer walks: \<open>prv\<close> is the job whose link \<open>pp\<close> is, 0 for the queue of the bus, and
  \<open>cur\<close> is \<open>*pp\<close>.
\<close>

partial_function (option) queue_pos :: "(nat \<Rightarrow> pbus_job) \<Rightarrow> nat \<Rightarrow> nat \<Rightarrow> nat \<Rightarrow> (nat \<times> nat) option" where
  "queue_pos J pr prv cur =
     (if cur \<noteq> 0 \<and> pj_prio (J cur) \<ge> pr then queue_pos J pr cur (pj_next (J cur)) else Some (prv, cur))"

declare queue_pos.simps [code]

definition pbus_enqueue :: "nat \<Rightarrow> nat \<Rightarrow> 'i sys \<Rightarrow> 'i sys kres" where
  "pbus_enqueue bus job s =
     kbind (walk_end (queue_pos (jobs s) (pj_prio (jobs s job)) 0 (pb_queue (buses s bus)))) (\<lambda>(prv, cur).
       let s = upd_job job (\<lambda>j. j\<lparr>pj_next := cur\<rparr>) s;
           s = (if prv = 0 then upd_bus bus (\<lambda>b. b\<lparr>pb_queue := job\<rparr>) s
                else upd_job prv (\<lambda>j. j\<lparr>pj_next := job\<rparr>) s)
       in Inr (upd_job job (\<lambda>j. j\<lparr>pj_state := JOB_QUEUED\<rparr>) s))"

partial_function (option) queue_seek :: "(nat \<Rightarrow> pbus_job) \<Rightarrow> nat \<Rightarrow> nat \<Rightarrow> nat \<Rightarrow> (nat \<times> nat) option" where
  "queue_seek J job prv cur =
     (if cur \<noteq> 0 \<and> cur \<noteq> job then queue_seek J job cur (pj_next (J cur)) else Some (prv, cur))"

declare queue_seek.simps [code]

definition pbus_unqueue :: "nat \<Rightarrow> nat \<Rightarrow> 'i sys \<Rightarrow> (bool \<times> 'i sys) kres" where
  "pbus_unqueue bus job s =
     kbind (walk_end (queue_seek (jobs s) job 0 (pb_queue (buses s bus)))) (\<lambda>(prv, cur).
       if cur = 0 then Inr (False, s)
       else
         let s = (if prv = 0 then upd_bus bus (\<lambda>b. b\<lparr>pb_queue := pj_next (jobs s job)\<rparr>) s
                  else upd_job prv (\<lambda>j. j\<lparr>pj_next := pj_next (jobs s job)\<rparr>) s)
         in Inr (True, upd_job job (\<lambda>j. j\<lparr>pj_state := JOB_IDLE\<rparr>) s))"

subsection \<open>The hooks of a job\<close>

definition handle_start :: "'i sys pbus_hooks \<Rightarrow> nat \<Rightarrow> 'i sys \<Rightarrow> int \<times> 'i sys" where
  "handle_start hk job s =
     (let h = pj_arg (jobs s job);
          d = dev_of s h
      in if pd_dev_start d \<noteq> 0 then hk_dev_xfer hk (pd_dev_start d) (pd_ctx d) h s
         else hk_xfer hk (pd_start d) h s)"

definition handle_done :: "nat \<times> nat \<Rightarrow> nat \<Rightarrow> int \<Rightarrow> 'i sys \<Rightarrow> 'i sys kres" where
  "handle_done pri job rc s =
     (let h = pj_arg (jobs s job);
          s = upd_handle h (\<lambda>x. x\<lparr>ph_rc := rc\<rparr>) s
      in if ph_orphan (handle_of s h) then
           Inr (upd_handle h (\<lambda>x. x\<lparr>ph_used := False\<rparr>) (upd_handle h (\<lambda>x. x\<lparr>ph_orphan := False\<rparr>) s))
         else give_and_pend pri (ph_done (handle_of s h)) s)"

definition job_start :: "'i sys pbus_hooks \<Rightarrow> nat \<Rightarrow> 'i sys \<Rightarrow> (int \<times> 'i sys) kres" where
  "job_start hk job s =
     (case pj_start (jobs s job) of
        None \<Rightarrow> Inl K_Undef
      | Some Handle_Start \<Rightarrow> Inr (handle_start hk job s)
      | Some (App_Start f) \<Rightarrow> Inr (hk_start hk f job s))"

definition job_done :: "nat \<times> nat \<Rightarrow> 'i sys pbus_hooks \<Rightarrow> nat \<Rightarrow> int \<Rightarrow> 'i sys \<Rightarrow> 'i sys kres" where
  "job_done pri hk job rc s =
     (case pj_done (jobs s job) of
        None \<Rightarrow> Inr s
      | Some Handle_Done \<Rightarrow> handle_done pri job rc s
      | Some (App_Done f) \<Rightarrow> hk_done hk f job rc s)"

subsection \<open>Release and dispatch\<close>

definition pbus_release :: "nat \<times> nat \<Rightarrow> 'i sys pbus_hooks \<Rightarrow> nat \<Rightarrow> int \<Rightarrow> 'i sys \<Rightarrow> (bool \<times> 'i sys) kres" where
  "pbus_release pri hk bus rc s =
     (let job = pb_active (buses s bus);
          s = upd_bus bus (\<lambda>b. b\<lparr>pb_active := 0\<rparr>) s;
          s = (if job \<noteq> 0 then upd_job job (\<lambda>j. j\<lparr>pj_state := JOB_IDLE\<rparr>) s else s)
      in if job = 0 then Inr (False, s)
         else kbind (job_done pri hk job rc s) (\<lambda>s. Inr (True, s)))"

partial_function (option) pbus_dispatch ::
    "nat \<times> nat \<Rightarrow> 'i sys pbus_hooks \<Rightarrow> nat \<Rightarrow> 'i sys \<Rightarrow> 'i sys kres option" where
  "pbus_dispatch pri hk bus s =
     (let job = (if pb_active (buses s bus) \<noteq> 0 \<or> pb_locked (buses s bus) then 0 else pb_queue (buses s bus))
      in if job = 0 then Some (Inr s)
         else
           let s = upd_bus bus (\<lambda>b. b\<lparr>pb_queue := pj_next (jobs s job)\<rparr>) s;
               s = upd_job job (\<lambda>j. j\<lparr>pj_state := JOB_ACTIVE\<rparr>) s
           in if pj_grant (jobs s job) \<noteq> 0 then
                let s = upd_bus bus (\<lambda>b. b\<lparr>pb_locked := True\<rparr>) s
                in Some (give_and_pend pri (pj_grant (jobs s job)) s)
              else
                case job_start hk job (upd_bus bus (\<lambda>b. b\<lparr>pb_active := job\<rparr>) s) of
                  Inl e \<Rightarrow> Some (Inl e)
                | Inr (rc, s) \<Rightarrow>
                    if rc \<ge> 0 then Some (Inr s)
                    else case pbus_release pri hk bus rc s of
                           Inl e \<Rightarrow> Some (Inl e)
                         | Inr (_, s) \<Rightarrow> pbus_dispatch pri hk bus s)"

declare pbus_dispatch.simps [code]

definition dispatch_end :: "'a kres option \<Rightarrow> 'a kres" where
  "dispatch_end m = kbind (walk_end m) (\<lambda>r. r)"

definition v_pbus_submit ::
    "nat \<times> nat \<Rightarrow> 'i sys pbus_hooks \<Rightarrow> nat \<Rightarrow> nat \<Rightarrow> 'i sys \<Rightarrow> (int \<times> 'i sys) kres" where
  "v_pbus_submit pri hk bus job s =
     (if bus = 0 \<or> job = 0 \<or> pj_start (jobs s job) = None then Inr (VA_FAIL, s)
      else if pj_state (jobs s job) \<noteq> JOB_IDLE then Inr (VA_FAIL, s)
      else kbind (pbus_enqueue bus job (upd_job job (\<lambda>j. j\<lparr>pj_grant := 0\<rparr>) s)) (\<lambda>s.
           kbind (dispatch_end (pbus_dispatch pri hk bus s)) (\<lambda>s. Inr (VA_PASS, s))))"

definition v_pbus_done_isr :: "nat \<times> nat \<Rightarrow> 'i sys pbus_hooks \<Rightarrow> nat \<Rightarrow> int \<Rightarrow> 'i sys \<Rightarrow> 'i sys kres" where
  "v_pbus_done_isr pri hk bus rc s =
     kbind (pbus_release pri hk bus rc s) (\<lambda>(_, s). dispatch_end (pbus_dispatch pri hk bus s))"

definition v_pbus_abort_isr :: "nat \<times> nat \<Rightarrow> 'i sys pbus_hooks \<Rightarrow> nat \<Rightarrow> int \<Rightarrow> 'i sys \<Rightarrow> (int \<times> 'i sys) kres" where
  "v_pbus_abort_isr pri hk bus rc s =
     (if bus = 0 then Inr (VA_FAIL, s)
      else kbind (pbus_release pri hk bus rc s) (\<lambda>(active, s).
        if \<not> active then Inr (VA_FAIL, s)
        else kbind (dispatch_end (pbus_dispatch pri hk bus s)) (\<lambda>s. Inr (VA_PASS, s))))"

subsection \<open>Locks\<close>

fun free_slot :: "nat \<Rightarrow> lock_slot list \<Rightarrow> nat option" where
  "free_slot i [] = None"
| "free_slot i (x # xs) = (if sl_bus x = 0 then Some i else free_slot (i + 1) xs)"

definition lock_return :: "nat \<Rightarrow> nat \<Rightarrow> int \<Rightarrow> 'i sys \<Rightarrow> (int \<times> 'i sys) kres" where
  "lock_return bus i taken s =
     (if taken = VA_PASS then Inr (VA_PASS, s)
      else if pj_state (jobs s (sl_job (slots s ! i))) = JOB_ACTIVE then Inr (VA_PASS, s)
      else kbind (pbus_unqueue bus (sl_job (slots s ! i)) s) (\<lambda>(_, s).
           Inr (VA_FAIL, upd_slot i (\<lambda>x. x\<lparr>sl_bus := 0\<rparr>) s)))"

text \<open>The result carries the slot the task sleeps with, for \<open>lock_return\<close>.\<close>

definition v_pbus_lock ::
    "nat \<times> nat \<Rightarrow> 'i sys pbus_hooks \<Rightarrow> nat \<Rightarrow> nat \<Rightarrow> nat \<Rightarrow> 'i sys \<Rightarrow> (int \<times> nat \<times> 'i sys) kres" where
  "v_pbus_lock pri hk bus pr ticks_to_wait s =
     (if bus = 0 then Inr (VA_FAIL, 0, s)
      else case free_slot 0 (slots s) of
        None \<Rightarrow> Inr (VA_FAIL, 0, s)
      | Some i \<Rightarrow>
          let s = upd_slot i (\<lambda>x. x\<lparr>sl_bus := bus, sl_owner := get_current_task (sy_k s)\<rparr>) s;
              job = sl_job (slots s ! i);
              s = upd_job job (\<lambda>j. j\<lparr>pj_state := JOB_IDLE\<rparr>) s;
              s = upd_job job (\<lambda>_. NO_JOB\<lparr>pj_prio := pr\<rparr>) s;
              (grant, k) = v_semaphore_create_binary_static (sl_sem (slots s ! i)) (sy_k s);
              s = upd_job job (\<lambda>j. j\<lparr>pj_grant := grant\<rparr>) (s\<lparr>sy_k := k\<rparr>)
          in kbind (pbus_enqueue bus job s) (\<lambda>s.
             kbind (dispatch_end (pbus_dispatch pri hk bus s)) (\<lambda>s.
             kbind (v_semaphore_take (pj_grant (jobs s job)) ticks_to_wait (sy_k s)) (\<lambda>(r, k).
               let s = s\<lparr>sy_k := k\<rparr>
               in if r = V_SYSCALL_BLOCKED then Inr (r, i, s)
                  else kbind (lock_return bus i r s) (\<lambda>(r, s). Inr (r, i, s))))))"

definition drop_slot :: "nat \<Rightarrow> 'i sys \<Rightarrow> (bool \<times> 'i sys) kres" where
  "drop_slot i s =
     (let x = slots s ! i;
          held = (pj_state (jobs s (sl_job x)) = JOB_ACTIVE)
      in kbind (if pj_state (jobs s (sl_job x)) = JOB_QUEUED then pbus_unqueue (sl_bus x) (sl_job x) s
                else Inr (False, s)) (\<lambda>(_, s).
           let s = (if held then upd_bus (sl_bus x) (\<lambda>b. b\<lparr>pb_locked := False\<rparr>) s else s);
               s = upd_job (sl_job x) (\<lambda>j. j\<lparr>pj_state := JOB_IDLE\<rparr>) s
           in Inr (held, upd_slot i (\<lambda>x. x\<lparr>sl_bus := 0\<rparr>) s)))"

text \<open>The loop of \<open>v_pbus_unlock\<close> over the slots; it ends at the first slot that was held.\<close>

fun unlock_scan :: "nat \<Rightarrow> nat \<Rightarrow> nat list \<Rightarrow> 'i sys \<Rightarrow> (bool \<times> 'i sys) kres" where
  "unlock_scan bus me [] s = Inr (False, s)"
| "unlock_scan bus me (i # is) s =
     (let x = slots s ! i
      in if sl_bus x = bus \<and> sl_owner x = me \<and> pj_state (jobs s (sl_job x)) = JOB_ACTIVE then
           kbind (drop_slot i s) (\<lambda>(held, s). if held then Inr (True, s) else unlock_scan bus me is s)
         else unlock_scan bus me is s)"

definition v_pbus_unlock :: "nat \<times> nat \<Rightarrow> 'i sys pbus_hooks \<Rightarrow> nat \<Rightarrow> 'i sys \<Rightarrow> 'i sys kres" where
  "v_pbus_unlock pri hk bus s =
     (if bus = 0 then Inr s
      else kbind (unlock_scan bus (get_current_task (sy_k s)) [0..<length (slots s)] s) (\<lambda>(held, s).
        if held then dispatch_end (pbus_dispatch pri hk bus s) else Inr s))"

fun pbus_teardown_from :: "nat \<times> nat \<Rightarrow> 'i sys pbus_hooks \<Rightarrow> nat \<Rightarrow> nat list \<Rightarrow> 'i sys \<Rightarrow> 'i sys kres" where
  "pbus_teardown_from pri hk t [] s = Inr s"
| "pbus_teardown_from pri hk t (i # is) s =
     (let bus = (if sl_owner (slots s ! i) = t then sl_bus (slots s ! i) else 0)
      in kbind (if bus \<noteq> 0 then drop_slot i s else Inr (False, s)) (\<lambda>(held, s).
         kbind (if held then dispatch_end (pbus_dispatch pri hk bus s) else Inr s)
           (pbus_teardown_from pri hk t is)))"

definition v_pbus_task_teardown :: "nat \<times> nat \<Rightarrow> 'i sys pbus_hooks \<Rightarrow> nat \<Rightarrow> 'i sys \<Rightarrow> 'i sys kres" where
  "v_pbus_task_teardown pri hk t s = pbus_teardown_from pri hk t [0..<length (slots s)] s"

subsection \<open>Cyclic jobs\<close>

partial_function (option) cyc_has :: "(nat \<Rightarrow> pbus_job) \<Rightarrow> nat \<Rightarrow> nat \<Rightarrow> bool option" where
  "cyc_has J job j =
     (if j = 0 then Some False else if j = job then Some True else cyc_has J job (pj_cyc_next (J j)))"

declare cyc_has.simps [code]

definition v_pbus_cyclic_add :: "nat \<Rightarrow> nat \<Rightarrow> 'i sys \<Rightarrow> (int \<times> 'i sys) kres" where
  "v_pbus_cyclic_add bus job s =
     (if bus = 0 \<or> job = 0 \<or> pj_start (jobs s job) = None \<or> pj_period (jobs s job) = 0 then Inr (VA_FAIL, s)
      else kbind (walk_end (cyc_has (jobs s) job (pb_cyclic (buses s bus)))) (\<lambda>found.
        if found then Inr (VA_FAIL, s)
        else
          let s = upd_job job (\<lambda>j. j\<lparr>pj_countdown := pj_period j\<rparr>) s;
              s = upd_job job (\<lambda>j. j\<lparr>pj_cyc_next := pb_cyclic (buses s bus)\<rparr>) s
          in Inr (VA_PASS, upd_bus bus (\<lambda>b. b\<lparr>pb_cyclic := job\<rparr>) s)))"

partial_function (option) cyc_seek :: "(nat \<Rightarrow> pbus_job) \<Rightarrow> nat \<Rightarrow> nat \<Rightarrow> nat \<Rightarrow> (nat \<times> nat) option" where
  "cyc_seek J job prv cur =
     (if cur \<noteq> 0 \<and> cur \<noteq> job then cyc_seek J job cur (pj_cyc_next (J cur)) else Some (prv, cur))"

declare cyc_seek.simps [code]

definition v_pbus_cyclic_remove :: "nat \<Rightarrow> nat \<Rightarrow> 'i sys \<Rightarrow> 'i sys kres" where
  "v_pbus_cyclic_remove bus job s =
     (if bus = 0 \<or> job = 0 then Inr s
      else kbind (walk_end (cyc_seek (jobs s) job 0 (pb_cyclic (buses s bus)))) (\<lambda>(prv, cur).
        Inr (if cur = 0 then s
             else if prv = 0 then upd_bus bus (\<lambda>b. b\<lparr>pb_cyclic := pj_cyc_next (jobs s job)\<rparr>) s
             else upd_job prv (\<lambda>j. j\<lparr>pj_cyc_next := pj_cyc_next (jobs s job)\<rparr>) s)))"

partial_function (option) pbus_tick ::
    "nat \<times> nat \<Rightarrow> 'i sys pbus_hooks \<Rightarrow> nat \<Rightarrow> nat \<Rightarrow> 'i sys \<Rightarrow> 'i sys kres option" where
  "pbus_tick pri hk bus job s =
     (if job = 0 then Some (Inr s)
      else
        let s = upd_job job (\<lambda>j. j\<lparr>pj_countdown := pj_countdown j - 1\<rparr>) s
        in if pj_countdown (jobs s job) \<noteq> 0 then pbus_tick pri hk bus (pj_cyc_next (jobs s job)) s
           else
             case v_pbus_submit pri hk bus job (upd_job job (\<lambda>j. j\<lparr>pj_countdown := pj_period j\<rparr>) s) of
               Inl e \<Rightarrow> Some (Inl e)
             | Inr (r, s) \<Rightarrow>
                 let s = (if r \<noteq> VA_PASS then upd_bus bus (\<lambda>b. b\<lparr>pb_overruns := pb_overruns b + 1\<rparr>) s else s)
                 in pbus_tick pri hk bus (pj_cyc_next (jobs s job)) s)"

declare pbus_tick.simps [code]

definition v_pbus_tick_isr :: "nat \<times> nat \<Rightarrow> 'i sys pbus_hooks \<Rightarrow> nat \<Rightarrow> 'i sys \<Rightarrow> 'i sys kres" where
  "v_pbus_tick_isr pri hk bus s = dispatch_end (pbus_tick pri hk bus (pb_cyclic (buses s bus)) s)"

subsection \<open>DMA streams\<close>

definition v_dma_claim :: "nat \<Rightarrow> nat \<Rightarrow> nat \<Rightarrow> 'i sys \<Rightarrow> int \<times> 'i sys" where
  "v_dma_claim controller stream who s =
     (if controller < 1 \<or> controller > 2 \<or> stream > 7 \<or> who = 0 then (VA_FAIL, s)
      else
        let cur = dma_owner (sy_pb s) (controller - 1) stream
        in if cur = 0 \<or> cur = who
           then (VA_PASS, s\<lparr>sy_pb := (sy_pb s)\<lparr>dma_owner := (dma_owner (sy_pb s))
                  (controller - 1 := (dma_owner (sy_pb s) (controller - 1))(stream := who))\<rparr>\<rparr>)
           else (VA_FAIL, s))"

subsection \<open>Devices\<close>

fun pbus_name_eq :: "string \<Rightarrow> string \<Rightarrow> bool" where
  "pbus_name_eq (a # as) (b # bs) = (if a = b then pbus_name_eq as bs else False)"
| "pbus_name_eq [] [] = True"
| "pbus_name_eq [] (b # bs) = False"
| "pbus_name_eq (a # as) [] = False"

fun dev_add :: "pbus_dev \<Rightarrow> string \<Rightarrow> pbus_dev list \<Rightarrow> int \<times> pbus_dev list" where
  "dev_add d name [] = (V_PBUS_EBUSY, [])"
| "dev_add d name (x # xs) =
     (case pd_name x of
        None \<Rightarrow> (0, d # xs)
      | Some n \<Rightarrow>
          if pbus_name_eq n name then (V_PBUS_EINVAL, x # xs)
          else let (r, ys) = dev_add d name xs in (r, x # ys))"

definition v_pbus_register :: "string option \<Rightarrow> nat \<Rightarrow> nat \<Rightarrow> 'i sys \<Rightarrow> int \<times> 'i sys" where
  "v_pbus_register name bus start s =
     (if name = None \<or> bus = 0 \<or> start = 0 then (V_PBUS_EINVAL, s)
      else
        let (r, ds) = dev_add \<lparr>pd_name = name, pd_bus = bus, pd_start = start, pd_dev_start = 0, pd_ctx = 0, pd_addr = 0\<rparr>
                        (the name) (pbus_devs (sy_pb s))
        in (r, s\<lparr>sy_pb := (sy_pb s)\<lparr>pbus_devs := ds\<rparr>\<rparr>))"

definition v_pdev_register :: "string option \<Rightarrow> nat \<Rightarrow> nat \<Rightarrow> nat \<Rightarrow> nat \<Rightarrow> 'i sys \<Rightarrow> int \<times> 'i sys" where
  "v_pdev_register name bus start ctx addr s =
     (if name = None \<or> bus = 0 \<or> start = 0 then (V_PBUS_EINVAL, s)
      else
        let (r, ds) = dev_add \<lparr>pd_name = name, pd_bus = bus, pd_start = 0, pd_dev_start = start, pd_ctx = ctx, pd_addr = addr\<rparr>
                        (the name) (pbus_devs (sy_pb s))
        in (r, s\<lparr>sy_pb := (sy_pb s)\<lparr>pbus_devs := ds\<rparr>\<rparr>))"

fun pdev_scan :: "string \<Rightarrow> nat \<Rightarrow> pbus_dev list \<Rightarrow> nat" where
  "pdev_scan name i [] = 0"
| "pdev_scan name i (x # xs) =
     (case pd_name x of
        None \<Rightarrow> pdev_scan name (i + 1) xs
      | Some n \<Rightarrow> if pbus_name_eq n name then i + 1 else pdev_scan name (i + 1) xs)"

fun handle_scan :: "nat \<Rightarrow> pbus_handle list \<Rightarrow> nat" where
  "handle_scan i [] = 0"
| "handle_scan i (x # xs) = (if \<not> ph_used x then i + 1 else handle_scan (i + 1) xs)"

subsection \<open>User handles\<close>

definition handle_close :: "nat \<Rightarrow> 'i sys \<Rightarrow> (int \<times> 'i sys) kres" where
  "handle_close h s =
     (let job = ph_job (handle_of s h)
      in kbind (if pj_state (jobs s job) = JOB_QUEUED then pbus_unqueue (pd_bus (dev_of s h)) job s
                else Inr (False, s)) (\<lambda>(_, s).
           let s = upd_handle h (\<lambda>x. x\<lparr>ph_submitted := False\<rparr>) s
           in Inr (0, if pj_state (jobs s job) = JOB_ACTIVE then upd_handle h (\<lambda>x. x\<lparr>ph_orphan := True\<rparr>) s
                      else upd_handle h (\<lambda>x. x\<lparr>ph_used := False\<rparr>) s)))"

definition v_pbus_open :: "string \<Rightarrow> 'i sys \<Rightarrow> int \<times> 'i sys" where
  "v_pbus_open name s =
     (let dev = pdev_scan name 0 (pbus_devs (sy_pb s))
      in if dev = 0 then (V_PBUS_EINVAL, s)
         else
           let h = handle_scan 0 (handles s)
           in if h = 0 then (V_PBUS_EBUSY, s)
              else
                let s = upd_handle h (\<lambda>x. x\<lparr>ph_used := True\<rparr>) s;
                    s = upd_handle h (\<lambda>x. x\<lparr>ph_dev := dev\<rparr>) s;
                    s = upd_job (ph_job (handle_of s h))
                          (\<lambda>_. NO_JOB\<lparr>pj_start := Some Handle_Start, pj_done := Some Handle_Done, pj_arg := h\<rparr>) s;
                    s = upd_handle h (\<lambda>x. x\<lparr>ph_submitted := False, ph_orphan := False\<rparr>) s;
                    (fd, s) = v_fd_alloc Pbus_Ops h s
                in (fd, if fd < 0 then upd_handle h (\<lambda>x. x\<lparr>ph_used := False\<rparr>) s else s))"

text \<open>
  The transfer a task asks for, with the bytes at its \<open>tx\<close> pointer (\<open>None\<close> for NULL).
\<close>

definition v_pbus_xfer_submit ::
    "nat \<times> nat \<Rightarrow> 'i sys pbus_hooks \<Rightarrow> int \<Rightarrow> (pbus_xfer \<times> u8 list option) option \<Rightarrow> nat \<Rightarrow> 'i sys \<Rightarrow> (int \<times> 'i sys) kres" where
  "v_pbus_xfer_submit pri hk fd xp pr s =
     (let h = v_fd_obj fd Pbus_Ops s
      in case xp of
        None \<Rightarrow> Inr (V_PBUS_EINVAL, s)
      | Some (x, tx) \<Rightarrow>
          if h = 0 \<or> xf_tx_len x > VAIOS_PBUS_XFER_MAX \<or> xf_rx_len x > VAIOS_PBUS_XFER_MAX \<or>
             xf_tx_len x \<noteq> 0 \<and> tx = None then Inr (V_PBUS_EINVAL, s)
          else if ph_submitted (handle_of s h) \<or> pj_state (jobs s (ph_job (handle_of s h))) \<noteq> JOB_IDLE
          then Inr (V_PBUS_EBUSY, s)
          else
            let s = (if xf_tx_len x \<noteq> 0
                     then upd_handle h (\<lambda>y. y\<lparr>ph_tx := memcpy_into (ph_tx y) 0 (take (xf_tx_len x) (the tx))\<rparr>) s else s);
                s = upd_handle h (\<lambda>y. y\<lparr>ph_x := x\<lparr>xf_addr := if pd_dev_start (dev_of s h) \<noteq> 0 then pd_addr (dev_of s h)
                                                           else xf_addr x\<rparr>\<rparr>) s;
                (d, k) = v_semaphore_create_binary_static (ph_done_buf (handle_of s h)) (sy_k s);
                s = upd_handle h (\<lambda>y. y\<lparr>ph_done := d, ph_rc := 0\<rparr>) (s\<lparr>sy_k := k\<rparr>);
                s = upd_job (ph_job (handle_of s h)) (\<lambda>j. j\<lparr>pj_prio := pr\<rparr>) s;
                s = upd_handle h (\<lambda>y. y\<lparr>ph_submitted := True\<rparr>) s
            in kbind (v_pbus_submit pri hk (pd_bus (dev_of s h)) (ph_job (handle_of s h)) s) (\<lambda>(r, s).
                 Inr (if r \<noteq> VA_PASS then (V_PBUS_EBUSY, upd_handle h (\<lambda>y. y\<lparr>ph_submitted := False\<rparr>) s) else (0, s))))"

definition v_pbus_xfer_wait :: "int \<Rightarrow> nat \<Rightarrow> 'i sys \<Rightarrow> (int \<times> 'i sys) kres" where
  "v_pbus_xfer_wait fd ticks_to_wait s =
     (let h = v_fd_obj fd Pbus_Ops s
      in if h = 0 \<or> \<not> ph_submitted (handle_of s h) then Inr (V_PBUS_EINVAL, s)
         else kbind (v_semaphore_take (ph_done (handle_of s h)) ticks_to_wait (sy_k s)) (\<lambda>(r, k). Inr (r, s\<lparr>sy_k := k\<rparr>)))"

text \<open>The bytes stored at \<open>rx\<close>, which is NULL when \<open>rx\<close> is false.\<close>

definition v_pbus_xfer_finish :: "int \<Rightarrow> bool \<Rightarrow> nat \<Rightarrow> 'i sys \<Rightarrow> (int \<times> u8 list \<times> 'i sys) kres" where
  "v_pbus_xfer_finish fd rx rx_len s =
     (let h = v_fd_obj fd Pbus_Ops s
      in if h = 0 \<or> \<not> ph_submitted (handle_of s h) then Inr (V_PBUS_EINVAL, [], s)
         else
           let job = ph_job (handle_of s h);
               state = pj_state (jobs s job)
           in kbind (if state = JOB_QUEUED then pbus_unqueue (pd_bus (dev_of s h)) job s else Inr (False, s)) (\<lambda>(_, s).
              let s = upd_handle h (\<lambda>y. y\<lparr>ph_submitted := False\<rparr>) s
              in Inr (if state = JOB_QUEUED then (V_PBUS_ETIMEDOUT, [], s)
                      else if state = JOB_ACTIVE then (V_PBUS_EBUSY, [], s)
                      else
                        let n = (if rx_len < xf_rx_len (ph_x (handle_of s h)) then rx_len else xf_rx_len (ph_x (handle_of s h)))
                        in (ph_rc (handle_of s h), if n \<noteq> 0 \<and> rx then take n (ph_rx (handle_of s h)) else [], s))))"

text \<open>\<open>rest\<close> is what happens in the system while the task sleeps.\<close>

definition v_pbus_xfer_task ::
    "nat \<times> nat \<Rightarrow> 'i sys pbus_hooks \<Rightarrow> ('i sys \<Rightarrow> 'i sys) \<Rightarrow> int \<Rightarrow> pbus_xfer \<Rightarrow> u8 list option \<Rightarrow> bool \<Rightarrow> nat \<Rightarrow> nat \<Rightarrow>
      'i sys \<Rightarrow> (int \<times> u8 list \<times> 'i sys) kres" where
  "v_pbus_xfer_task pri hk rest fd x tx rx pr ticks_to_wait s =
     kbind (v_pbus_xfer_submit pri hk fd (Some (x, tx)) pr s) (\<lambda>(rc, s).
       if rc < 0 then Inr (rc, [], s)
       else kbind (v_pbus_xfer_wait fd ticks_to_wait s) (\<lambda>(r, s).
         v_pbus_xfer_finish fd rx (xf_rx_len x) (if r = V_SYSCALL_BLOCKED then rest s else s)))"

definition v_pdev_write_reg ::
    "nat \<times> nat \<Rightarrow> 'i sys pbus_hooks \<Rightarrow> ('i sys \<Rightarrow> 'i sys) \<Rightarrow> int \<Rightarrow> u8 \<Rightarrow> u8 list option \<Rightarrow> nat \<Rightarrow> nat \<Rightarrow> nat \<Rightarrow>
      'i sys \<Rightarrow> (int \<times> u8 list \<times> 'i sys) kres" where
  "v_pdev_write_reg pri hk rest fd reg buf n pr ticks_to_wait s =
     (if n \<ge> VAIOS_PBUS_XFER_MAX \<or> n \<noteq> 0 \<and> buf = None then Inr (V_PBUS_EINVAL, [], s)
      else v_pbus_xfer_task pri hk rest fd \<lparr>xf_addr = 0, xf_flags = 0, xf_tx_len = n + 1, xf_rx_len = 0\<rparr>
             (Some (reg # (if n = 0 then [] else take n (the buf)))) False pr ticks_to_wait s)"

end
