(* ===== verification/Vfile.thy ===== *)
theory Vfile
  imports Ipc_Fd Queue_Fd Periph_Bus
begin

text \<open>
  The op-tables of the kernel: \<open>console_ops\<close>, \<open>kmsg_ops\<close> and \<open>capture_ops\<close> of \<open>devfs.c\<close>, \<open>ipc_sem_ops\<close>
  and \<open>ipc_mtx_ops\<close> of \<open>ipc.c\<close>, \<open>q_fd_ops\<close> of \<open>structure.c\<close>, \<open>pbus_ops\<close> of \<open>periph_bus.c\<close>; \<open>app\<close> are the tables of other code.
\<close>

definition no_ops :: "'s file_ops" where
  "no_ops = \<lparr>fo_read = None, fo_write = None, fo_close = None, fo_open = None, fo_wait = None\<rparr>"

definition console_ops :: "'i sys file_ops" where
  "console_ops = no_ops\<lparr>fo_read := Some console_read, fo_write := Some console_write, fo_wait := Some console_wait\<rparr>"

definition kmsg_ops :: "'i sys file_ops" where
  "kmsg_ops = no_ops\<lparr>fo_read := Some kmsg_dev_read\<rparr>"

definition capture_ops :: "'i index_ops \<Rightarrow> heap_cfg \<Rightarrow> 'i sys file_ops" where
  "capture_ops iops cfg = no_ops\<lparr>fo_read := Some capture_read, fo_write := Some (capture_write iops cfg)\<rparr>"

definition ipc_sem_ops :: "'i sys file_ops" where
  "ipc_sem_ops = no_ops\<lparr>fo_close := Some ipc_sem_close\<rparr>"

definition ipc_mtx_ops :: "'i sys file_ops" where
  "ipc_mtx_ops = no_ops\<lparr>fo_close := Some ipc_mtx_close\<rparr>"

definition q_fd_ops :: "'i sys file_ops" where
  "q_fd_ops = no_ops\<lparr>fo_close := Some q_fd_close\<rparr>"

definition pbus_ops :: "'i sys file_ops" where
  "pbus_ops = no_ops\<lparr>fo_close := Some handle_close\<rparr>"

fun ops_tab :: "'i index_ops \<Rightarrow> heap_cfg \<Rightarrow> (nat \<Rightarrow> 'i sys file_ops) \<Rightarrow> ops_id \<Rightarrow> 'i sys file_ops" where
  "ops_tab iops cfg app Console_Ops = console_ops"
| "ops_tab iops cfg app Kmsg_Ops = kmsg_ops"
| "ops_tab iops cfg app Capture_Ops = capture_ops iops cfg"
| "ops_tab iops cfg app Ipc_Sem_Ops = ipc_sem_ops"
| "ops_tab iops cfg app Ipc_Mtx_Ops = ipc_mtx_ops"
| "ops_tab iops cfg app Q_Fd_Ops = q_fd_ops"
| "ops_tab iops cfg app Pbus_Ops = pbus_ops"
| "ops_tab iops cfg app (App_Ops n) = app n"

end
