(* ===== verification/Format.thy ===== *)
theory Format
  imports Kernel_State "HOL-Library.Char_ord"
begin

text \<open>
  Text formatting (\<open>kernel/utils.c\<close>): number printing, the kernel formatter into a buffer
  (\<open>vaprint_fmt_buf\<close>) and in chunks to the console (\<open>vaprint_fmt\<close>), the panic formatter
  (\<open>v_panic_vprintf\<close>), and the choice of what is logged.

  A C string is a \<open>string\<close> without its terminator; a pointer into a format string is the rest of
  it, and \<open>[]\<close> is the terminator. A \<open>va_list\<close> is the list of the arguments left: 32-bit words (\<open>int\<close>,
  \<open>long\<close> and pointers on the target), 64-bit words, doubles as their bits, and strings. Reading an
  argument that is missing or of another kind, reading past the terminator of the format, a NULL
  string, an uninitialised local buffer and signed overflow are undefined, \<open>Inl K_Undef\<close>.
\<close>

section \<open>Definitions\<close>

subsection \<open>Numbers\<close>

definition swap_chars :: "nat \<Rightarrow> nat \<Rightarrow> string \<Rightarrow> string" where
  "swap_chars i j s = s[i := s ! j, j := s ! i]"

function rev_loop :: "nat \<Rightarrow> nat \<Rightarrow> string \<Rightarrow> string" where
  "rev_loop i j s = (if i < j then rev_loop (i + 1) (j - 1) (swap_chars i j s) else s)"
  by pat_completeness auto
termination by (relation "measure (\<lambda>(i, j, s). j - i)") auto

text \<open>\<open>reverse (buf, len)\<close> on the first \<open>len > 0\<close> characters.\<close>

definition reverse :: "string \<Rightarrow> nat \<Rightarrow> string" where
  "reverse s len = rev_loop 0 (len - 1) s"

definition digit_char :: "nat \<Rightarrow> char" where
  "digit_char rm = char_of (if rm > 9 then rm - 10 + of_char CHR ''a'' else rm + of_char CHR ''0'')"

partial_function (option) utoa_loop :: "nat \<Rightarrow> nat \<Rightarrow> string \<Rightarrow> string option" where
  "utoa_loop v base buf =
     (if v > 0 then utoa_loop (v div base) base (buf @ [digit_char (v mod base)]) else Some buf)"

declare utoa_loop.simps [code]

definition utoa_simple :: "nat \<Rightarrow> nat \<Rightarrow> string kres" where
  "utoa_simple v base =
     (if v = 0 then Inr ''0''
      else if base = 0 then Inl K_Undef
      else kbind (walk_end (utoa_loop v base [])) (\<lambda>buf. Inr (reverse buf (length buf))))"

text \<open>\<open>-value\<close> overflows for the least 64-bit value.\<close>

definition itoa_simple :: "int \<Rightarrow> nat \<Rightarrow> string kres" where
  "itoa_simple v base =
     (if v < 0 \<and> base = 10 then
        if v = - (2 ^ 63) then Inl K_Undef
        else kbind (utoa_simple (nat (- v)) base) (\<lambda>s. Inr (CHR ''-'' # s))
      else utoa_simple (nat (v mod 2 ^ 64)) base)"

subsection \<open>Conversions\<close>

datatype varg = V32 "32 word" | V64 "64 word" | VDbl "64 word" | VStr "string option"

text \<open>
  The operations on \<open>double\<close> the formatter uses, which the compiler's run-time library provides:
  \<open>v < 0.0\<close>, \<open>-v\<close>, the casts to \<open>long long\<close> and to \<open>int\<close> and back, the difference, and \<open>v * 10.0\<close>.
\<close>

record dbl_ops =
  d_neg :: "64 word \<Rightarrow> bool"
  d_uminus :: "64 word \<Rightarrow> 64 word"
  d_to_ll :: "64 word \<Rightarrow> 64 word"
  d_to_int :: "64 word \<Rightarrow> 32 word"
  d_of_int :: "int \<Rightarrow> 64 word"
  d_minus :: "64 word \<Rightarrow> 64 word \<Rightarrow> 64 word"
  d_times10 :: "64 word \<Rightarrow> 64 word"

fun arg32 :: "varg list \<Rightarrow> (32 word \<times> varg list) kres" where
  "arg32 (V32 w # as) = Inr (w, as)"
| "arg32 _ = Inl K_Undef"

fun arg64 :: "varg list \<Rightarrow> (64 word \<times> varg list) kres" where
  "arg64 (V64 w # as) = Inr (w, as)"
| "arg64 _ = Inl K_Undef"

fun arg_dbl :: "varg list \<Rightarrow> (64 word \<times> varg list) kres" where
  "arg_dbl (VDbl w # as) = Inr (w, as)"
| "arg_dbl _ = Inl K_Undef"

fun arg_str :: "varg list \<Rightarrow> (string option \<times> varg list) kres" where
  "arg_str (VStr s # as) = Inr (s, as)"
| "arg_str _ = Inl K_Undef"

definition is_digit :: "char \<Rightarrow> bool" where
  "is_digit c \<longleftrightarrow> CHR ''0'' \<le> c \<and> c \<le> CHR ''9''"

abbreviation (input) INT_MAX :: nat where "INT_MAX \<equiv> 2147483647"

text \<open>The loop that reads a width or a precision: \<open>n = n * 10 + (*p - '0')\<close> in an \<open>int\<close>.\<close>

fun read_num :: "nat \<Rightarrow> string \<Rightarrow> (nat \<times> string) kres" where
  "read_num n [] = Inr (n, [])"
| "read_num n (c # p) =
     (if is_digit c then
        let m = n * 10 + (of_char c - of_char CHR ''0'')
        in if m > INT_MAX then Inl K_Undef else read_num m p
      else Inr (n, c # p))"

text \<open>The flag, the width and the precision in front of a conversion character.\<close>

definition read_spec :: "string \<Rightarrow> (bool \<times> nat \<times> nat option \<times> string) kres" where
  "read_spec p =
     (let zero_pad = (case p of [] \<Rightarrow> False | c # _ \<Rightarrow> c = CHR ''0'');
          p = (if zero_pad then tl p else p)
      in kbind (read_num 0 p) (\<lambda>(width, p).
           case p of
             [] \<Rightarrow> Inr (zero_pad, width, None, p)
           | c # q \<Rightarrow>
               if c = CHR ''.'' then
                 kbind (read_num 0 q) (\<lambda>(prec, p). Inr (zero_pad, width, Some prec, p))
               else Inr (zero_pad, width, None, p)))"

definition padded :: "bool \<Rightarrow> nat \<Rightarrow> string \<Rightarrow> string" where
  "padded zero_pad width s =
     replicate (width - length s) (if zero_pad then CHR ''0'' else CHR '' '') @ s"

definition upper_hex :: "char \<Rightarrow> char" where
  "upper_hex c = (if CHR ''a'' \<le> c \<and> c \<le> CHR ''f'' then char_of (of_char c - (32 :: nat)) else c)"

fun dbl_digits :: "dbl_ops \<Rightarrow> nat \<Rightarrow> 64 word \<Rightarrow> string" where
  "dbl_digits d 0 frac = []"
| "dbl_digits d (Suc n) frac =
     (let frac = d_times10 d frac;
          digit = sint (d_to_int d frac)
      in char_of (of_char CHR ''0'' + digit) # dbl_digits d n (d_minus d frac (d_of_int d digit)))"

text \<open>The text of \<open>%f\<close> and what it leaves in \<open>buffer\<close>.\<close>

definition dbl_text :: "dbl_ops \<Rightarrow> nat option \<Rightarrow> 64 word \<Rightarrow> (string \<times> string) kres" where
  "dbl_text d prec v =
     (let prec = (case prec of None \<Rightarrow> 6 | Some n \<Rightarrow> n);
          sign = (if d_neg d v then ''-'' else []);
          v = (if d_neg d v then d_uminus d v else v);
          int_part = sint (d_to_ll d v);
          frac = d_minus d v (d_of_int d int_part)
      in kbind (itoa_simple int_part 10) (\<lambda>buf.
           Inr (sign @ buf @ ''.'' @ dbl_digits d prec frac, buf)))"

text \<open>
  The arm \<open>'l'\<close> of the switch, with \<open>p\<close> behind the \<open>l\<close>: the argument it reads, if any, into \<open>buffer\<close>.
  With another letter than \<open>u\<close> and \<open>d\<close> the buffer keeps what it had, \<open>None\<close> when nothing was written yet.
\<close>

definition long_arm :: "string \<Rightarrow> varg list \<Rightarrow> string option \<Rightarrow> (string option \<times> string \<times> varg list) kres" where
  "long_arm p args buf =
     (case p of
        [] \<Rightarrow> Inl K_Undef
      | c # p \<Rightarrow>
          if c = CHR ''u'' then
            kbind (arg32 args) (\<lambda>(v, args). kbind (utoa_simple (unat v) 10) (\<lambda>b. Inr (Some b, p, args)))
          else if c = CHR ''d'' then
            kbind (arg32 args) (\<lambda>(v, args). kbind (itoa_simple (sint v) 10) (\<lambda>b. Inr (Some b, p, args)))
          else if c = CHR ''l'' then
            (case p of
               [] \<Rightarrow> Inl K_Undef
             | c # p \<Rightarrow>
                 if c = CHR ''u'' then
                   kbind (arg64 args) (\<lambda>(v, args). kbind (utoa_simple (unat v) 10) (\<lambda>b. Inr (Some b, p, args)))
                 else if c = CHR ''d'' then
                   kbind (arg64 args) (\<lambda>(v, args). kbind (itoa_simple (sint v) 10) (\<lambda>b. Inr (Some b, p, args)))
                 else Inr (buf, p, args))
          else Inr (buf, p, args))"

text \<open>
  One conversion, from the character behind \<open>%\<close>: the text it prints, the rest of the format, the
  arguments left, and \<open>buffer\<close>.
\<close>

definition num_arm :: "bool \<Rightarrow> nat \<Rightarrow> (32 word \<Rightarrow> string kres) \<Rightarrow> string \<Rightarrow> varg list \<Rightarrow>
    (string \<times> string \<times> varg list \<times> string option) kres" where
  "num_arm zero_pad width f p args =
     kbind (arg32 args) (\<lambda>(v, args). kbind (f v) (\<lambda>b. Inr (padded zero_pad width b, p, args, Some b)))"

definition conversion :: "dbl_ops \<Rightarrow> string \<Rightarrow> varg list \<Rightarrow> string option \<Rightarrow>
    (string \<times> string \<times> varg list \<times> string option) kres" where
  "conversion d p args buf =
     kbind (read_spec p) (\<lambda>(zero_pad, width, prec, p).
       case p of
         [] \<Rightarrow> Inl K_Undef
       | c # p \<Rightarrow>
           if c = CHR ''d'' then num_arm zero_pad width (\<lambda>v. itoa_simple (sint v) 10) p args
           else if c = CHR ''u'' then num_arm zero_pad width (\<lambda>v. utoa_simple (unat v) 10) p args
           else if c = CHR ''f'' then
             kbind (arg_dbl args) (\<lambda>(v, args).
               kbind (dbl_text d prec v) (\<lambda>(t, b). Inr (t, p, args, Some b)))
           else if c = CHR ''l'' then
             kbind (long_arm p args buf) (\<lambda>(buf, p, args).
               case buf of
                 None \<Rightarrow> Inl K_Undef
               | Some b \<Rightarrow> Inr (padded zero_pad width b, p, args, buf))
           else if c = CHR ''x'' then num_arm zero_pad width (\<lambda>v. utoa_simple (unat v) 16) p args
           else if c = CHR ''X'' then
             num_arm zero_pad width (\<lambda>v. kbind (utoa_simple (unat v) 16) (\<lambda>b. Inr (map upper_hex b))) p args
           else if c = CHR ''p'' then
             kbind (arg32 args) (\<lambda>(v, args).
               kbind (utoa_simple (unat v) 16) (\<lambda>b. Inr (''0x'' @ b, p, args, Some b)))
           else if c = CHR ''c'' then
             kbind (arg32 args) (\<lambda>(v, args). Inr ([char_of (unat v)], p, args, buf))
           else if c = CHR ''s'' then
             kbind (arg_str args) (\<lambda>(s, args).
               case s of None \<Rightarrow> Inl K_Undef | Some s \<Rightarrow> Inr (s, p, args, buf))
           else if c = CHR ''%'' then Inr (''%'', p, args, buf)
           else Inr ([CHR ''%'', c], p, args, buf))"

text \<open>Each conversion reads at least one character of the format.\<close>

lemma read_num_rest: "read_num n p = Inr (m, q) \<Longrightarrow> length q \<le> length p"
  by (induction n p rule: read_num.induct) (auto simp: Let_def split: if_splits)

lemma read_spec_rest: "read_spec p = Inr (z, w, pr, q) \<Longrightarrow> length q \<le> length p"
proof -
  assume r: "read_spec p = Inr (z, w, pr, q)"
  define p' where "p' = (if (case p of [] \<Rightarrow> False | c # _ \<Rightarrow> c = CHR ''0'') then tl p else p)"
  have "length p' \<le> length p" by (simp add: p'_def)
  moreover obtain w' q' where n: "read_num 0 p' = Inr (w', q')"
    using r by (auto simp: read_spec_def Let_def kbind_Inr p'_def)
  moreover have "length q \<le> length q'"
    using r n by (cases q') (auto simp: read_spec_def Let_def kbind_Inr p'_def split: if_split_asm dest!: read_num_rest)
  ultimately show ?thesis using read_num_rest [OF n] by linarith
qed

lemma long_arm_rest: "long_arm p args buf = Inr (b, q, as) \<Longrightarrow> length q < length p"
  by (auto simp: long_arm_def kbind_Inr split: list.splits if_splits)

lemma num_arm_rest: "num_arm z w f p args = Inr (t, q, as, b) \<Longrightarrow> q = p"
  by (auto simp: num_arm_def kbind_Inr)

lemma conversion_rest: "conversion d p args buf = Inr (t, q, as, b) \<Longrightarrow> length q < length p"
proof -
  assume r: "conversion d p args buf = Inr (t, q, as, b)"
  then obtain z w pr p' where s: "read_spec p = Inr (z, w, pr, p')"
    by (auto simp: conversion_def kbind_Inr)
  then obtain c p'' where p': "p' = c # p''" using r by (cases p') (auto simp: conversion_def)
  have "length q \<le> length p''"
    using r unfolding conversion_def s p'
    by (auto simp: kbind_Inr split: if_split_asm option.split_asm dest!: long_arm_rest num_arm_rest)
  then show ?thesis using read_spec_rest [OF s] p' by simp
qed

subsection \<open>The kernel formatter into a buffer\<close>

text \<open>Storing characters while \<open>pos < lim\<close>; \<open>out\<close> is what the buffer holds, \<open>pos\<close> its length.\<close>

fun put_buf :: "nat \<Rightarrow> string \<Rightarrow> string \<Rightarrow> string" where
  "put_buf lim out [] = out"
| "put_buf lim out (c # t) = put_buf lim (if length out < lim then out @ [c] else out) t"

function fmt_buf_loop :: "dbl_ops \<Rightarrow> nat \<Rightarrow> string \<Rightarrow> varg list \<Rightarrow> string option \<Rightarrow> string \<Rightarrow> string kres" where
  "fmt_buf_loop d lim [] args buf out = Inr out"
| "fmt_buf_loop d lim (c # p) args buf out =
     (if \<not> length out < lim then Inr out
      else if c \<noteq> CHR ''%'' then fmt_buf_loop d lim p args buf (out @ [c])
      else if p = [] then Inr (put_buf lim out ''%'')
      else
        case conversion d p args buf of
          Inl e \<Rightarrow> Inl e
        | Inr (t, p, args, buf) \<Rightarrow> fmt_buf_loop d lim p args buf (put_buf lim out t))"
  by pat_completeness auto
termination
  by (relation "measure (\<lambda>(d, lim, p, args, buf, out). length p)") (auto dest: conversion_rest)

text \<open>The string left in \<open>out\<close>; its length is the result. With \<open>out_size = 0\<close> the terminator is out of bounds.\<close>

definition vaprint_fmt_buf :: "dbl_ops \<Rightarrow> nat \<Rightarrow> string \<Rightarrow> varg list \<Rightarrow> string kres" where
  "vaprint_fmt_buf d out_size fmt args =
     (if out_size = 0 then Inl K_Undef else fmt_buf_loop d (out_size - 1) fmt args None [])"

definition print_fmt_buf :: "dbl_ops \<Rightarrow> nat \<Rightarrow> string \<Rightarrow> varg list \<Rightarrow> string kres" where
  "print_fmt_buf d out_size fmt args = vaprint_fmt_buf d out_size fmt args"

subsection \<open>The kernel formatter to the console\<close>

text \<open>
  The buffer \<open>out_buf[128]\<close> with the strings handed to \<open>print\<close> so far; \<open>print\<close> sees the buffer up to its
  first NUL.
\<close>

type_synonym outq = "string list \<times> string"

definition cstr :: "string \<Rightarrow> string" where
  "cstr s = takeWhile (\<lambda>c. c \<noteq> CHR 0x00) s"

fun flush_out :: "outq \<Rightarrow> outq" where
  "flush_out (done, b) = (if b \<noteq> [] then (done @ [cstr b], []) else (done, b))"

definition put_char_out :: "char \<Rightarrow> outq \<Rightarrow> outq" where
  "put_char_out c q =
     (let q = (if length (snd q) \<ge> 127 then flush_out q else q) in (fst q, snd q @ [c]))"

definition put_str_out :: "string \<Rightarrow> outq \<Rightarrow> outq" where
  "put_str_out s q = foldl (\<lambda>q c. put_char_out c q) q s"

function fmt_loop :: "dbl_ops \<Rightarrow> string \<Rightarrow> varg list \<Rightarrow> string option \<Rightarrow> outq \<Rightarrow> outq kres" where
  "fmt_loop d [] args buf q = Inr q"
| "fmt_loop d (c # p) args buf q =
     (if c \<noteq> CHR ''%'' then fmt_loop d p args buf (put_char_out c q)
      else if p = [] then Inr (put_char_out CHR ''%'' q)
      else
        case conversion d p args buf of
          Inl e \<Rightarrow> Inl e
        | Inr (t, p, args, buf) \<Rightarrow> fmt_loop d p args buf (put_str_out t q))"
  by pat_completeness auto
termination
  by (relation "measure (\<lambda>(d, p, args, buf, q). length p)") (auto dest: conversion_rest)

definition vaprint_fmt :: "dbl_ops \<Rightarrow> string \<Rightarrow> varg list \<Rightarrow> string list kres" where
  "vaprint_fmt d fmt args = kbind (fmt_loop d fmt args None ([], [])) (\<lambda>q. Inr (fst (flush_out q)))"

definition print_fmt :: "dbl_ops \<Rightarrow> string \<Rightarrow> varg list \<Rightarrow> string list kres" where
  "print_fmt d fmt args = vaprint_fmt d fmt args"

subsection \<open>The panic formatter\<close>

definition panic_conv :: "char \<Rightarrow> varg list \<Rightarrow> (string \<times> varg list) kres" where
  "panic_conv c args =
     (if c = CHR ''u'' then
        kbind (arg32 args) (\<lambda>(v, args). kbind (utoa_simple (unat v) 10) (\<lambda>b. Inr (b, args)))
      else if c = CHR ''x'' then
        kbind (arg32 args) (\<lambda>(v, args). kbind (utoa_simple (unat v) 16) (\<lambda>b. Inr (b, args)))
      else if c = CHR ''d'' then
        kbind (arg32 args) (\<lambda>(v, args). kbind (itoa_simple (sint v) 10) (\<lambda>b. Inr (b, args)))
      else if c = CHR ''p'' then
        kbind (arg32 args) (\<lambda>(v, args). kbind (utoa_simple (unat v) 16) (\<lambda>b. Inr (''0x'' @ b, args)))
      else if c = CHR ''s'' then
        kbind (arg_str args) (\<lambda>(s, args). Inr (case s of None \<Rightarrow> [] | Some s \<Rightarrow> s, args))
      else Inr ([CHR ''%'', c], args))"

fun panic_loop :: "string \<Rightarrow> varg list \<Rightarrow> outq \<Rightarrow> outq kres" where
  "panic_loop [] args q = Inr q"
| "panic_loop (c # p) args q =
     (if c \<noteq> CHR ''%'' then panic_loop p args (put_char_out c q)
      else
        case p of
          [] \<Rightarrow> Inr (put_char_out CHR ''%'' q)
        | c # p \<Rightarrow> kbind (panic_conv c args) (\<lambda>(t, args). panic_loop p args (put_str_out t q)))"

definition v_panic_vprintf :: "string \<Rightarrow> varg list \<Rightarrow> string list kres" where
  "v_panic_vprintf fmt args = kbind (panic_loop fmt args ([], [])) (\<lambda>q. Inr (fst (flush_out q)))"

text \<open>The strings \<open>v_panic\<close> prints before it halts.\<close>

definition v_panic :: "string \<Rightarrow> int \<Rightarrow> string \<Rightarrow> varg list \<Rightarrow> string list kres" where
  "v_panic file line fmt args =
     kbind (itoa_simple line 10) (\<lambda>ln.
     kbind (v_panic_vprintf fmt args) (\<lambda>t.
       Inr ([[CHR 0x0D, CHR 0x0A, CHR 0x1B] @ ''[31;1m[KERNEL PANIC]'' @ [CHR 0x1B] @ ''[0m at '', file, '':'', ln,
             [CHR 0x0D, CHR 0x0A] @ ''Reason: ''] @ t @
            [[CHR 0x0D, CHR 0x0A] @ ''System Halted.'' @ [CHR 0x0D, CHR 0x0A]])))"

subsection \<open>What is logged\<close>

fun string_equal :: "string \<Rightarrow> string \<Rightarrow> bool" where
  "string_equal (a # as) (b # bs) = (if a \<noteq> b then False else string_equal as bs)"
| "string_equal as bs = (as = [] \<and> bs = [])"

text \<open>The name in brackets, of at most 31 characters.\<close>

fun module_tag :: "nat \<Rightarrow> string \<Rightarrow> string" where
  "module_tag n [] = []"
| "module_tag 0 (c # m) = []"
| "module_tag (Suc n) (c # m) = (if c = CHR '']'' then [] else c # module_tag n m)"

text \<open>The inner loop: the module against the token of \<open>len\<close> characters at \<open>tok\<close>.\<close>

fun token_match :: "string \<Rightarrow> nat \<Rightarrow> string \<Rightarrow> bool" where
  "token_match [] len tok = (len = 0)"
| "token_match (m # ms) len tok =
     (if len = 0 \<or> tok = [] \<or> m \<noteq> hd tok then False else token_match ms (len - 1) (tl tok))"

text \<open>The scan of the list: \<open>tok\<close> starts at the current token, of which \<open>n\<close> characters were passed; \<open>p\<close> is the rest.\<close>

fun module_scan :: "string \<Rightarrow> string \<Rightarrow> nat \<Rightarrow> string \<Rightarrow> bool" where
  "module_scan m tok n [] = token_match m n tok"
| "module_scan m tok n (c # p) =
     (if c = CHR '','' then if token_match m n tok then True else module_scan m p 0 p
      else module_scan m tok (n + 1) p)"

text \<open>\<open>allowed\<close> is the configured \<open>ALLOWED_MODULES\<close>; a NULL message is \<open>None\<close>.\<close>

definition module_allowed :: "string \<Rightarrow> string option \<Rightarrow> bool" where
  "module_allowed allowed msg =
     (case msg of
        None \<Rightarrow> True
      | Some [] \<Rightarrow> True
      | Some (c # t) \<Rightarrow>
          if c \<noteq> CHR ''['' then True
          else
            let m = module_tag 31 t
            in if m = [] then False
               else if string_equal allowed ''ALL'' then True
               else module_scan m allowed 0 allowed)"

end
