(* ===== verification/Printf.thy ===== *)
theory Printf
  imports Vfile Format
begin

text \<open>
  The ways text reaches the console (\<open>kernel/utils.c\<close>): the kernel's \<open>v_print\<close>, \<open>print_fmt\<close> and DMA
  print, mirrored into the kernel log, and the \<open>v_printf\<close> and \<open>v_eprintf\<close> of tasks, which stream
  through the descriptors 1 and 2.

  A \<open>task_delay (1)\<close> inside \<open>printf_out\<close> gives the processor away; \<open>rest\<close> is what the rest of the system
  does to the state until the task runs again.
\<close>

section \<open>Definitions\<close>

definition v_print :: "string \<Rightarrow> 'i sys \<Rightarrow> 'i sys" where
  "v_print str s =
     (let s = s\<lparr>sy_kmsg := v_kmsg_append (bytes_of str) (sy_kmsg s)\<rparr>
      in s\<lparr>sy_con := (sy_con s)\<lparr>con_out := con_out (sy_con s) @ [bytes_of str]\<rparr>\<rparr>)"

definition print_all :: "string list \<Rightarrow> 'i sys \<Rightarrow> 'i sys" where
  "print_all ts s = foldl (\<lambda>s t. v_print t s) s ts"

partial_function (option) printf_out ::
    "(ops_id \<Rightarrow> 'i sys file_ops) \<Rightarrow> ('i sys \<Rightarrow> 'i sys) \<Rightarrow> int \<Rightarrow> u8 list \<Rightarrow> nat \<Rightarrow> 'i sys \<Rightarrow> 'i sys kres option" where
  "printf_out tab rest fd b done s =
     (if done < length b then
        case v_file_write tab fd (drop done b) s of
          Inl e \<Rightarrow> Some (Inl e)
        | Inr ws \<Rightarrow>
            if fst ws < 0 then Some (Inr (snd ws))
            else printf_out tab rest fd b (done + nat (fst ws)) (if fst ws = 0 then rest (snd ws) else snd ws)
      else Some (Inr s))"

declare printf_out.simps [code]

definition pf_out ::
    "(ops_id \<Rightarrow> 'i sys file_ops) \<Rightarrow> ('i sys \<Rightarrow> 'i sys) \<Rightarrow> int \<Rightarrow> string \<Rightarrow> 'i sys \<Rightarrow> 'i sys kres" where
  "pf_out tab rest fd chunk s = kbind (walk_end (printf_out tab rest fd (bytes_of chunk) 0 s)) (\<lambda>r. r)"

text \<open>The locals \<open>chunk\<close> (its first \<open>c\<close> characters) and \<open>total\<close>, with the state.\<close>

record 'i pf =
  pf_chunk :: string
  pf_total :: nat
  pf_sys :: "'i sys"

definition pf_put ::
    "(ops_id \<Rightarrow> 'i sys file_ops) \<Rightarrow> ('i sys \<Rightarrow> 'i sys) \<Rightarrow> int \<Rightarrow> char \<Rightarrow> 'i pf \<Rightarrow> 'i pf kres" where
  "pf_put tab rest fd ch f =
     (let f = f\<lparr>pf_chunk := pf_chunk f @ [ch], pf_total := pf_total f + 1\<rparr>
      in if length (pf_chunk f) = 64 then
           kbind (pf_out tab rest fd (pf_chunk f) (pf_sys f)) (\<lambda>s. Inr (f\<lparr>pf_chunk := [], pf_sys := s\<rparr>))
         else Inr f)"

fun pf_puts ::
    "(ops_id \<Rightarrow> 'i sys file_ops) \<Rightarrow> ('i sys \<Rightarrow> 'i sys) \<Rightarrow> int \<Rightarrow> string \<Rightarrow> 'i pf \<Rightarrow> 'i pf kres" where
  "pf_puts tab rest fd [] f = Inr f"
| "pf_puts tab rest fd (c # t) f = kbind (pf_put tab rest fd c f) (pf_puts tab rest fd t)"

text \<open>The digits and dots of a conversion, at most \<open>n\<close> of them, and then up to \<open>n\<close> letters \<open>l\<close>.\<close>

fun spec_flags :: "nat \<Rightarrow> string \<Rightarrow> string \<times> string" where
  "spec_flags (Suc n) (c # q) =
     (if is_digit c \<or> c = CHR ''.'' then let (f, r) = spec_flags n q in (c # f, r) else ([], c # q))"
| "spec_flags n q = ([], q)"

fun spec_longs :: "nat \<Rightarrow> string \<Rightarrow> nat \<times> string" where
  "spec_longs (Suc n) (c # q) = (if c = CHR ''l'' then let (k, r) = spec_longs n q in (Suc k, r) else (0, c # q))"
| "spec_longs n q = (0, q)"

text \<open>The argument that the conversion takes, handed on alone.\<close>

definition spec_arg :: "char \<Rightarrow> nat \<Rightarrow> varg list \<Rightarrow> (varg list \<times> varg list) kres" where
  "spec_arg conv longs args =
     (if conv \<in> {CHR ''d'', CHR ''u'', CHR ''x'', CHR ''X''} then
        if longs = 2 then kbind (arg64 args) (\<lambda>(v, as). Inr ([V64 v], as))
        else kbind (arg32 args) (\<lambda>(v, as). Inr ([V32 v], as))
      else if conv = CHR ''c'' \<or> conv = CHR ''p'' then kbind (arg32 args) (\<lambda>(v, as). Inr ([V32 v], as))
      else if conv = CHR ''f'' then kbind (arg_dbl args) (\<lambda>(v, as). Inr ([VDbl v], as))
      else if conv = CHR ''s'' then kbind (arg_str args) (\<lambda>(v, as). Inr ([VStr v], as))
      else Inr ([], args))"

text \<open>
  One conversion of \<open>printf_fd\<close>, from the character behind \<open>%\<close>: \<open>None\<close> at the end of the format, or the
  text, the rest and the arguments left.
\<close>

definition pf_conv :: "dbl_ops \<Rightarrow> string \<Rightarrow> varg list \<Rightarrow> (string \<times> string \<times> varg list) option kres" where
  "pf_conv d q args =
     (let (flags, q) = spec_flags 11 q;
          (longs, q) = spec_longs 2 q
      in case q of
           [] \<Rightarrow> Inr None
         | conv # q \<Rightarrow>
             let spec = ''%'' @ flags @ replicate longs CHR ''l'' @ [conv]
             in if conv = CHR ''s'' \<and> length spec = 2 then
                  kbind (arg_str args) (\<lambda>(str, args). Inr (Some (case str of None \<Rightarrow> [] | Some t \<Rightarrow> t, q, args)))
                else
                  kbind (spec_arg conv longs args) (\<lambda>(one, args).
                  kbind (print_fmt_buf d 48 spec one) (\<lambda>t. Inr (Some (cstr t, q, args)))))"

lemma spec_flags_rest: "length (snd (spec_flags n q)) \<le> length q"
  by (induction n q rule: spec_flags.induct) (auto split: prod.splits)

lemma spec_longs_rest: "length (snd (spec_longs n q)) \<le> length q"
  by (induction n q rule: spec_longs.induct) (auto split: prod.splits)

lemma pf_conv_rest: "pf_conv d q args = Inr (Some (t, r, as)) \<Longrightarrow> length r < length q"
  using spec_flags_rest [of 11 q] spec_longs_rest [of 2 "snd (spec_flags 11 q)"]
  by (auto simp: pf_conv_def Let_def kbind_Inr split: prod.split_asm list.split_asm if_split_asm)

function printf_loop ::
    "(ops_id \<Rightarrow> 'i sys file_ops) \<Rightarrow> ('i sys \<Rightarrow> 'i sys) \<Rightarrow> dbl_ops \<Rightarrow> int \<Rightarrow> string \<Rightarrow> varg list \<Rightarrow> 'i pf \<Rightarrow> 'i pf kres" where
  "printf_loop tab rest d fd [] args f = Inr f"
| "printf_loop tab rest d fd (c # p) args f =
     (if c \<noteq> CHR ''%'' then
        (case pf_put tab rest fd c f of Inl e \<Rightarrow> Inl e | Inr f \<Rightarrow> printf_loop tab rest d fd p args f)
      else
        case pf_conv d p args of
          Inl e \<Rightarrow> Inl e
        | Inr None \<Rightarrow> Inr f
        | Inr (Some (t, q, args)) \<Rightarrow>
            (case pf_puts tab rest fd t f of Inl e \<Rightarrow> Inl e | Inr f \<Rightarrow> printf_loop tab rest d fd q args f))"
  by pat_completeness auto
termination
  by (relation "measure (\<lambda>(tab, rest, d, fd, p, args, f). length p)") (auto dest: pf_conv_rest)

definition printf_fd ::
    "(ops_id \<Rightarrow> 'i sys file_ops) \<Rightarrow> ('i sys \<Rightarrow> 'i sys) \<Rightarrow> dbl_ops \<Rightarrow> int \<Rightarrow> string \<Rightarrow> varg list \<Rightarrow> 'i sys \<Rightarrow>
     (nat \<times> 'i sys) kres" where
  "printf_fd tab rest d fd fmt args s =
     kbind (printf_loop tab rest d fd fmt args \<lparr>pf_chunk = [], pf_total = 0, pf_sys = s\<rparr>) (\<lambda>f.
       kbind (if pf_chunk f \<noteq> [] then pf_out tab rest fd (pf_chunk f) (pf_sys f) else Inr (pf_sys f)) (\<lambda>s.
         Inr (pf_total f, s)))"

definition v_printf where
  "v_printf tab rest d fmt args s = printf_fd tab rest d 1 fmt args s"

definition v_eprintf where
  "v_eprintf tab rest d fmt args s = printf_fd tab rest d 2 fmt args s"

end
