(* ===== verification/Log.thy ===== *)
theory Log
  imports Printf
begin

text \<open>
  The kernel logger (\<open>kernel/utils.c\<close>, buffered): \<open>v_log\<close> formats a line into one of two buffers of 256 bytes,
  \<open>v_log_flush\<close> hands the other to the console, by DMA or synchronously (\<open>dma\<close> is
  \<open>VAIOS_PORT_CONSOLE_DMA\<close>).

  \<open>False\<close> names \<open>log_buffer_storage1\<close> and \<open>True\<close> the second buffer. A DMA transfer reads its buffer
  until it ends: \<open>ls_dma\<close> is the transfer in flight, and its bytes are those in the buffer when it ends.
  \<open>rest\<close> is what interrupts and other tasks do in one turn of the loop that waits for a transfer.
\<close>

section \<open>Definitions\<close>

abbreviation (input) LOG_BUFFER_STORAGE_SIZE :: nat where "LOG_BUFFER_STORAGE_SIZE \<equiv> 256"
abbreviation (input) LOG_MSG_MAX_LEN :: nat where "LOG_MSG_MAX_LEN \<equiv> 96"
abbreviation (input) TCB_MAGIC :: nat where "TCB_MAGIC \<equiv> 0x54434221"

record 'i lsys =
  ls_sys :: "'i sys"
  ls_store :: "bool \<Rightarrow> u8 list"
  ls_writing :: bool
  ls_reading :: bool
  ls_head :: nat
  ls_lock :: bool
  ls_to_read :: nat
  ls_dma :: "(bool \<times> nat) option"
  ls_level :: int

definition v_log_set_level :: "int \<Rightarrow> 'i lsys \<Rightarrow> 'i lsys" where
  "v_log_set_level level s = (if level \<ge> 0 \<and> level \<le> 5 then s\<lparr>ls_level := level\<rparr> else s)"

definition v_log_get_level :: "'i lsys \<Rightarrow> int" where
  "v_log_get_level s = ls_level s"

subsection \<open>Output\<close>

definition dma_tx_complete_callback :: "'i lsys \<Rightarrow> 'i lsys" where
  "dma_tx_complete_callback s = s\<lparr>ls_lock := False\<rparr>"

definition hw_put :: "u8 list \<Rightarrow> 'i lsys \<Rightarrow> 'i lsys" where
  "hw_put bs s =
     (let y = ls_sys s in s\<lparr>ls_sys := y\<lparr>sy_con := (sy_con y)\<lparr>con_out := con_out (sy_con y) @ [bs]\<rparr>\<rparr>\<rparr>)"

text \<open>The end of a transfer, which calls \<open>dma_tx_complete_callback\<close>.\<close>

definition dma_done :: "'i lsys \<Rightarrow> 'i lsys" where
  "dma_done s =
     (case ls_dma s of
        None \<Rightarrow> s
      | Some (b, n) \<Rightarrow> dma_tx_complete_callback (hw_put (take n (ls_store s b)) (s\<lparr>ls_dma := None\<rparr>)))"

text \<open>\<open>direct_dma_print\<close>; the port lets a transfer that is in flight end before it starts the next.\<close>

definition direct_dma_print :: "bool \<Rightarrow> nat \<Rightarrow> 'i lsys \<Rightarrow> 'i lsys" where
  "direct_dma_print b len s =
     (let y = ls_sys s;
          s = s\<lparr>ls_sys := y\<lparr>sy_kmsg := v_kmsg_append (take len (ls_store s b)) (sy_kmsg y)\<rparr>\<rparr>;
          l = ls_lock s;
          s = (dma_done s)\<lparr>ls_lock := l\<rparr>
      in s\<lparr>ls_dma := Some (b, len)\<rparr>)"

definition log_print :: "u8 list \<Rightarrow> 'i lsys \<Rightarrow> 'i lsys" where
  "log_print bs s =
     (let bs = takeWhile (\<lambda>c. c \<noteq> 0) bs;
          y = ls_sys s
      in hw_put bs (s\<lparr>ls_sys := y\<lparr>sy_kmsg := v_kmsg_append bs (sy_kmsg y)\<rparr>\<rparr>))"

definition log_swap :: "'i lsys \<Rightarrow> 'i lsys" where
  "log_swap s =
     (let s = s\<lparr>ls_to_read := ls_head s\<rparr>;
          s = (if ls_writing s = False then s\<lparr>ls_writing := True, ls_reading := False\<rparr>
               else s\<lparr>ls_writing := False, ls_reading := True\<rparr>)
      in s\<lparr>ls_head := 0\<rparr>)"

definition log_send :: "bool \<Rightarrow> 'i lsys \<Rightarrow> 'i lsys" where
  "log_send dma s =
     (let s = s\<lparr>ls_lock := True\<rparr>;
          s = (if dma then direct_dma_print (ls_reading s) (ls_to_read s) s
               else (log_print (ls_store s (ls_reading s)) s)\<lparr>ls_lock := False\<rparr>)
      in s\<lparr>ls_to_read := 0\<rparr>)"

definition v_log_flush :: "bool \<Rightarrow> 'i lsys \<Rightarrow> 'i lsys" where
  "v_log_flush dma s =
     (if ls_lock s then s
      else
        let s = (if ls_to_read s = 0 \<and> ls_head s > 0 then log_swap s else s)
        in if ls_to_read s > 0 then log_send dma s else s)"

text \<open>\<open>v_log_drain\<close>; \<open>rest\<close> is what happens between two passes, and \<open>guard\<close> starts at 4000000.\<close>

fun log_drain :: "bool \<Rightarrow> ('i lsys \<Rightarrow> 'i lsys) \<Rightarrow> nat \<Rightarrow> 'i lsys \<Rightarrow> 'i lsys" where
  "log_drain dma rest 0 s = s"
| "log_drain dma rest (Suc g) s =
     (if \<not> ls_lock s \<and> ls_to_read s = 0 \<and> ls_head s = 0 then s
      else log_drain dma rest g (rest (v_log_flush dma s)))"

definition v_log_drain :: "bool \<Rightarrow> ('i lsys \<Rightarrow> 'i lsys) \<Rightarrow> 'i lsys \<Rightarrow> 'i lsys" where
  "v_log_drain dma rest s = log_drain dma rest 4000000 s"

subsection \<open>The line\<close>

definition log_name :: "int \<Rightarrow> string" where
  "log_name ty =
     (if ty = 0 then ''TRACE'' else if ty = 1 then ''DEBUG'' else if ty = 2 then ''INFO'' else if ty = 3 then ''WARN''
      else if ty = 4 then ''ERROR'' else if ty = 5 then ''FATAL'' else ''UNKNOWN'')"

abbreviation (input) ESC :: "string \<Rightarrow> string" where "ESC s \<equiv> CHR 0x1B # s"

definition log_color :: "int \<Rightarrow> string" where
  "log_color ty =
     (if ty = 0 then ESC ''[37m'' else if ty = 1 then ESC ''[36m'' else if ty = 2 then ESC ''[32m''
      else if ty = 3 then ESC ''[33m'' else if ty = 4 then ESC ''[31m'' else if ty = 5 then ESC ''[35m''
      else ESC ''[34m'')"

text \<open>Appending a string and a character to \<open>prefix[48]\<close>, each only where it fits.\<close>

definition pre_str :: "string \<Rightarrow> string \<Rightarrow> string" where
  "pre_str t pre = (if length pre + length t < 48 then pre @ t else pre)"

definition pre_chr :: "char \<Rightarrow> string \<Rightarrow> string" where
  "pre_chr c pre = (if length pre < 47 then pre @ [c] else pre)"

definition log_prefix :: "int \<Rightarrow> nat \<Rightarrow> string kres" where
  "log_prefix ty tk =
     (let pre = pre_str (log_color ty) [];
          pre = pre_chr CHR ''['' pre;
          pre = pre_str (log_name ty) pre;
          pre = pre_chr CHR '' '' pre
      in kbind (utoa_simple tk 10) (\<lambda>ts.
           let pre = pre_str ts pre;
               pre = pre_chr CHR '']'' pre;
               pre = pre_str (ESC ''[0m'') pre
           in Inr (pre_chr CHR '' '' pre)))"

subsection \<open>Room in the buffer\<close>

text \<open>The loop that waits for the transfer; the flag says that \<open>spin_guard\<close> reached its maximum.\<close>

fun log_spin :: "bool \<Rightarrow> ('i lsys \<Rightarrow> 'i lsys) \<Rightarrow> nat \<Rightarrow> 'i lsys \<Rightarrow> bool \<times> 'i lsys" where
  "log_spin dma rest 0 s = (True, s)"
| "log_spin dma rest (Suc g) s =
     (if ls_lock s \<or> ls_to_read s > 0 then log_spin dma rest g (rest (v_log_flush dma s)) else (False, s))"

text \<open>
  The loop before a line is stored: \<open>None\<close> is a line dropped because the caller cannot wait.
  \<open>no_wait\<close> is \<open>critical_nesting > 1 \<or> is_in_isr\<close>.
\<close>

partial_function (option) log_room ::
    "bool \<Rightarrow> ('i lsys \<Rightarrow> 'i lsys) \<Rightarrow> bool \<Rightarrow> bool \<Rightarrow> nat \<Rightarrow> 'i lsys \<Rightarrow> 'i lsys option option" where
  "log_room dma rest no_wait in_isr pre_len s =
     (if ls_head s + pre_len + LOG_MSG_MAX_LEN + 4 \<le> LOG_BUFFER_STORAGE_SIZE then Some (Some s)
      else if no_wait then Some None
      else if ls_lock s \<or> ls_to_read s > 0 then
        let can_sleep = scheduler_running (sy_k (ls_sys s)) \<and> \<not> in_isr;
            (out, s) = log_spin dma rest (if can_sleep then 1000 else 10000000) s
        in log_room dma rest no_wait in_isr pre_len (if out then s\<lparr>ls_lock := False, ls_to_read := 0\<rparr> else s)
      else Some (Some (log_swap s)))"

subsection \<open>Storing the line\<close>

definition log_poke :: "u8 list \<Rightarrow> 'i lsys \<Rightarrow> 'i lsys" where
  "log_poke bs s = s\<lparr>ls_store := (ls_store s)(ls_writing s := memcpy_into (ls_store s (ls_writing s)) (ls_head s) bs)\<rparr>"

definition log_put :: "u8 list \<Rightarrow> 'i lsys \<Rightarrow> 'i lsys" where
  "log_put bs s = (log_poke bs s)\<lparr>ls_head := ls_head s + length bs\<rparr>"

text \<open>The formatted message is stored with its terminator, which what follows overwrites.\<close>

definition log_line :: "string \<Rightarrow> string \<Rightarrow> 'i lsys \<Rightarrow> 'i lsys" where
  "log_line pre msg s =
     (let s = log_put (bytes_of pre) s;
          s = log_put (bytes_of msg) (log_poke (bytes_of msg @ [0]) s);
          s = (if length msg = LOG_MSG_MAX_LEN - 1 then log_put (bytes_of ''~'') s else s);
          s = log_put [LF] (log_put [CR] s)
      in log_poke [0] s)"

text \<open>
  \<open>v_log\<close>. \<open>psp\<close> is the process stack pointer; \<open>nested\<close> and \<open>in_isr\<close> say that the caller is in a critical
  section and in an interrupt; \<open>allowed\<close> is \<open>ALLOWED_MODULES\<close>; the tick count is that of the kernel.
\<close>

definition log_stack_low :: "nat \<Rightarrow> kernel \<Rightarrow> bool" where
  "log_stack_low psp k \<longleftrightarrow> scheduler_running k \<and> current_task k \<noteq> 0 \<and> t_magic (tcbs k (current_task k)) = TCB_MAGIC \<and>
     psp \<noteq> 0 \<and> psp < u32 (t_mem_block (tcbs k (current_task k)) + 320)"

definition v_log ::
    "bool \<Rightarrow> ('i lsys \<Rightarrow> 'i lsys) \<Rightarrow> dbl_ops \<Rightarrow> string \<Rightarrow> nat \<Rightarrow> bool \<Rightarrow> bool \<Rightarrow> int \<Rightarrow> string \<Rightarrow> varg list \<Rightarrow>
     'i lsys \<Rightarrow> 'i lsys kres" where
  "v_log dma rest d allowed psp nested in_isr ty msg args s =
     (if log_stack_low psp (sy_k (ls_sys s)) then Inl K_Panic
      else if ty < ls_level s \<or> \<not> module_allowed allowed (Some msg) then Inr s
      else
        kbind (log_prefix ty (ticks (sy_k (ls_sys s)))) (\<lambda>pre.
        kbind (walk_end (log_room dma rest (nested \<or> in_isr) in_isr (length pre) s)) (\<lambda>r.
          case r of
            None \<Rightarrow> Inr s
          | Some s \<Rightarrow>
              kbind (vaprint_fmt_buf d LOG_MSG_MAX_LEN msg args) (\<lambda>t.
                let s = log_line pre t s
                in Inr (if scheduler_running (sy_k (ls_sys s)) then s else v_log_flush dma s)))))"

end
