(* ===== verification/Format_Lemmas.thy ===== *)
theory Format_Lemmas
  imports Format
begin

text \<open>Lemmas about the formatter: number printing, truncation, chunking, and the module list.\<close>

section \<open>Printing numbers\<close>

lemma rev_loop_middle: "rev_loop (length a) (length a + length b - 1) (a @ b @ c) = a @ rev b @ c"
proof (induction "length b" arbitrary: a b c rule: less_induct)
  case less
  show ?case
  proof (cases "length b < 2")
    case True
    then have "rev b = b" by (cases b) (auto simp: less_Suc_eq)
    moreover have "\<not> length a < length a + length b - 1" using True by simp
    ultimately show ?thesis by (subst rev_loop.simps) (simp del: rev_loop.simps)
  next
    case False
    then obtain x m y where b: "b = x # m @ [y]"
      by (metis One_nat_def Suc_1 append_butlast_last_id length_Cons length_greater_0_conv less_Suc_eq list.exhaust
          list.size(3) zero_less_Suc)
    have sw: "swap_chars (length a) (length a + length b - 1) (a @ b @ c) = (a @ [y]) @ m @ [x] @ c"
      by (simp add: swap_chars_def b nth_append list_update_append)
    have "rev_loop (length (a @ [y])) (length (a @ [y]) + length m - 1) ((a @ [y]) @ m @ [x] @ c) =
        (a @ [y]) @ rev m @ [x] @ c"
      by (rule less) (simp add: b)
    moreover have "length a + length b - 1 - 1 = length (a @ [y]) + length m - 1" by (simp add: b)
    ultimately show ?thesis
      using False sw by (subst rev_loop.simps) (simp add: b del: rev_loop.simps)
  qed
qed

lemma reverse_rev: "reverse s (length s) = rev s"
  using rev_loop_middle [of "[]" s "[]"] by (simp add: reverse_def del: rev_loop.simps)

text \<open>The value of a digit string.\<close>

definition digit_val :: "char \<Rightarrow> nat" where
  "digit_val c = (if of_char c \<ge> (97 :: nat) then of_char c - 87 else of_char c - 48)"

definition digits_val :: "nat \<Rightarrow> string \<Rightarrow> nat" where
  "digits_val base s = foldl (\<lambda>n c. n * base + digit_val c) 0 s"

lemma digit_val_char [simp]: "k < 36 \<Longrightarrow> digit_val (digit_char k) = k"
  by (simp add: digit_val_def digit_char_def)

lemma utoa_loop_value:
  assumes "2 \<le> base" "base \<le> 36"
  shows "\<exists>t. utoa_loop v base buf = Some (buf @ t) \<and> digits_val base (rev t) = v \<and>
     (v > 0 \<longrightarrow> t \<noteq> [] \<and> digit_val (last t) > 0) \<and> (\<forall>k. v < base ^ k \<longrightarrow> length t \<le> k) \<and>
     set t \<subseteq> digit_char ` {..<base}"
proof (induction v arbitrary: buf rule: less_induct)
  case (less v)
  show ?case
  proof (cases "v = 0")
    case True
    then show ?thesis by (subst utoa_loop.simps) (simp add: digits_val_def)
  next
    case False
    let ?c = "digit_char (v mod base)"
    have "v div base < v" using False assms(1) by simp
    from less [OF this, of "buf @ [?c]"] obtain t where
      t: "utoa_loop (v div base) base (buf @ [?c]) = Some (buf @ ?c # t)" "digits_val base (rev t) = v div base"
        "v div base > 0 \<longrightarrow> t \<noteq> [] \<and> digit_val (last t) > 0" "\<forall>k. v div base < base ^ k \<longrightarrow> length t \<le> k"
        "set t \<subseteq> digit_char ` {..<base}"
      by auto
    have m: "v mod base < 36" using assms mod_less_divisor [of base v] by linarith
    have "t = [] \<longleftrightarrow> v div base = 0"
    proof
      assume "v div base = 0"
      then show "t = []" using t(4) [rule_format, of 0] by simp
    qed (use t(3) in auto)
    then have lst: "digit_val (last (?c # t)) > 0"
    proof (cases "v div base = 0")
      case True
      then have "v < base" using assms(1) by (simp add: div_eq_0_iff)
      then show ?thesis using True \<open>t = [] \<longleftrightarrow> _\<close> False m by simp
    qed (use t(3) in auto)
    have len: "length (?c # t) \<le> k" if k: "v < base ^ k" for k
    proof (cases k)
      case 0
      then show ?thesis using k False by simp
    next
      case (Suc j)
      then have "v div base < base ^ j" using k assms(1) by (simp add: less_mult_imp_div_less mult.commute)
      then show ?thesis using t(4) Suc by simp
    qed
    have val: "digits_val base (rev (?c # t)) = v"
      using t(2) m by (simp add: digits_val_def)
    have dg: "set (?c # t) \<subseteq> digit_char ` {..<base}" using t(5) assms(1) by auto
    have eq: "utoa_loop v base buf = Some (buf @ ?c # t)"
      using False t(1) by (subst utoa_loop.simps) simp
    show ?thesis
      by (rule exI [of _ "?c # t"]) (use eq val lst len dg in simp)
  qed
qed

text \<open>\<open>utoa_simple\<close> prints the value without leading zeros, in as many digits as it has.\<close>

lemma utoa_simple_value:
  assumes "2 \<le> base" "base \<le> 36"
  obtains s where "utoa_simple v base = Inr s" "digits_val base s = v" "s \<noteq> []"
    "v > 0 \<Longrightarrow> digit_val (hd s) > 0" "\<And>k. v < base ^ Suc k \<Longrightarrow> length s \<le> Suc k"
    "set s \<subseteq> digit_char ` {..<base}"
proof (cases "v = 0")
  case True
  have "CHR ''0'' \<in> digit_char ` {..<base}"
    using assms(1) by (intro image_eqI [of _ _ 0]) (simp_all add: digit_char_def char_of_def bit_Suc_0_iff)
  then show thesis using True
    by (intro that [of "''0''"]) (simp_all add: utoa_simple_def digits_val_def digit_val_def)
next
  case False
  obtain t where t: "utoa_loop v base [] = Some t" "digits_val base (rev t) = v" "t \<noteq> []" "digit_val (last t) > 0"
    "\<forall>k. v < base ^ k \<longrightarrow> length t \<le> k" "set t \<subseteq> digit_char ` {..<base}"
    using utoa_loop_value [OF assms, of v "[]"] False by auto
  show thesis
    using False assms(1) t by (intro that [of "rev t"]) (auto simp: utoa_simple_def reverse_rev hd_rev)
qed

text \<open>The value of what \<open>itoa_simple\<close> prints in base 10.\<close>

definition decimal_val :: "string \<Rightarrow> int" where
  "decimal_val s = (case s of CHR ''-'' # t \<Rightarrow> - int (digits_val 10 t) | _ \<Rightarrow> int (digits_val 10 s))"

lemma no_minus_digit: "digit_val c > 0 \<Longrightarrow> c \<noteq> CHR ''-''"
  by (auto simp: digit_val_def)

lemma itoa_simple_value:
  assumes "\<bar>v\<bar> < 2 ^ 63"
  obtains s where "itoa_simple v 10 = Inr s" "decimal_val s = v" "\<And>k. \<bar>v\<bar> < 10 ^ Suc k \<Longrightarrow> length s \<le> Suc (Suc k)"
proof (cases "v < 0")
  case True
  obtain s where s: "utoa_simple (nat (- v)) 10 = Inr s" "digits_val 10 s = nat (- v)"
      "\<And>k. nat (- v) < 10 ^ Suc k \<Longrightarrow> length s \<le> Suc k"
    by (rule utoa_simple_value [of 10 "nat (- v)"]) simp_all
  have "length (CHR ''-'' # s) \<le> Suc (Suc k)" if "\<bar>v\<bar> < 10 ^ Suc k" for k
    using s(3) [of k] that True by (simp add: nat_less_iff)
  then show thesis
    using True s assms by (intro that [of "CHR ''-'' # s"]) (auto simp: itoa_simple_def decimal_val_def)
next
  case False
  then have n: "nat (v mod 2 ^ 64) = nat v" using assms by (simp add: mod_pos_pos_trivial)
  obtain s where s: "utoa_simple (nat v) 10 = Inr s" "digits_val 10 s = nat v" "s \<noteq> []"
      "nat v > 0 \<Longrightarrow> digit_val (hd s) > 0" "\<And>k. nat v < 10 ^ Suc k \<Longrightarrow> length s \<le> Suc k"
    by (rule utoa_simple_value [of 10 "nat v"]) simp_all
  have "hd s \<noteq> CHR ''-''"
    using s(4) no_minus_digit s(1) False by (cases "v = 0") (auto simp: utoa_simple_def)
  then have "decimal_val s = int (digits_val 10 s)" using s(3) by (auto simp: decimal_val_def split: list.splits char.splits bool.splits)
  moreover have "length s \<le> Suc (Suc k)" if "\<bar>v\<bar> < 10 ^ Suc k" for k
    using s(5) [of k] that False by (simp add: nat_less_iff le_SucI)
  ultimately show thesis
    using False s n by (intro that [of s]) (auto simp: itoa_simple_def)
qed

section \<open>The text of a format\<close>

text \<open>What a format prints without any bound: the reference for the formatters.\<close>

function fmt_text :: "dbl_ops \<Rightarrow> string \<Rightarrow> varg list \<Rightarrow> string option \<Rightarrow> string kres" where
  "fmt_text d [] args buf = Inr []"
| "fmt_text d (c # p) args buf =
     (if c \<noteq> CHR ''%'' then kbind (fmt_text d p args buf) (\<lambda>t. Inr (c # t))
      else if p = [] then Inr ''%''
      else
        case conversion d p args buf of
          Inl e \<Rightarrow> Inl e
        | Inr (t, p, args, buf) \<Rightarrow> kbind (fmt_text d p args buf) (\<lambda>t'. Inr (t @ t')))"
  by pat_completeness auto
termination
  by (relation "measure (\<lambda>(d, p, args, buf). length p)") (auto dest: conversion_rest)

lemma put_buf_take: "length out \<le> lim \<Longrightarrow> put_buf lim out t = take lim (out @ t)"
  by (induction t arbitrary: out) (auto simp: take_Cons')

lemma length_put_buf: "length out \<le> lim \<Longrightarrow> length (put_buf lim out t) \<le> lim"
  by (simp add: put_buf_take)

lemma fmt_buf_loop_take:
  assumes "fmt_text d p args buf = Inr t" "length out \<le> lim"
  shows "fmt_buf_loop d lim p args buf out = Inr (take lim (out @ t))"
  using assms
proof (induction d p args buf arbitrary: out t rule: fmt_text.induct)
  case (2 d c p args buf)
  show ?case
  proof (cases "length out < lim")
    case lt: True
    consider (lit) "c \<noteq> CHR ''%''" | (pct) "c = CHR ''%''" "p = []" | (conv) "c = CHR ''%''" "p \<noteq> []" by blast
    then show ?thesis
    proof cases
      case lit
      then obtain t' where t': "fmt_text d p args buf = Inr t'" "t = c # t'" using 2(3) by (auto simp: kbind_Inr)
      then show ?thesis using 2(1) [OF lit t'(1), of "out @ [c]"] lit lt by simp
    next
      case pct
      then have "t = ''%''" using 2(3) by simp
      then show ?thesis using pct lt by (simp add: take_Cons')
    next
      case conv
      then obtain t1 q as b t2 where k: "conversion d p args buf = Inr (t1, q, as, b)" "fmt_text d q as b = Inr t2"
          "t = t1 @ t2"
        using 2(3) by (auto simp: kbind_Inr split: sum.split_asm)
      have "fmt_buf_loop d lim q as b (put_buf lim out t1) = Inr (take lim (put_buf lim out t1 @ t2))"
        using 2(2) [OF _ conv(2) k(1) refl refl refl k(2), of "put_buf lim out t1"] conv lt by (simp add: length_put_buf)
      moreover have "take lim (put_buf lim out t1 @ t2) = take lim (out @ t1 @ t2)"
        using lt by (simp add: put_buf_take min_def)
      ultimately show ?thesis using conv lt k by simp
    qed
  next
    case False
    then have "length out = lim" using 2(4) by simp
    then show ?thesis by auto
  qed
qed simp

lemma fmt_buf_loop_length:
  "fmt_buf_loop d lim p args buf out = Inr s \<Longrightarrow> length out \<le> lim \<Longrightarrow> length s \<le> lim"
proof (induction d lim p args buf out rule: fmt_buf_loop.induct)
  case (2 d lim c p args buf out)
  consider (full) "\<not> length out < lim" | (lit) "length out < lim" "c \<noteq> CHR ''%''"
    | (pct) "length out < lim" "c = CHR ''%''" "p = []" | (conv) "length out < lim" "c = CHR ''%''" "p \<noteq> []" by blast
  then show ?case
  proof cases
    case full
    then show ?thesis using 2(3,4) by simp
  next
    case lit
    then show ?thesis using 2(1) 2(3) by simp
  next
    case pct
    then show ?thesis using 2(3) by auto
  next
    case conv
    then obtain t q as b where k: "conversion d p args buf = Inr (t, q, as, b)"
        "fmt_buf_loop d lim q as b (put_buf lim out t) = Inr s"
      using 2(3) by (auto split: sum.split_asm)
    then show ?thesis using 2(2) [OF _ _ conv(3) k(1) refl refl refl k(2)] conv length_put_buf 2(4) by simp
  qed
qed simp

section \<open>Output in chunks\<close>

definition outq_ok :: "outq \<Rightarrow> bool" where
  "outq_ok q \<longleftrightarrow> (\<forall>s \<in> set (fst q). s \<noteq> [] \<and> length s \<le> 127) \<and> length (snd q) \<le> 127 \<and> CHR 0x00 \<notin> set (snd q)"

definition outq_text :: "outq \<Rightarrow> string" where
  "outq_text q = concat (fst q) @ snd q"

lemma cstr_id: "CHR 0x00 \<notin> set s \<Longrightarrow> cstr s = s"
  by (simp add: cstr_def takeWhile_eq_all_conv) (metis)

lemma flush_out_ok: "outq_ok q \<Longrightarrow> outq_ok (flush_out q) \<and> outq_text (flush_out q) = outq_text q \<and> snd (flush_out q) = []"
  by (cases q) (auto simp: outq_ok_def outq_text_def cstr_id)

lemma put_char_out_ok:
  "outq_ok q \<Longrightarrow> CHR 0x00 \<noteq> c \<Longrightarrow> outq_ok (put_char_out c q) \<and> outq_text (put_char_out c q) = outq_text q @ [c]"
  using flush_out_ok [of q]
  by (auto simp: put_char_out_def outq_ok_def outq_text_def)

lemma put_str_out_ok:
  "outq_ok q \<Longrightarrow> CHR 0x00 \<notin> set s \<Longrightarrow> outq_ok (put_str_out s q) \<and> outq_text (put_str_out s q) = outq_text q @ s"
proof (induction s arbitrary: q)
  case (Cons c s)
  then show ?case using put_char_out_ok [of q c] by (simp add: put_str_out_def)
qed (simp add: put_str_out_def)

lemma fmt_loop_text:
  assumes "fmt_text d p args buf = Inr t" "outq_ok q" "CHR 0x00 \<notin> set t"
  shows "\<exists>q'. fmt_loop d p args buf q = Inr q' \<and> outq_ok q' \<and> outq_text q' = outq_text q @ t"
  using assms
proof (induction d p args buf arbitrary: q t rule: fmt_text.induct)
  case (2 d c p args buf)
  consider (lit) "c \<noteq> CHR ''%''" | (pct) "c = CHR ''%''" "p = []" | (conv) "c = CHR ''%''" "p \<noteq> []" by blast
  then show ?case
  proof cases
    case lit
    then obtain t' where t': "fmt_text d p args buf = Inr t'" "t = c # t'" using 2(3) by (auto simp: kbind_Inr)
    then have q: "outq_ok (put_char_out c q) \<and> outq_text (put_char_out c q) = outq_text q @ [c]"
      using put_char_out_ok [OF 2(4), of c] 2(5) by auto
    show ?thesis using 2(1) [OF lit t'(1), of "put_char_out c q"] q t'(2) 2(5) lit by simp
  next
    case pct
    then have "t = ''%''" using 2(3) by simp
    then show ?thesis using pct put_char_out_ok [OF 2(4), of "CHR ''%''"] by auto
  next
    case conv
    then obtain t1 q' as b t2 where k: "conversion d p args buf = Inr (t1, q', as, b)" "fmt_text d q' as b = Inr t2"
        "t = t1 @ t2"
      using 2(3) by (auto simp: kbind_Inr split: sum.split_asm)
    then have q: "outq_ok (put_str_out t1 q) \<and> outq_text (put_str_out t1 q) = outq_text q @ t1"
      using put_str_out_ok 2(4,5) by auto
    show ?thesis using 2(2) [OF _ conv(2) k(1) refl refl refl k(2), of "put_str_out t1 q"] q k 2(5) conv by simp
  qed
qed simp

section \<open>The list of modules\<close>

text \<open>The tokens of a comma-separated list.\<close>

fun split_commas :: "string \<Rightarrow> string list" where
  "split_commas [] = [[]]"
| "split_commas (c # p) =
     (if c = CHR '','' then [] # split_commas p
      else (c # hd (split_commas p)) # tl (split_commas p))"

lemma split_commas_nonempty [simp]: "split_commas p \<noteq> []"
  by (induction p) auto

lemma token_match_iff: "len \<le> length tok \<Longrightarrow> token_match m len tok \<longleftrightarrow> m = take len tok"
proof (induction m len tok rule: token_match.induct)
  case (2 m ms len tok)
  then show ?case by (cases tok; cases len) auto
qed auto

lemma module_scan_iff:
  "module_scan m (pre @ p) (length pre) p \<longleftrightarrow> m \<in> set ((pre @ hd (split_commas p)) # tl (split_commas p))"
proof (induction p arbitrary: pre)
  case Nil
  then show ?case by (simp add: token_match_iff)
next
  case (Cons c p)
  show ?case
  proof (cases "c = CHR '',''")
    case True
    have "module_scan m p 0 p \<longleftrightarrow> m \<in> set (split_commas p)"
      using Cons [of "[]"] by simp
    then show ?thesis using True by (simp add: token_match_iff)
  next
    case False
    then show ?thesis using Cons [of "pre @ [c]"] by simp
  qed
qed

lemma module_tag_take: "module_tag n m = take n (takeWhile (\<lambda>c. c \<noteq> CHR '']'') m)"
  by (induction n m rule: module_tag.induct) auto

lemma string_equal_eq: "string_equal a b \<longleftrightarrow> a = b"
  by (induction a b rule: string_equal.induct) auto

end
