(* ===== verification/Console_Log.thy ===== *)
theory Console_Log
  imports Devfs
begin

text \<open>
  The console's output queue and the kernel log as lists of bytes: what a write appends, what the
  writer task and a read take out, and that draining the queue ends.
\<close>

section \<open>The output queue\<close>

definition tx_wf :: "console \<Rightarrow> bool" where
  "tx_wf c \<longleftrightarrow> length (con_tx c) = CONSOLE_TX_SIZE \<and> con_tx_head c < CONSOLE_TX_SIZE \<and> con_tx_tail c < CONSOLE_TX_SIZE"

definition tx_count :: "nat \<Rightarrow> nat \<Rightarrow> nat" where
  "tx_count h t = (h + CONSOLE_TX_SIZE - t) mod CONSOLE_TX_SIZE"

definition tx_pending :: "console \<Rightarrow> u8 list" where
  "tx_pending c = ring_view (con_tx c) (con_tx_tail c) (tx_count (con_tx_head c) (con_tx_tail c))"

text \<open>What a terminal shows for a text: a lone line feed gets a carriage return in front.\<close>

fun onlcr :: "u8 \<Rightarrow> u8 list \<Rightarrow> u8 list" where
  "onlcr prev [] = []"
| "onlcr prev (b # p) = (if b = LF \<and> prev \<noteq> CR then [CR, b] else [b]) @ onlcr b p"

lemma tx_count_cases: "h < CONSOLE_TX_SIZE \<Longrightarrow> t < CONSOLE_TX_SIZE \<Longrightarrow>
    tx_count h t = (if t \<le> h then h - t else h + CONSOLE_TX_SIZE - t)"
  by (auto simp: tx_count_def mod_if)

lemma length_tx_pending: "tx_wf c \<Longrightarrow> length (tx_pending c) = tx_count (con_tx_head c) (con_tx_tail c)"
  unfolding tx_pending_def by (rule length_ring_view) (auto simp: tx_wf_def tx_count_cases)

lemma tx_room_eq: "tx_wf c \<Longrightarrow> tx_room c = 255 - length (tx_pending c)"
  unfolding length_tx_pending by (auto simp: tx_wf_def tx_room_def tx_count_cases mod_if)

lemma tx_put_pending:
  assumes w: "tx_wf c" and r: "0 < tx_room c"
  shows "tx_wf (tx_put b c)" "tx_pending (tx_put b c) = tx_pending c @ [b]"
proof -
  let ?h = "con_tx_head c" and ?t = "con_tx_tail c" and ?b = "con_tx c"
  let ?n = "tx_count ?h ?t"
  have l: "length ?b = 256" "?h < 256" "?t < 256" using w by (auto simp: tx_wf_def)
  then show "tx_wf (tx_put b c)" by (simp add: tx_wf_def tx_put_def)
  have n: "?n < 255" using r tx_room_eq [OF w] length_tx_pending [OF w] by simp
  have h: "(?t + ?n) mod 256 = ?h" using l by (auto simp: tx_count_cases mod_if)
  have n': "tx_count ((?h + 1) mod 256) ?t = ?n + 1"
    using l n by (auto simp: tx_count_cases mod_if split: if_splits)
  have "ring_view (ring_write ?b ((?t + ?n) mod length ?b) [b]) ?t (?n + length [b]) = ring_view ?b ?t ?n @ [b]"
    using l n by (intro ring_view_write) simp_all
  then have "ring_view (?b[?h := b]) ?t (?n + 1) = ring_view ?b ?t ?n @ [b]"
    using l h ring_write_one [of ?h ?b b] by simp
  then show "tx_pending (tx_put b c) = tx_pending c @ [b]"
    using n' by (simp add: tx_pending_def tx_put_def)
qed

lemma tx_pending_last [simp]: "tx_wf (c\<lparr>con_last := b\<rparr>) = tx_wf c" "tx_pending (c\<lparr>con_last := b\<rparr>) = tx_pending c"
  "tx_room (c\<lparr>con_last := b\<rparr>) = tx_room c"
  by (simp_all add: tx_wf_def tx_pending_def tx_room_def)

lemma tx_put_frame [simp]: "con_last (tx_put b c) = con_last c" "con_out (tx_put b c) = con_out c"
  "con_tx_sem (tx_put b c) = con_tx_sem c" "con_writer_seen (tx_put b c) = con_writer_seen c"
  by (simp_all add: tx_put_def)

lemma console_queue_appends:
  assumes "tx_wf c" "console_queue p c = (n, c')"
  shows "tx_wf c' \<and> n \<le> length p \<and> tx_pending c' = tx_pending c @ onlcr (con_last c) (take n p) \<and>
    con_last c' = last (con_last c # take n p) \<and> (n < length p \<longrightarrow> tx_room c' < 2) \<and> con_out c' = con_out c \<and>
    con_tx_sem c' = con_tx_sem c"
  using assms
proof (induction p c arbitrary: n c' rule: console_queue.induct)
  case (1 c)
  then show ?case by simp
next
  case (2 b p c)
  let ?crlf = "b = LF \<and> con_last c \<noteq> CR"
  let ?c1 = "if ?crlf then tx_put CR c else c"
  let ?c2 = "(tx_put b ?c1)\<lparr>con_last := b\<rparr>"
  show ?case
  proof (cases "tx_room c < (if ?crlf then 2 else 1)")
    case True
    then show ?thesis using "2.prems" by (auto simp: Let_def split: if_splits)
  next
    case False
    obtain m where m: "console_queue p ?c2 = (m, c')" "n = Suc m"
      using "2.prems"(2) False by (auto simp: Let_def split: prod.splits if_splits)
    have c1: "tx_wf ?c1" "tx_pending ?c1 = tx_pending c @ (if ?crlf then [CR] else [])" "0 < tx_room ?c1"
      using False tx_put_pending [OF "2.prems"(1), of CR] tx_room_eq "2.prems"(1) by (auto split: if_splits)
    have c2: "tx_wf ?c2" "tx_pending ?c2 = tx_pending c @ (if ?crlf then [CR] else []) @ [b]"
      using tx_put_pending [OF c1(1,3), of b] c1(2) by simp_all
    note ih = "2.IH" [OF refl False refl refl c2(1) m(1)]
    show ?thesis using ih c2 m(2) by auto
  qed
qed

section \<open>Draining it\<close>

lemma tx_chunk_result:
  assumes "length (con_tx c) = CONSOLE_TX_SIZE" "con_tx_head c < CONSOLE_TX_SIZE" "t < CONSOLE_TX_SIZE"
  shows "tx_chunk m c t = (ring_view (con_tx c) t (min m (tx_count (con_tx_head c) t)),
     (t + min m (tx_count (con_tx_head c) t)) mod CONSOLE_TX_SIZE)"
  using assms(3)
proof (induction m arbitrary: t)
  case 0
  then show ?case by (simp add: ring_view_def)
next
  case (Suc m)
  let ?h = "con_tx_head c" and ?b = "con_tx c"
  let ?n = "tx_count ?h t" and ?t' = "(t + 1) mod CONSOLE_TX_SIZE"
  show ?case
  proof (cases "t = ?h")
    case True
    then show ?thesis using Suc.prems assms by (simp add: tx_count_cases ring_view_def)
  next
    case False
    have t': "?t' = (if t = 255 then 0 else t + 1)" using Suc.prems by (auto simp: mod_if)
    have n: "0 < ?n" "?n < 256" "tx_count ?h ?t' = ?n - 1"
      unfolding t' using False Suc.prems assms(2) by (auto simp: tx_count_cases)
    have j: "min (Suc m) ?n = Suc (min m (?n - 1))" using n(1) by (cases ?n) simp_all
    have v: "ring_view ?b t (min (Suc m) ?n) = ?b ! t # ring_view ?b ?t' (min m (?n - 1))"
      using j n assms(1) Suc.prems ring_view_Cons [of t ?b "Suc (min m (?n - 1))"] by simp
    have "(?t' + min m (?n - 1)) mod 256 = (t + min (Suc m) ?n) mod 256"
      unfolding j by (simp add: mod_add_left_eq)
    then show ?thesis using False Suc.IH [of ?t'] v n(3) by simp
  qed
qed

lemma emit_chunk:
  assumes "0 \<notin> set p" "length p \<le> 127"
  shows "concat (emit_chunks p) = p"
proof -
  have "takeWhile (\<lambda>c. c \<noteq> 0) p = p" using assms(1) by (auto simp: takeWhile_eq_all_conv)
  then show ?thesis using assms(2) by (cases p) auto
qed

lemma console_drain_all:
  assumes "tx_wf c"
  shows "\<exists>c'. console_drain k c = Some (k + length (tx_pending c), c') \<and> tx_wf c' \<and> tx_pending c' = [] \<and>
    (0 \<notin> set (tx_pending c) \<longrightarrow> concat (con_out c') = concat (con_out c) @ tx_pending c) \<and>
    con_last c' = con_last c \<and> con_tx_sem c' = con_tx_sem c \<and> con_writer_seen c' = con_writer_seen c"
  using assms
proof (induction "length (tx_pending c)" arbitrary: c k rule: less_induct)
  case less
  let ?h = "con_tx_head c" and ?t = "con_tx_tail c" and ?b = "con_tx c"
  let ?n = "tx_count ?h ?t"
  have l: "length ?b = 256" "?h < 256" "?t < 256" using less.prems by (auto simp: tx_wf_def)
  show ?case
  proof (cases "?t = ?h")
    case True
    then have "tx_pending c = []" using l by (simp add: tx_pending_def tx_count_cases ring_view_def)
    then show ?thesis using True less.prems by (subst console_drain.simps) simp
  next
    case False
    let ?m = "min 64 ?n"
    let ?tmp = "ring_view ?b ?t ?m"
    let ?c1 = "(console_emit ?tmp c)\<lparr>con_tx_tail := (?t + ?m) mod 256\<rparr>"
    have n: "0 < ?n" "?n < 256" using False l by (auto simp: tx_count_cases)
    have ch: "tx_chunk 64 c ?t = (?tmp, (?t + ?m) mod 256)" using tx_chunk_result [of c ?t 64] l by simp
    have lt: "length ?tmp = ?m" using l n by simp
    have n1: "tx_count ?h ((?t + ?m) mod 256) = ?n - ?m"
      using l n by (auto simp: tx_count_cases mod_if min_def split: if_splits)
    have s: "tx_pending c = ?tmp @ tx_pending ?c1"
      using ring_view_split [of ?m ?n ?b ?t] l n n1 by (simp add: tx_pending_def console_emit_def)
    have w1: "tx_wf ?c1" using l by (simp add: tx_wf_def console_emit_def)
    have "length (tx_pending ?c1) < length (tx_pending c)" using s lt n(1) by simp
    from less.hyps [OF this w1, of "k + ?m"] obtain c' where c':
      "console_drain (k + ?m) ?c1 = Some (k + ?m + length (tx_pending ?c1), c')" "tx_wf c'" "tx_pending c' = []"
      "0 \<notin> set (tx_pending ?c1) \<longrightarrow> concat (con_out c') = concat (con_out ?c1) @ tx_pending ?c1"
      "con_last c' = con_last ?c1" "con_tx_sem c' = con_tx_sem ?c1" "con_writer_seen c' = con_writer_seen ?c1"
      by blast
    have "console_drain k c = console_drain (k + ?m) ?c1"
      using False ch lt by (subst console_drain.simps) simp
    moreover have "concat (con_out ?c1) = concat (con_out c) @ ?tmp" if "0 \<notin> set ?tmp"
      using emit_chunk [OF that] lt by (simp add: console_emit_def)
    moreover have "con_last ?c1 = con_last c" "con_tx_sem ?c1 = con_tx_sem c" "con_writer_seen ?c1 = con_writer_seen c"
      by (simp_all add: console_emit_def)
    ultimately show ?thesis
      using c' s lt by (intro exI [of _ c']) auto
  qed
qed

section \<open>The kernel log\<close>

definition kmsg_wf :: "kmsg \<Rightarrow> bool" where
  "kmsg_wf m \<longleftrightarrow> length (kmsg_ring m) = KMSG_RING_SIZE \<and> unat (kmsg_head m - kmsg_tail m) \<le> KMSG_RING_SIZE"

definition kmsg_contents :: "kmsg \<Rightarrow> u8 list" where
  "kmsg_contents m = ring_view (kmsg_ring m) (unat (kmsg_tail m) mod KMSG_RING_SIZE) (unat (kmsg_head m - kmsg_tail m))"

definition last_bytes :: "nat \<Rightarrow> 'a list \<Rightarrow> 'a list" where
  "last_bytes n xs = drop (length xs - n) xs"

lemma index_mod: "unat (w + of_nat i :: u32w) mod 1024 = (unat w mod 1024 + i) mod 1024"
proof -
  have "unat (w + of_nat i) mod 1024 = (unat w + i) mod 2 ^ 32 mod 1024"
    by (simp add: unat_word_ariths unat_of_nat mod_add_right_eq)
  also have "\<dots> = (unat w + i) mod 1024" by (rule mod_mod_cancel) simp
  finally show ?thesis by (simp add: mod_add_left_eq)
qed

lemma kmsg_put_contents:
  assumes w: "kmsg_wf m"
  shows "kmsg_wf (kmsg_put b m)" "kmsg_contents (kmsg_put b m) = last_bytes 1024 (kmsg_contents m @ [b])"
proof -
  let ?h = "kmsg_head m" and ?t = "kmsg_tail m" and ?r = "kmsg_ring m"
  define n where "n = unat (?h - ?t)"
  define t where "t = unat ?t mod 1024"
  have n: "n \<le> 1024" "length ?r = 1024" "t < 1024" using w by (auto simp: kmsg_wf_def n_def t_def)
  have hd: "?h = ?t + of_nat n" by (simp add: n_def)
  have hm: "unat ?h mod 1024 = (t + n) mod 1024" unfolding hd t_def by (rule index_mod)
  have d: "?h + 1 - ?t = of_nat (n + 1)" using hd by (simp add: algebra_simps)
  have un: "unat (of_nat k :: u32w) = k" if "k \<le> 1025" for k using that by (simp add: unat_of_nat)
  have gt: "(?h + 1 - ?t > of_nat 1024) = (n = 1024)"
    unfolding d word_less_nat_alt using n(1) un [of "n + 1"] un [of 1024] by auto
  let ?r' = "?r[unat ?h mod 1024 := b]"
  have c: "kmsg_contents m = ring_view ?r t n" by (simp add: kmsg_contents_def n_def t_def)
  have r': "?r' = ring_write ?r ((t + n) mod 1024) [b]" using hm n ring_write_one [of "(t + n) mod 1024" ?r b] by simp
  show "kmsg_wf (kmsg_put b m)"
  proof (cases "n = 1024")
    case True
    then show ?thesis using gt n un [of 1024] by (simp add: kmsg_put_def Let_def kmsg_wf_def)
  next
    case False
    have "unat (?h + 1 - ?t) = n + 1" unfolding d using n(1) by (intro un) simp
    then show ?thesis using False gt n by (simp add: kmsg_put_def Let_def kmsg_wf_def)
  qed
  show "kmsg_contents (kmsg_put b m) = last_bytes 1024 (kmsg_contents m @ [b])"
  proof (cases "n = 1024")
    case True
    let ?t1 = "(t + 1) mod 1024"
    have p: "(t + n) mod 1024 = (?t1 + 1023) mod 1024" using True by (simp add: mod_add_left_eq)
    have e: "?h + 1 - of_nat 1024 = ?t + of_nat 1" using hd True by simp
    have t1: "unat (?t + of_nat 1) mod 1024 = ?t1" unfolding index_mod t_def by simp
    have "kmsg_contents (kmsg_put b m) = ring_view ?r' ?t1 1024"
      using True gt e t1 un [of 1024] by (simp add: kmsg_put_def Let_def kmsg_contents_def add.commute)
    also have "\<dots> = ring_view ?r ?t1 1023 @ [b]"
      using ring_view_write [of ?t1 ?r 1023 "[b]"] n unfolding r' p by simp
    also have "ring_view ?r ?t1 1023 = tl (kmsg_contents m)"
      using n True ring_view_Cons [of t ?r 1024] unfolding c by simp
    also have "tl (kmsg_contents m) @ [b] = last_bytes 1024 (kmsg_contents m @ [b])"
      using n True by (simp add: last_bytes_def c drop_Suc)
    finally show ?thesis .
  next
    case False
    then have l: "n < 1024" using n(1) by simp
    have "unat (?h + 1 - ?t) = n + 1" unfolding d using n(1) by (intro un) simp
    then have "kmsg_contents (kmsg_put b m) = ring_view ?r' t (n + 1)"
      using False gt by (simp add: kmsg_put_def Let_def kmsg_contents_def t_def)
    also have "\<dots> = kmsg_contents m @ [b]"
      using ring_view_write [of t ?r n "[b]"] n l unfolding r' c by simp
    also have "\<dots> = last_bytes 1024 (kmsg_contents m @ [b])"
      using n l by (simp add: last_bytes_def c)
    finally show ?thesis .
  qed
qed

lemma last_bytes_append: "last_bytes n (last_bytes n xs @ ys) = last_bytes n (xs @ ys)"
  by (cases "n \<le> length xs") (simp_all add: last_bytes_def add.commute)

lemma v_kmsg_append_contents:
  assumes "kmsg_wf m"
  shows "kmsg_wf (v_kmsg_append bs m) \<and> kmsg_contents (v_kmsg_append bs m) = last_bytes 1024 (kmsg_contents m @ bs)"
  using assms
proof (induction bs arbitrary: m)
  case Nil
  then show ?case by (simp add: v_kmsg_append_def last_bytes_def kmsg_wf_def kmsg_contents_def)
next
  case (Cons b bs)
  then show ?case
    using Cons.IH [OF kmsg_put_contents(1) [OF Cons.prems, of b]] kmsg_put_contents(2) [OF Cons.prems, of b]
      last_bytes_append [of 1024 "kmsg_contents m @ [b]" bs]
    by (simp add: v_kmsg_append_def)
qed

lemma kmsg_take_contents:
  assumes "kmsg_wf m" "kmsg_take len m = (bs, m')"
  shows "bs = take len (kmsg_contents m) \<and> kmsg_wf m' \<and> kmsg_contents m' = drop len (kmsg_contents m)"
  using assms
proof (induction len arbitrary: m bs m')
  case (Suc len)
  let ?h = "kmsg_head m" and ?t = "kmsg_tail m" and ?r = "kmsg_ring m"
  define n where "n = unat (?h - ?t)"
  define t where "t = unat ?t mod 1024"
  have n: "n \<le> 1024" "length ?r = 1024" "t < 1024" using Suc.prems by (auto simp: kmsg_wf_def n_def t_def)
  have c: "kmsg_contents m = ring_view ?r t n" by (simp add: kmsg_contents_def n_def t_def)
  show ?case
  proof (cases "?t = ?h")
    case True
    then show ?thesis using Suc.prems c by (auto simp: n_def ring_view_def)
  next
    case False
    let ?m1 = "m\<lparr>kmsg_tail := ?t + 1\<rparr>"
    have z: "0 < n" using False by (simp add: n_def unat_gt_0)
    have u1: "unat (?h - (?t + 1)) = n - 1"
      using False by (simp add: n_def diff_diff_eq [symmetric] unat_minus_one)
    have t1: "unat (?t + 1) mod 1024 = (t + 1) mod 1024"
      using index_mod [of ?t 1] by (simp add: t_def)
    have w1: "kmsg_wf ?m1" using n u1 by (simp add: kmsg_wf_def)
    have s: "kmsg_contents m = ?r ! t # kmsg_contents ?m1"
      using ring_view_Cons [of t ?r n] n z u1 t1 unfolding c by (simp add: kmsg_contents_def)
    obtain bs1 where b: "kmsg_take len ?m1 = (bs1, m')" "bs = ?r ! t # bs1"
      using Suc.prems(2) False by (auto simp: t_def Let_def split: prod.splits)
    then show ?thesis using Suc.IH [OF w1 b(1)] s by simp
  qed
qed simp

section \<open>Waking the writer\<close>

lemma remove_from_blocked_current: "current_task (remove_from_blocked_list t k) = current_task k"
  by (simp add: remove_from_blocked_list_def remove_task_def Let_def)

lemma give_and_pend_returns:
  assumes "s_observers (semas (sy_k s) sem) = None" "fst pri < 16"
  shows "\<exists>k. give_and_pend pri sem s = Inr (s\<lparr>sy_k := k\<rparr>) \<and> current_task k = current_task (sy_k s) \<and>
    s_observers (semas k sem) = None"
proof (cases "sem = 0")
  case True
  then show ?thesis using assms(1)
    by (intro exI [of _ "sy_k s"]) (simp add: give_and_pend_def v_semaphore_give_from_isr_def)
next
  case False
  have w: "wake_observers None k' = Some k'" for k' by (subst wake_observers.simps) simp
  have o: "s_observers (semas (snd (wait_q_dequeue sem (v_perf_on_ipc_give (sy_k s)))) sem) = None"
    using assms(1) by (simp add: wait_q_dequeue_def Let_def)
  show ?thesis
    using False assms(2) o w
    by (auto simp: give_and_pend_def v_semaphore_give_from_isr_def vaios_isr_priority_is_safe_def
        semaphore_give_common_def mwait_wake_observers_def Let_def remove_from_blocked_semas
        remove_from_blocked_current add_to_ready_list_def wait_q_dequeue_def split: prod.splits)
qed

end
