(* ===== verification/Printf_Stream.thy ===== *)
theory Printf_Stream
  imports Printf Console_Log
begin

text \<open>
  What \<open>printf_fd\<close> needs of the file behind its descriptor, as a locale, and that it then delivers
  its text exactly once, in order, and returns its length. The console is such a file.
\<close>

lemma of_char_zero_nat: "of_char CHR 0x00 = (0 :: nat)"
  by simp

lemma of_char_zero: "(of_char c :: u8) = 0 \<longleftrightarrow> c = CHR 0x00"
proof -
  have "(of_char c :: u8) = of_nat (of_char c)" by (simp add: of_nat_of_char)
  moreover have "of_char c < (2 :: nat) ^ 8" using nat_of_char_less_256 [of c] by simp
  ultimately have "unat (of_char c :: u8) = of_char c" by (simp add: unat_of_nat)
  then have "(of_char c :: u8) = 0 \<longleftrightarrow> of_char c = (of_char CHR 0x00 :: nat)" 
    by (metis of_char_zero_nat unat_eq_zero)
  then show ?thesis by (simp only: of_char_eq_iff)
qed

lemma bytes_of_zero [simp]: "0 \<in> set (bytes_of s) \<longleftrightarrow> CHR 0x00 \<in> set s"
  by (auto simp: bytes_of_def of_char_zero image_iff dest: sym)

section \<open>The text of a call\<close>

function pf_text :: "dbl_ops \<Rightarrow> string \<Rightarrow> varg list \<Rightarrow> string kres" where
  "pf_text d [] args = Inr []"
| "pf_text d (c # p) args =
     (if c \<noteq> CHR ''%'' then kbind (pf_text d p args) (\<lambda>t. Inr (c # t))
      else
        case pf_conv d p args of
          Inl e \<Rightarrow> Inl e
        | Inr None \<Rightarrow> Inr []
        | Inr (Some (t, q, args)) \<Rightarrow> kbind (pf_text d q args) (\<lambda>t'. Inr (t @ t')))"
  by pat_completeness auto
termination
  by (relation "measure (\<lambda>(d, p, args). length p)") (auto dest: pf_conv_rest)

section \<open>A sink of bytes\<close>

text \<open>
  \<open>taken s b s'\<close>: between \<open>s\<close> and \<open>s'\<close> the file took the bytes \<open>b\<close>. A write takes a prefix; when it
  takes nothing, the next turn of the other tasks brings the file closer to taking something.
\<close>

locale byte_sink =
  fixes tab :: "ops_id \<Rightarrow> 'i sys file_ops" and rest :: "'i sys \<Rightarrow> 'i sys" and fd :: int
    and ready :: "'i sys \<Rightarrow> bool" and taken :: "'i sys \<Rightarrow> u8 list \<Rightarrow> 'i sys \<Rightarrow> bool" and stall :: "'i sys \<Rightarrow> nat"
  assumes taken_nil: "ready s \<Longrightarrow> taken s [] s"
    and taken_append: "taken s a s' \<Longrightarrow> taken s' b s'' \<Longrightarrow> taken s (a @ b) s''"
    and taken_ready: "taken s a s' \<Longrightarrow> ready s'"
    and write_takes: "ready s \<Longrightarrow> b \<noteq> [] \<Longrightarrow> 0 \<notin> set b \<Longrightarrow>
      \<exists>n s'. v_file_write tab fd b s = Inr (int n, s') \<and> n \<le> length b \<and> taken s (take n b) s' \<and>
        (n = 0 \<longrightarrow> taken s' [] (rest s') \<and> stall (rest s') < stall s)"
begin

lemma printf_out_from:
  assumes "ready s" "0 \<notin> set b" "k \<le> length b"
  shows "\<exists>s'. printf_out tab rest fd b k s = Some (Inr s') \<and> taken s (drop k b) s'"
  using assms
proof (induction "(length b - k, stall s)" arbitrary: k s rule: wf_induct_rule [OF wf_lex_prod [OF wf_less_than wf_less_than]])
  case (1 k s)
  show ?case
  proof (cases "k < length b")
    case False
    then have "drop k b = []" by simp
    then show ?thesis using False 1(2) taken_nil by (subst printf_out.simps) simp
  next
    case True
    have nz: "0 \<notin> set (drop k b)" using 1(3) by (meson in_set_dropD)
    obtain n s' where w: "v_file_write tab fd (drop k b) s = Inr (int n, s')" "n \<le> length b - k"
        "taken s (take n (drop k b)) s'" "n = 0 \<longrightarrow> taken s' [] (rest s') \<and> stall (rest s') < stall s"
      using write_takes [OF 1(2) _ nz] True by auto
    define s1 where "s1 = (if n = 0 then rest s' else s')"
    have t1: "taken s (take n (drop k b)) s1"
      using w(3,4) taken_append [of s "[]" s' "[]" "rest s'"] by (auto simp: s1_def)
    have "((length b - (k + n), stall s1), (length b - k, stall s)) \<in> less_than <*lex*> less_than"
      using w(2,4) True by (cases "n = 0") (auto simp: s1_def)
    moreover have "k + n \<le> length b" using w(2) True by simp
    ultimately obtain s2 where
      s2: "printf_out tab rest fd b (k + n) s1 = Some (Inr s2)" "taken s1 (drop (k + n) b) s2"
      using 1(1) [OF _ taken_ready [OF t1] 1(3)] by blast
    have "take n (drop k b) @ drop (k + n) b = drop k b" by (metis add.commute append_take_drop_id drop_drop)
    then have "taken s (drop k b) s2" using taken_append [OF t1 s2(2)] by simp
    moreover have "printf_out tab rest fd b k s = printf_out tab rest fd b (k + n) s1"
      using True w(1) by (subst printf_out.simps) (simp add: s1_def)
    ultimately show ?thesis using s2(1) by simp
  qed
qed

lemma pf_out_takes:
  assumes "ready s" "0 \<notin> set (bytes_of t)"
  shows "\<exists>s'. pf_out tab rest fd t s = Inr s' \<and> taken s (bytes_of t) s'"
  using printf_out_from [OF assms, of 0] by (auto simp: pf_out_def)

text \<open>\<open>put s t f\<close>: since \<open>s\<close> the text \<open>t\<close> was put, all but the chunk of which the file has taken.\<close>

definition put :: "'i sys \<Rightarrow> string \<Rightarrow> 'i pf \<Rightarrow> bool" where
  "put s t f \<longleftrightarrow> pf_total f = length t \<and>
     (\<exists>u. t = u @ pf_chunk f \<and> taken s (bytes_of u) (pf_sys f))"

lemma put_ready: "put s t f \<Longrightarrow> ready (pf_sys f)"
  by (auto simp: put_def dest: taken_ready)

lemma pf_put_put:
  assumes "put s t f" "CHR 0x00 \<notin> set (t @ [c])"
  shows "\<exists>f'. pf_put tab rest fd c f = Inr f' \<and> put s (t @ [c]) f'"
proof (cases "length (pf_chunk f @ [c]) = 64")
  case True
  obtain u where u: "t = u @ pf_chunk f" "taken s (bytes_of u) (pf_sys f)" "pf_total f = length t"
    using assms(1) by (auto simp: put_def)
  have "0 \<notin> set (bytes_of (pf_chunk f @ [c]))"
    using assms(2) u(1) by auto
  then obtain s' where s': "pf_out tab rest fd (pf_chunk f @ [c]) (pf_sys f) = Inr s'"
      "taken (pf_sys f) (bytes_of (pf_chunk f @ [c])) s'"
    using pf_out_takes [OF put_ready [OF assms(1)]] by blast
  have "put s (t @ [c]) (f\<lparr>pf_total := pf_total f + 1, pf_chunk := [], pf_sys := s'\<rparr>)"
    using u taken_append [OF u(2) s'(2)] by (simp add: put_def bytes_of_def)
  then show ?thesis using True s'(1) by (simp add: pf_put_def Let_def)
next
  case False
  then show ?thesis using assms(1) by (auto simp: pf_put_def Let_def put_def)
qed

lemma pf_puts_put:
  "put s t f \<Longrightarrow> CHR 0x00 \<notin> set (t @ u) \<Longrightarrow> \<exists>f'. pf_puts tab rest fd u f = Inr f' \<and> put s (t @ u) f'"
proof (induction u arbitrary: t f)
  case (Cons c u)
  then obtain f1 where "pf_put tab rest fd c f = Inr f1" "put s (t @ [c]) f1" using pf_put_put [of s t f c] by auto
  then show ?case using Cons(1) [of "t @ [c]" f1] Cons(3) by simp
qed simp

lemma printf_loop_put:
  assumes "pf_text d p args = Inr u" "put s t f" "CHR 0x00 \<notin> set (t @ u)"
  shows "\<exists>f'. printf_loop tab rest d fd p args f = Inr f' \<and> put s (t @ u) f'"
  using assms
proof (induction d p args arbitrary: t u f rule: pf_text.induct)
  case (2 d c p args)
  show ?case
  proof (cases "c = CHR ''%''")
    case False
    then obtain u' where u': "pf_text d p args = Inr u'" "u = c # u'" using 2(3) by (auto simp: kbind_Inr)
    obtain f1 where f1: "pf_put tab rest fd c f = Inr f1" "put s (t @ [c]) f1"
      using pf_put_put [OF 2(4), of c] 2(5) u'(2) by auto
    then show ?thesis using 2(1) [OF False u'(1) f1(2)] 2(5) u'(2) False by simp
  next
    case True
    show ?thesis
    proof (cases "pf_conv d p args = Inr None")
      case None: True
      then show ?thesis using True 2(3,4) by simp
    next
      case False
      then obtain t1 q as u' where k: "pf_conv d p args = Inr (Some (t1, q, as))" "pf_text d q as = Inr u'" "u = t1 @ u'"
        using True 2(3) by (auto simp: kbind_Inr split: sum.split_asm option.split_asm)
      obtain f1 where f1: "pf_puts tab rest fd t1 f = Inr f1" "put s (t @ t1) f1"
        using pf_puts_put [OF 2(4), of t1] 2(5) k(3) by auto
      then show ?thesis using 2(2) [OF _ k(1) refl refl refl k(2) f1(2)] 2(5) k True by simp
    qed
  qed
qed simp

lemma printf_fd_delivers:
  assumes "pf_text d fmt args = Inr t" "CHR 0x00 \<notin> set t" "ready s"
  shows "\<exists>s'. printf_fd tab rest d fd fmt args s = Inr (length t, s') \<and> taken s (bytes_of t) s'"
proof -
  have "put s [] \<lparr>pf_chunk = [], pf_total = 0, pf_sys = s\<rparr>"
    using taken_nil [OF assms(3)] by (simp add: put_def bytes_of_def)
  then obtain f where f: "printf_loop tab rest d fd fmt args \<lparr>pf_chunk = [], pf_total = 0, pf_sys = s\<rparr> = Inr f" "put s t f"
    using printf_loop_put [OF assms(1), of s "[]"] assms(2) by auto
  then obtain u where u: "t = u @ pf_chunk f" "taken s (bytes_of u) (pf_sys f)" "pf_total f = length t"
    by (auto simp: put_def)
  show ?thesis
  proof (cases "pf_chunk f = []")
    case True
    then show ?thesis using f(1) u by (auto simp: printf_fd_def)
  next
    case False
    obtain s' where "pf_out tab rest fd (pf_chunk f) (pf_sys f) = Inr s'" "taken (pf_sys f) (bytes_of (pf_chunk f)) s'"
      using pf_out_takes [OF put_ready [OF f(2)], of "pf_chunk f"] assms(2) u(1) by auto
    then show ?thesis using f(1) u False taken_append [OF u(2), of "bytes_of (pf_chunk f)" s']
      by (simp add: printf_fd_def bytes_of_def)
  qed
qed

end

section \<open>The console as a sink\<close>

definition con_ready :: "int \<Rightarrow> 'i sys \<Rightarrow> bool" where
  "con_ready fd s \<longleftrightarrow> (\<exists>p. fd_lookup fd s = Some (Console_Ops, p)) \<and> tx_wf (sy_con s) \<and> con_writer_seen (sy_con s) \<and>
     s_observers (semas (sy_k s) (con_tx_sem (sy_con s))) = None \<and> 0 \<notin> set (tx_pending (sy_con s))"

text \<open>What the hardware was given and what is queued for it.\<close>

definition con_sent :: "'i sys \<Rightarrow> u8 list" where
  "con_sent s = concat (con_out (sy_con s)) @ tx_pending (sy_con s)"

definition con_taken :: "int \<Rightarrow> 'i sys \<Rightarrow> u8 list \<Rightarrow> 'i sys \<Rightarrow> bool" where
  "con_taken fd s b s' \<longleftrightarrow> con_ready fd s' \<and> con_sent s' = con_sent s @ onlcr (con_last (sy_con s)) b \<and>
     con_last (sy_con s') = last (con_last (sy_con s) # b)"

definition con_stall :: "'i sys \<Rightarrow> nat" where
  "con_stall s = (if tx_room (sy_con s) < 2 then 1 else 0)"

text \<open>A turn of the other tasks in which the writer task drains the queue.\<close>

definition writer_turn :: "'i sys \<Rightarrow> 'i sys" where
  "writer_turn s = (case console_drain 0 (sy_con s) of None \<Rightarrow> s | Some (n, c) \<Rightarrow> s\<lparr>sy_con := c\<rparr>)"

lemma onlcr_append: "onlcr l (a @ b) = onlcr l a @ onlcr (last (l # a)) b"
  by (induction l a rule: onlcr.induct) auto

lemma onlcr_zero: "0 \<notin> set p \<Longrightarrow> 0 \<notin> set (onlcr l p)"
  by (induction l p rule: onlcr.induct) auto

lemma console_queue_frame:
  "console_queue p c = (n, c') \<Longrightarrow> con_writer_seen c' = con_writer_seen c \<and> (n = 0 \<longrightarrow> c' = c)"
proof (induction p c arbitrary: n c' rule: console_queue.induct)
  case (2 b p c)
  let ?crlf = "b = LF \<and> con_last c \<noteq> CR"
  let ?c2 = "(tx_put b (if ?crlf then tx_put CR c else c))\<lparr>con_last := b\<rparr>"
  show ?case
  proof (cases "tx_room c < (if ?crlf then 2 else 1)")
    case True
    then show ?thesis using "2.prems" by (simp add: Let_def)
  next
    case False
    obtain m where m: "console_queue p ?c2 = (m, c')" "n = Suc m"
      using "2.prems" False by (auto simp: Let_def split: prod.splits if_splits)
    then show ?thesis using "2.IH" [OF refl False refl refl m(1)] by simp
  qed
qed simp

lemma console_write_takes:
  assumes r: "con_ready fd s" and b: "0 \<notin> set b"
  shows "\<exists>n s'. console_write p b s = Inr (int n, s') \<and> n \<le> length b \<and> con_taken fd s (take n b) s' \<and>
    (n < length b \<longrightarrow> tx_room (sy_con s') < 2) \<and> (n = 0 \<longrightarrow> s' = s)"
proof -
  obtain n c' where q: "console_queue b (sy_con s) = (n, c')" by fastforce
  note a = console_queue_appends [OF _ q]
  have a: "tx_wf c'" "n \<le> length b" "tx_pending c' = tx_pending (sy_con s) @ onlcr (con_last (sy_con s)) (take n b)"
    "con_last c' = last (con_last (sy_con s) # take n b)" "n < length b \<longrightarrow> tx_room c' < 2" "con_out c' = con_out (sy_con s)"
    "con_tx_sem c' = con_tx_sem (sy_con s)" "con_writer_seen c' = con_writer_seen (sy_con s)"
    "n = 0 \<longrightarrow> c' = sy_con s"
    using a r console_queue_frame [OF q] by (auto simp: con_ready_def)
  have "0 \<notin> set (take n b)" using b by (meson in_set_takeD)
  then have z: "0 \<notin> set (tx_pending c')" using a(3) r onlcr_zero by (auto simp: con_ready_def)
  obtain k where k: "console_write p b s = Inr (int n, s\<lparr>sy_con := c', sy_k := k\<rparr>)" "current_task k = current_task (sy_k s)"
      "s_observers (semas k (con_tx_sem c')) = None" "n = 0 \<longrightarrow> k = sy_k s"
  proof (cases "n = 0")
    case True
    then show thesis using that [of "sy_k s"] q r a by (simp add: console_write_def con_ready_def)
  next
    case False
    then show thesis
      using that give_and_pend_returns [of "s\<lparr>sy_con := c'\<rparr>" "con_tx_sem c'" "(11, 0)"] q r a(7)
      by (auto simp: console_write_def con_ready_def)
  qed
  have "con_taken fd s (take n b) (s\<lparr>sy_con := c', sy_k := k\<rparr>)"
    using r a k(2,3) z by (auto simp: con_taken_def con_ready_def con_sent_def fd_lookup_def)
  moreover have "n = 0 \<longrightarrow> s\<lparr>sy_con := c', sy_k := k\<rparr> = s" using a(9) k(4) by simp
  ultimately show ?thesis using k(1) a(2,5) by (intro exI [of _ n] exI [of _ "s\<lparr>sy_con := c', sy_k := k\<rparr>"]) simp
qed

text \<open>
  The file behind a console descriptor is a sink for every schedule in which the writer task gets a
  turn while a printer sleeps: \<open>rest\<close> loses nothing and leaves the queue empty.
\<close>

lemma console_sink:
  fixes rest :: "'i sys \<Rightarrow> 'i sys"
  assumes c: "tab Console_Ops = console_ops"
    and rest: "\<And>s. con_ready fd s \<Longrightarrow> con_taken fd s [] (rest s) \<and> tx_pending (sy_con (rest s)) = []"
  shows "byte_sink tab rest fd (con_ready fd) (con_taken fd) con_stall"
proof
  show "con_taken fd s [] s" if "con_ready fd s" for s using that by (simp add: con_taken_def)
  show "con_taken fd s (a @ b) s''" if "con_taken fd s a s'" "con_taken fd s' b s''" for s a s' b s''
    using that by (auto simp: con_taken_def onlcr_append)
  show "con_ready fd s'" if "con_taken fd s a s'" for s a s' using that by (simp add: con_taken_def)
next
  fix s :: "'i sys" and b :: "u8 list" assume r: "con_ready fd s" and b: "b \<noteq> []" "0 \<notin> set b"
  obtain p where p: "fd_lookup fd s = Some (Console_Ops, p)" using r by (auto simp: con_ready_def)
  have w: "v_file_write tab fd b s = console_write p b s"
    using p c by (simp add: v_file_write_def console_ops_def no_ops_def)
  obtain n s' where n: "console_write p b s = Inr (int n, s')" "n \<le> length b" "con_taken fd s (take n b) s'"
      "n < length b \<longrightarrow> tx_room (sy_con s') < 2" "n = 0 \<longrightarrow> s' = s"
    using console_write_takes [OF r b(2), of p] by blast
  have "con_taken fd s' [] (rest s') \<and> con_stall (rest s') < con_stall s" if z: "n = 0"
  proof -
    have s': "s' = s" "tx_room (sy_con s) < 2" using n(4,5) z b(1) by auto
    then show ?thesis using rest [OF r] tx_room_eq [of "sy_con (rest s)"]
      by (simp add: con_stall_def con_taken_def con_ready_def)
  qed
  then show "\<exists>n s'. v_file_write tab fd b s = Inr (int n, s') \<and> n \<le> length b \<and> con_taken fd s (take n b) s' \<and>
      (n = 0 \<longrightarrow> con_taken fd s' [] (rest s') \<and> con_stall (rest s') < con_stall s)"
    using n w by (intro exI [of _ n] exI [of _ s']) simp
qed

lemma writer_turn_drains:
  assumes "con_ready fd s"
  shows "con_taken fd s [] (writer_turn s) \<and> tx_pending (sy_con (writer_turn s)) = []"
proof -
  obtain c where "console_drain 0 (sy_con s) = Some (length (tx_pending (sy_con s)), c)" "tx_wf c" "tx_pending c = []"
      "concat (con_out c) = concat (con_out (sy_con s)) @ tx_pending (sy_con s)"
      "con_last c = con_last (sy_con s)" "con_tx_sem c = con_tx_sem (sy_con s)" "con_writer_seen c = con_writer_seen (sy_con s)"
    using console_drain_all [of "sy_con s" 0] assms by (auto simp: con_ready_def)
  then show ?thesis using assms
    by (auto simp: writer_turn_def con_taken_def con_ready_def con_sent_def fd_lookup_def)
qed

interpretation con_sink: byte_sink "ops_tab iops cfg app" writer_turn fd "con_ready fd" "con_taken fd" con_stall
  by (rule console_sink) (simp_all add: writer_turn_drains)

end
