(* ===== verification/Log_Lines.thy ===== *)
theory Log_Lines
  imports Log Format_Lemmas Printf_Stream
begin

text \<open>
  The two log buffers as one stream of bytes: what the hardware was given, what a transfer is
  sending, what waits for one, and what is being written. Flushing, the end of a transfer and the
  loop that waits for room keep the stream; storing a line appends it.
\<close>

section \<open>The invariant and the stream\<close>

definition text_ok :: "u8 list \<Rightarrow> nat \<Rightarrow> bool" where
  "text_ok st n \<longleftrightarrow> n < 256 \<and> 0 \<notin> set (take n st) \<and> (n > 0 \<longrightarrow> st ! n = 0)"

definition log_ok :: "'i lsys \<Rightarrow> bool" where
  "log_ok s \<longleftrightarrow> (\<forall>b. length (ls_store s b) = 256) \<and> ls_reading s \<noteq> ls_writing s \<and>
     text_ok (ls_store s (ls_writing s)) (ls_head s) \<and> text_ok (ls_store s (ls_reading s)) (ls_to_read s) \<and>
     (ls_lock s \<longrightarrow> ls_to_read s = 0 \<and> (\<exists>n. ls_dma s = Some (ls_reading s, n))) \<and>
     (\<not> ls_lock s \<longrightarrow> ls_dma s = None)"

definition log_stream :: "'i lsys \<Rightarrow> u8 list" where
  "log_stream s = concat (con_out (sy_con (ls_sys s))) @
     (case ls_dma s of None \<Rightarrow> [] | Some (b, n) \<Rightarrow> take n (ls_store s b)) @
     take (ls_to_read s) (ls_store s (ls_reading s)) @ take (ls_head s) (ls_store s (ls_writing s))"

lemma text_ok_zero [simp]: "text_ok st 0"
  by (simp add: text_ok_def)

lemma text_ok_print:
  assumes "text_ok st n" "length st = 256" "n > 0"
  shows "takeWhile (\<lambda>c. c \<noteq> 0) st = take n st"
proof -
  have "st = take n st @ 0 # drop (Suc n) st"
    using assms by (metis Cons_nth_drop_Suc append_take_drop_id text_ok_def)
  then have "takeWhile (\<lambda>c. c \<noteq> 0) st = takeWhile (\<lambda>c. c \<noteq> 0) (take n st @ 0 # drop (Suc n) st)" by simp
  also have "\<dots> = take n st" using assms(1) by (subst takeWhile_append2) (auto simp: text_ok_def)
  finally show ?thesis .
qed

lemma log_swap_simps:
  "ls_reading s \<noteq> ls_writing s \<Longrightarrow> log_swap s = s\<lparr>ls_to_read := ls_head s, ls_writing := ls_reading s,
     ls_reading := ls_writing s, ls_head := 0\<rparr>"
  by (cases "ls_writing s") (auto simp: log_swap_def)

lemma log_swap_ok:
  assumes "log_ok s" "\<not> ls_lock s" "ls_to_read s = 0"
  shows "log_ok (log_swap s)" "log_stream (log_swap s) = log_stream s" "ls_to_read (log_swap s) = ls_head s"
    "ls_head (log_swap s) = 0" "\<not> ls_lock (log_swap s)" "sy_k (ls_sys (log_swap s)) = sy_k (ls_sys s)"
  using assms by (auto simp: log_ok_def log_swap_simps log_stream_def)

section \<open>Output\<close>

lemma dma_done_ok:
  assumes "log_ok s"
  shows "log_ok (dma_done s)" "log_stream (dma_done s) = log_stream s" "\<not> ls_lock (dma_done s)"
    "ls_to_read (dma_done s) = ls_to_read s" "sy_k (ls_sys (dma_done s)) = sy_k (ls_sys s)"
  using assms
  by (auto simp: log_ok_def log_stream_def dma_done_def dma_tx_complete_callback_def hw_put_def Let_def split: option.splits)

lemma log_send_ok:
  assumes "log_ok s" "\<not> ls_lock s" "ls_to_read s > 0"
  shows "log_ok (log_send dma s)" "log_stream (log_send dma s) = log_stream s"
    "sy_k (ls_sys (log_send dma s)) = sy_k (ls_sys s)" "ls_head (log_send dma s) = ls_head s"
    "ls_to_read (log_send dma s) = 0"
proof -
  have d: "ls_dma s = None" using assms(1,2) by (simp add: log_ok_def)
  have t: "takeWhile (\<lambda>c. c \<noteq> 0) (ls_store s (ls_reading s)) = take (ls_to_read s) (ls_store s (ls_reading s))"
    using assms(1,3) by (intro text_ok_print) (auto simp: log_ok_def)
  show "log_ok (log_send dma s)" "log_stream (log_send dma s) = log_stream s"
    "sy_k (ls_sys (log_send dma s)) = sy_k (ls_sys s)" "ls_head (log_send dma s) = ls_head s"
    "ls_to_read (log_send dma s) = 0"
    using assms(1,2) d t
    by (auto simp: log_send_def log_ok_def log_stream_def direct_dma_print_def dma_done_def log_print_def hw_put_def Let_def)
qed

lemma v_log_flush_ok:
  assumes "log_ok s"
  shows "log_ok (v_log_flush dma s)" "log_stream (v_log_flush dma s) = log_stream s"
    "ls_to_read (v_log_flush dma s) = 0" "sy_k (ls_sys (v_log_flush dma s)) = sy_k (ls_sys s)"
    "\<not> ls_lock s \<Longrightarrow> ls_to_read s = 0 \<Longrightarrow> ls_head (v_log_flush dma s) = 0"
proof -
  have "log_ok (v_log_flush dma s) \<and> log_stream (v_log_flush dma s) = log_stream s \<and> ls_to_read (v_log_flush dma s) = 0 \<and>
    sy_k (ls_sys (v_log_flush dma s)) = sy_k (ls_sys s) \<and>
    (\<not> ls_lock s \<longrightarrow> ls_to_read s = 0 \<longrightarrow> ls_head (v_log_flush dma s) = 0)"
  proof (cases "ls_lock s")
    case True
    then show ?thesis using assms by (auto simp: v_log_flush_def log_ok_def)
  next
    case False
    define s1 where "s1 = (if ls_to_read s = 0 \<and> ls_head s > 0 then log_swap s else s)"
    have s1: "log_ok s1" "log_stream s1 = log_stream s" "\<not> ls_lock s1" "sy_k (ls_sys s1) = sy_k (ls_sys s)"
      "ls_to_read s = 0 \<longrightarrow> ls_head s1 = 0"
      using log_swap_ok [OF assms False] assms False by (auto simp: s1_def)
    show ?thesis
    proof (cases "ls_to_read s1 > 0")
      case True
      then have "v_log_flush dma s = log_send dma s1"
        using False by (auto simp: v_log_flush_def s1_def [symmetric])
      then show ?thesis using log_send_ok [OF s1(1,3) True, of dma] s1 by auto
    next
      case zero: False
      then have "v_log_flush dma s = s1" using False by (simp add: v_log_flush_def s1_def [symmetric])
      then show ?thesis using zero s1 by simp
    qed
  qed
  then show "log_ok (v_log_flush dma s)" "log_stream (v_log_flush dma s) = log_stream s"
    "ls_to_read (v_log_flush dma s) = 0" "sy_k (ls_sys (v_log_flush dma s)) = sy_k (ls_sys s)"
    "\<not> ls_lock s \<Longrightarrow> ls_to_read s = 0 \<Longrightarrow> ls_head (v_log_flush dma s) = 0" by simp_all
qed

section \<open>Waiting for a transfer\<close>

text \<open>
  What the polling loops rely on: a transfer ends by itself, after at most \<open>m\<close> turns of the rest of
  the system, which logs nothing, loses nothing and starts no transfer of its own.
\<close>

definition settles :: "nat \<Rightarrow> ('i lsys \<Rightarrow> 'i lsys) \<Rightarrow> bool" where
  "settles m rest \<longleftrightarrow> (\<forall>s. log_ok s \<longrightarrow> log_ok (rest s) \<and> log_stream (rest s) = log_stream s \<and>
     (\<exists>j. 0 < j \<and> j \<le> m \<and> \<not> ls_lock ((rest ^^ j) s)) \<and>
     (ls_to_read s = 0 \<longrightarrow> ls_to_read (rest s) = 0) \<and> (ls_head s = 0 \<longrightarrow> ls_head (rest s) = 0) \<and>
     scheduler_running (sy_k (ls_sys (rest s))) = scheduler_running (sy_k (ls_sys s)))"

text \<open>One turn of a polling loop.\<close>

definition log_pass :: "bool \<Rightarrow> ('i lsys \<Rightarrow> 'i lsys) \<Rightarrow> 'i lsys \<Rightarrow> 'i lsys" where
  "log_pass dma rest s = rest (v_log_flush dma s)"

lemma funpow_first: "(f ^^ Suc n) x = (f ^^ n) (f x)"
  by (simp only: funpow_Suc_right o_apply)

lemma settles_turns:
  assumes "settles m rest" "log_ok s"
  shows "log_ok ((rest ^^ i) s) \<and> log_stream ((rest ^^ i) s) = log_stream s \<and>
    (ls_to_read s = 0 \<longrightarrow> ls_to_read ((rest ^^ i) s) = 0) \<and> (ls_head s = 0 \<longrightarrow> ls_head ((rest ^^ i) s) = 0) \<and>
    scheduler_running (sy_k (ls_sys ((rest ^^ i) s))) = scheduler_running (sy_k (ls_sys s))"
proof (induction i)
  case (Suc i)
  then show ?case using assms(1) by (simp add: settles_def)
qed (simp add: assms(2))

lemma locked_pass: "ls_lock s \<Longrightarrow> log_pass dma rest s = rest s"
  by (simp add: log_pass_def v_log_flush_def)

lemma locked_passes:
  assumes "\<And>i. i < j \<Longrightarrow> ls_lock ((rest ^^ i) s)"
  shows "(log_pass dma rest ^^ j) s = (rest ^^ j) s"
  using assms
proof (induction j)
  case (Suc j)
  then have "(log_pass dma rest ^^ j) s = (rest ^^ j) s" "ls_lock ((rest ^^ j) s)" by simp_all
  then show ?case by (simp add: locked_pass)
qed simp

text \<open>
  A round: the flush, and the turns until no transfer runs. Only the state at its end can make a loop
  stop that did not stop at its beginning.
\<close>

lemma round_ends:
  assumes S: "settles m rest" and ok: "log_ok s"
  obtains j s' where "0 < j" "j \<le> m" "(log_pass dma rest ^^ j) s = s'" "log_ok s'" "log_stream s' = log_stream s"
    "\<not> ls_lock s'" "ls_to_read s' = 0" "scheduler_running (sy_k (ls_sys s')) = scheduler_running (sy_k (ls_sys s))"
    "\<not> ls_lock s \<and> ls_to_read s = 0 \<longrightarrow> ls_head s' = 0"
    "\<forall>i. 0 < i \<and> i < j \<longrightarrow> ls_lock ((log_pass dma rest ^^ i) s)"
proof -
  let ?t = "v_log_flush dma s"
  note f = v_log_flush_ok [OF ok, of dma]
  define j where "j = (LEAST j. 0 < j \<and> \<not> ls_lock ((rest ^^ j) ?t))"
  obtain j0 where j0: "0 < j0" "j0 \<le> m" "\<not> ls_lock ((rest ^^ j0) ?t)" using S f(1) by (auto simp: settles_def)
  have j: "0 < j" "\<not> ls_lock ((rest ^^ j) ?t)" "j \<le> j0"
    using LeastI [of "\<lambda>j. 0 < j \<and> \<not> ls_lock ((rest ^^ j) ?t)" j0] Least_le [of "\<lambda>j. 0 < j \<and> \<not> ls_lock ((rest ^^ j) ?t)" j0] j0
    by (auto simp: j_def)
  have lk: "ls_lock ((rest ^^ i) ?t)" if "0 < i" "i < j" for i
    using not_less_Least [of i "\<lambda>j. 0 < j \<and> \<not> ls_lock ((rest ^^ j) ?t)"] that by (auto simp: j_def)
  have eq: "(log_pass dma rest ^^ i) s = (rest ^^ i) ?t" if i: "0 < i" "i \<le> j" for i
  proof -
    obtain n where n: "i = Suc n" using i(1) by (cases i) auto
    have "(log_pass dma rest ^^ n) (rest ?t) = (rest ^^ n) (rest ?t)"
    proof (rule locked_passes)
      show "ls_lock ((rest ^^ q) (rest ?t))" if "q < n" for q
        using lk [of "Suc q"] that i(2) n by (simp only: funpow_first)
    qed
    then show ?thesis unfolding n funpow_first log_pass_def [of dma rest s] .
  qed
  note t = settles_turns [OF S f(1), of j]
  show thesis
  proof (rule that [of j "(rest ^^ j) ?t"])
    show "\<forall>i. 0 < i \<and> i < j \<longrightarrow> ls_lock ((log_pass dma rest ^^ i) s)" using eq lk by simp
  qed (use j j0(2) eq [of j] t f in auto)
qed

section \<open>Waiting for room\<close>

lemma log_spin_turns:
  "(\<And>i. i < j \<Longrightarrow> ls_lock ((log_pass dma rest ^^ i) s) \<or> ls_to_read ((log_pass dma rest ^^ i) s) > 0) \<Longrightarrow> j \<le> g \<Longrightarrow>
    log_spin dma rest g s = log_spin dma rest (g - j) ((log_pass dma rest ^^ j) s)"
proof (induction j arbitrary: g s)
  case (Suc j)
  obtain g' where g: "g = Suc g'" "j \<le> g'" using Suc.prems(2) by (cases g) auto
  have "ls_lock s \<or> ls_to_read s > 0" using Suc.prems(1) [of 0] by simp
  then have "log_spin dma rest g s = log_spin dma rest g' (log_pass dma rest s)" by (simp add: g(1) log_pass_def)
  also have "\<dots> = log_spin dma rest (g' - j) ((log_pass dma rest ^^ j) (log_pass dma rest s))"
    by (rule Suc.IH [OF _ g(2)]) (use Suc.prems(1) [of "Suc _", unfolded funpow_first] in simp)
  finally show ?case unfolding funpow_first g(1) diff_Suc_Suc .
qed simp

text \<open>
  The loop ends by itself when the transfer does so within the guard; the guard may run out just then,
  and clearing the lock and the count changes nothing.
\<close>

lemma log_spin_ends:
  assumes "settles m rest" "log_ok s" "ls_lock s \<or> ls_to_read s > 0" "m \<le> g"
  shows "\<exists>out s'. log_spin dma rest g s = (out, s') \<and> log_ok s' \<and> log_stream s' = log_stream s \<and> \<not> ls_lock s' \<and>
    ls_to_read s' = 0 \<and> scheduler_running (sy_k (ls_sys s')) = scheduler_running (sy_k (ls_sys s)) \<and>
    (if out then s'\<lparr>ls_lock := False, ls_to_read := 0\<rparr> else s') = s'"
proof -
  obtain j s' where j: "0 < j" "j \<le> m" "(log_pass dma rest ^^ j) s = s'" "log_ok s'" "log_stream s' = log_stream s"
    "\<not> ls_lock s'" "ls_to_read s' = 0" "scheduler_running (sy_k (ls_sys s')) = scheduler_running (sy_k (ls_sys s))"
    "\<forall>i. 0 < i \<and> i < j \<longrightarrow> ls_lock ((log_pass dma rest ^^ i) s)"
    by (rule round_ends [OF assms(1,2), of dma]) blast
  have b: "ls_lock ((log_pass dma rest ^^ i) s) \<or> ls_to_read ((log_pass dma rest ^^ i) s) > 0" if "i < j" for i
    using that assms(3) j(9) by (cases "i = 0") auto
  have "log_spin dma rest g s = log_spin dma rest (g - j) s'" using log_spin_turns [OF b, of j g] j(2,3) assms(4) by simp
  moreover have "log_spin dma rest (g - j) s' = (g - j = 0, s')" using j(6,7) by (cases "g - j") simp_all
  moreover have "s'\<lparr>ls_lock := False, ls_to_read := 0\<rparr> = s'" using j(6,7) by simp
  ultimately show ?thesis using j(4-8) by simp
qed

lemma log_room_free:
  assumes "ls_head s + n + 100 \<le> 256 \<or> \<not> ls_lock s \<and> ls_to_read s = 0" "log_ok s" "n \<le> 47"
  shows "\<exists>s'. log_room dma rest False in_isr n s = Some (Some s') \<and> log_ok s' \<and> log_stream s' = log_stream s \<and>
    ls_head s' + n + 100 \<le> 256 \<and> scheduler_running (sy_k (ls_sys s')) = scheduler_running (sy_k (ls_sys s))"
proof (cases "ls_head s + n + 100 \<le> 256")
  case True
  then show ?thesis using assms(2) by (intro exI [of _ s]) (simp add: log_room.simps)
next
  case False
  then have "log_room dma rest False in_isr n s = Some (Some (log_swap s))"
    using assms(1) by (simp add: log_room.simps)
  then show ?thesis using log_swap_ok [OF assms(2)] assms(1,3) False by (intro exI [of _ "log_swap s"]) simp
qed

lemma log_room_result:
  assumes "settles m rest" "log_ok s" "n \<le> 47"
    and g: "m \<le> (if scheduler_running (sy_k (ls_sys s)) \<and> \<not> in_isr then 1000 else 10000000)"
  shows "\<exists>s'. log_room dma rest False in_isr n s = Some (Some s') \<and> log_ok s' \<and> log_stream s' = log_stream s \<and>
    ls_head s' + n + 100 \<le> 256 \<and> scheduler_running (sy_k (ls_sys s')) = scheduler_running (sy_k (ls_sys s))"
proof (cases "ls_head s + n + 100 \<le> 256 \<or> \<not> ls_lock s \<and> ls_to_read s = 0")
  case True
  then show ?thesis using log_room_free assms(2,3) by blast
next
  case False
  then have b: "ls_lock s \<or> ls_to_read s > 0" by auto
  obtain out s1 where s1: "log_spin dma rest (if scheduler_running (sy_k (ls_sys s)) \<and> \<not> in_isr then 1000 else 10000000) s = (out, s1)"
    "log_ok s1" "log_stream s1 = log_stream s" "\<not> ls_lock s1" "ls_to_read s1 = 0"
    "scheduler_running (sy_k (ls_sys s1)) = scheduler_running (sy_k (ls_sys s))"
    "(if out then s1\<lparr>ls_lock := False, ls_to_read := 0\<rparr> else s1) = s1"
    using log_spin_ends [OF assms(1,2) b g, of dma] by blast
  have "log_room dma rest False in_isr n s = log_room dma rest False in_isr n s1"
    using False b s1(1,7) by (subst log_room.simps) (simp add: Let_def)
  then show ?thesis using log_room_free [of s1 n] assms(3) s1 by auto
qed

section \<open>Storing a line\<close>

abbreviation (input) wtext :: "'i lsys \<Rightarrow> u8 list" where
  "wtext s \<equiv> take (ls_head s) (ls_store s (ls_writing s))"

text \<open>\<open>wrote s bs s'\<close>: the bytes were appended to the writing buffer, and nothing else of the logger changed.\<close>

definition wrote :: "'i lsys \<Rightarrow> u8 list \<Rightarrow> 'i lsys \<Rightarrow> bool" where
  "wrote s bs s' \<longleftrightarrow> ls_sys s' = ls_sys s \<and> ls_writing s' = ls_writing s \<and> ls_reading s' = ls_reading s \<and>
     ls_lock s' = ls_lock s \<and> ls_to_read s' = ls_to_read s \<and> ls_dma s' = ls_dma s \<and>
     (\<forall>b. b \<noteq> ls_writing s \<longrightarrow> ls_store s' b = ls_store s b) \<and> length (ls_store s' (ls_writing s)) = 256 \<and>
     ls_head s' = ls_head s + length bs \<and> wtext s' = wtext s @ bs"

lemma wrote_trans: "wrote s a s' \<Longrightarrow> wrote s' b s'' \<Longrightarrow> wrote s (a @ b) s''"
  by (auto simp: wrote_def)

lemma wrote_put:
  "wrote s a s' \<Longrightarrow> ls_head s + length a + length bs \<le> 256 \<Longrightarrow> wrote s (a @ bs) (log_put bs s')"
  using wrote_trans [of s a s' bs "log_put bs s'"]
  by (auto simp: wrote_def log_put_def log_poke_def memcpy_into_def)

lemma wrote_poke:
  "wrote s a s' \<Longrightarrow> ls_head s + length a + length bs \<le> 256 \<Longrightarrow> wrote s a (log_poke bs s')"
  using wrote_trans [of s a s' "[]" "log_poke bs s'"]
  by (auto simp: wrote_def log_poke_def memcpy_into_def)

text \<open>The bytes of a line: the prefix, at most 95 characters of the message, a mark when it is full, and CR LF.\<close>

definition line_bytes :: "string \<Rightarrow> string \<Rightarrow> u8 list" where
  "line_bytes pre msg = bytes_of pre @ bytes_of msg @ (if length msg = 95 then bytes_of ''~'' else []) @ [CR, LF]"

lemma length_bytes_of [simp]: "length (bytes_of t) = length t"
  by (simp add: bytes_of_def)

lemma log_line_wrote:
  assumes len: "length (ls_store s (ls_writing s)) = 256"
    and room: "ls_head s + length pre + 100 \<le> 256" and msg: "length msg \<le> 95"
  shows "wrote s (line_bytes pre msg) (log_line pre msg s)"
    "ls_store (log_line pre msg s) (ls_writing s) ! ls_head (log_line pre msg s) = 0"
proof -
  let ?p = "bytes_of pre" and ?m = "bytes_of msg" and ?t = "if length msg = 95 then bytes_of ''~'' else []"
  define s1 where "s1 = log_put ?m (log_poke (?m @ [0]) (log_put ?p s))"
  define s2 where "s2 = (if length msg = LOG_MSG_MAX_LEN - 1 then log_put (bytes_of ''~'') s1 else s1)"
  define s3 where "s3 = log_put [LF] (log_put [CR] s2)"
  have "wrote s [] s" using len by (simp add: wrote_def)
  then have "wrote s (([] @ ?p) @ ?m) s1" unfolding s1_def using room msg by (intro wrote_put wrote_poke) simp_all
  then have "wrote s ((?p @ ?m) @ ?t) s2"
    using room msg wrote_put [of s "?p @ ?m" s1 "bytes_of ''~''"] by (simp add: s2_def)
  then have w3: "wrote s ((((?p @ ?m) @ ?t) @ [CR]) @ [LF]) s3"
    unfolding s3_def using room msg by (intro wrote_put) simp_all
  then have "wrote s ((((?p @ ?m) @ ?t) @ [CR]) @ [LF]) (log_poke [0] s3)" using room msg by (intro wrote_poke) simp_all
  moreover have e: "log_line pre msg s = log_poke [0] s3" by (simp add: log_line_def Let_def s1_def s2_def s3_def)
  ultimately show "wrote s (line_bytes pre msg) (log_line pre msg s)" by (simp add: line_bytes_def)
  have h: "ls_writing s3 = ls_writing s" "length (ls_store s3 (ls_writing s)) = 256" "ls_head s3 < 256"
    using w3 room msg by (auto simp: wrote_def)
  show "ls_store (log_line pre msg s) (ls_writing s) ! ls_head (log_line pre msg s) = 0"
    unfolding e using h by (simp add: log_poke_def memcpy_into_def nth_append)
qed

lemma log_line_ok:
  assumes ok: "log_ok s" and room: "ls_head s + length pre + 100 \<le> 256" and msg: "length msg \<le> 95"
    and z: "CHR 0x00 \<notin> set (pre @ msg)"
  shows "log_ok (log_line pre msg s)" "log_stream (log_line pre msg s) = log_stream s @ line_bytes pre msg"
proof -
  let ?s = "log_line pre msg s"
  have len: "length (ls_store s b) = 256" and ne: "ls_reading s \<noteq> ls_writing s" for b
    using ok by (simp_all add: log_ok_def)
  note l = log_line_wrote [OF len room msg]
  have w: "ls_writing ?s = ls_writing s" "ls_reading ?s = ls_reading s" "ls_store ?s (ls_reading s) = ls_store s (ls_reading s)"
    using l(1) ne by (auto simp: wrote_def)
  have len': "length (ls_store ?s b) = 256" for b
    using l(1) len [of b] by (cases "b = ls_writing s") (auto simp: wrote_def)
  have hd: "ls_head ?s < 256" using l(1) room msg by (simp add: wrote_def line_bytes_def split: if_splits)
  have "0 \<notin> set (line_bytes pre msg)" using z by (auto simp: line_bytes_def)
  then have "0 \<notin> set (wtext ?s)" using l(1) ok by (auto simp: wrote_def log_ok_def text_ok_def)
  then have t: "text_ok (ls_store ?s (ls_writing s)) (ls_head ?s)" using hd l(2) w(1) by (simp add: text_ok_def)
  have f: "ls_lock ?s = ls_lock s" "ls_to_read ?s = ls_to_read s" "ls_dma ?s = ls_dma s" using l(1) by (simp_all add: wrote_def)
  show "log_ok ?s" using ok t len' unfolding log_ok_def w f by blast
  have d: "(case ls_dma s of None \<Rightarrow> [] | Some (b, n) \<Rightarrow> take n (ls_store ?s b)) =
      (case ls_dma s of None \<Rightarrow> [] | Some (b, n) \<Rightarrow> take n (ls_store s b))"
    using ok w(3) by (cases "ls_lock s") (auto simp: log_ok_def)
  have x: "wtext ?s = wtext s @ line_bytes pre msg" "ls_sys ?s = ls_sys s" using l(1) unfolding wrote_def by blast+
  show "log_stream ?s = log_stream s @ line_bytes pre msg"
    unfolding log_stream_def f x d w(2,3) by simp
qed

section \<open>The prefix\<close>

lemma digit_char_nonzero: "k < 36 \<Longrightarrow> digit_char k \<noteq> CHR 0x00"
proof
  assume "k < 36" "digit_char k = CHR 0x00"
  then have "of_char (digit_char k) = (of_char CHR 0x00 :: nat)" by simp
  then show False using \<open>k < 36\<close> by (simp add: digit_char_def split: if_splits)
qed

lemma digits_nonzero:
  assumes "S \<subseteq> digit_char ` {..<b}" "b \<le> 36"
  shows "CHR 0x00 \<notin> S"
proof
  assume "CHR 0x00 \<in> S"
  then obtain k where "k < b" "digit_char k = CHR 0x00" using assms(1) by (auto simp: subset_iff image_iff)
  then show False using digit_char_nonzero [of k] assms(2) by simp
qed

text \<open>Every part of the prefix fits.\<close>

lemma log_prefix_fits:
  assumes "tk < 2 ^ 32"
  obtains t where "log_prefix ty tk =
      Inr (log_color ty @ ''['' @ log_name ty @ '' '' @ t @ '']'' @ CHR 0x1B # ''[0m '')"
    "utoa_simple tk 10 = Inr t" "digits_val 10 t = tk" "length t \<le> 10" "CHR 0x00 \<notin> set t"
proof -
  obtain t where t: "utoa_simple tk 10 = Inr t" "digits_val 10 t = tk" "\<And>k. tk < 10 ^ Suc k \<Longrightarrow> length t \<le> Suc k"
      "set t \<subseteq> digit_char ` {..<10}"
    by (rule utoa_simple_value [of 10 tk]) simp_all
  have l: "length t \<le> 10" using t(3) [of 9] assms by simp
  have "CHR 0x00 \<notin> set t" using digits_nonzero [OF t(4)] by simp
  moreover have "length (log_color ty) = 5" "length (log_name ty) \<le> 7" by (simp_all add: log_color_def log_name_def)
  ultimately show thesis using t l
    by (intro that [of t]) (simp_all add: log_prefix_def pre_str_def pre_chr_def Let_def)
qed

section \<open>Draining\<close>

definition log_idle :: "'i lsys \<Rightarrow> bool" where
  "log_idle s \<longleftrightarrow> \<not> ls_lock s \<and> ls_to_read s = 0 \<and> ls_head s = 0"

lemma log_drain_idle: "log_idle s \<Longrightarrow> log_drain dma rest g s = s"
  by (cases g) (simp_all add: log_idle_def)

lemma log_drain_turns:
  "(\<And>i. i < j \<Longrightarrow> \<not> log_idle ((log_pass dma rest ^^ i) s)) \<Longrightarrow> j \<le> g \<Longrightarrow>
    log_drain dma rest g s = log_drain dma rest (g - j) ((log_pass dma rest ^^ j) s)"
proof (induction j arbitrary: g s)
  case (Suc j)
  obtain g' where g: "g = Suc g'" "j \<le> g'" using Suc.prems(2) by (cases g) auto
  have "\<not> log_idle s" using Suc.prems(1) [of 0] by simp
  then have "log_drain dma rest g s = log_drain dma rest g' (log_pass dma rest s)" by (auto simp: g(1) log_idle_def log_pass_def)
  also have "\<dots> = log_drain dma rest (g' - j) ((log_pass dma rest ^^ j) (log_pass dma rest s))"
    by (rule Suc.IH [OF _ g(2)]) (use Suc.prems(1) [of "Suc _", unfolded funpow_first] in simp)
  finally show ?case unfolding funpow_first g(1) diff_Suc_Suc .
qed simp

lemma log_drain_round:
  assumes "settles m rest" "log_ok s" "\<not> log_idle s" "m \<le> g"
  shows "\<exists>j s'. j \<le> m \<and> log_drain dma rest g s = log_drain dma rest (g - j) s' \<and> log_ok s' \<and> log_stream s' = log_stream s \<and>
    \<not> ls_lock s' \<and> ls_to_read s' = 0 \<and> (\<not> ls_lock s \<and> ls_to_read s = 0 \<longrightarrow> ls_head s' = 0)"
proof -
  obtain j s' where j: "0 < j" "j \<le> m" "(log_pass dma rest ^^ j) s = s'" "log_ok s'" "log_stream s' = log_stream s"
    "\<not> ls_lock s'" "ls_to_read s' = 0" "scheduler_running (sy_k (ls_sys s')) = scheduler_running (sy_k (ls_sys s))"
    "\<not> ls_lock s \<and> ls_to_read s = 0 \<longrightarrow> ls_head s' = 0"
    "\<forall>i. 0 < i \<and> i < j \<longrightarrow> ls_lock ((log_pass dma rest ^^ i) s)"
    by (rule round_ends [OF assms(1,2), of dma])
  have b: "\<not> log_idle ((log_pass dma rest ^^ i) s)" if "i < j" for i
    using that assms(3) j(10) by (cases "i = 0") (auto simp: log_idle_def)
  have "log_drain dma rest g s = log_drain dma rest (g - j) s'"
    using log_drain_turns [OF b, of j g] j(2,3) assms(4) by simp
  then show ?thesis using j(2,4-9) by (intro exI [of _ j] exI [of _ s']) simp
qed

text \<open>Two rounds are enough: one for what is in flight or waits for a transfer, one for what is being written.\<close>

lemma log_drain_empties:
  assumes "settles m rest" "log_ok s" "2 * m \<le> g"
  shows "concat (con_out (sy_con (ls_sys (log_drain dma rest g s)))) = log_stream s \<and> log_idle (log_drain dma rest g s)"
proof -
  have all: "concat (con_out (sy_con (ls_sys s))) = log_stream s" if "log_idle s" "log_ok s" for s :: "'a lsys"
    using that by (simp add: log_idle_def log_stream_def log_ok_def)
  show ?thesis
  proof (cases "log_idle s")
    case True
    then show ?thesis using all assms(2) by (simp add: log_drain_idle)
  next
    case False
    obtain j s1 where s1: "j \<le> m" "log_drain dma rest g s = log_drain dma rest (g - j) s1" "log_ok s1"
      "log_stream s1 = log_stream s" "\<not> ls_lock s1" "ls_to_read s1 = 0"
      using log_drain_round [OF assms(1,2) False, of g dma] assms(3) by auto
    show ?thesis
    proof (cases "log_idle s1")
      case True
      then show ?thesis using all s1(3,4) by (simp add: s1(2) log_drain_idle)
    next
      case False
      have mg: "m \<le> g - j" using assms(3) s1(1) by simp
      obtain j' s2 where s2: "log_drain dma rest (g - j) s1 = log_drain dma rest (g - j - j') s2" "log_ok s2"
        "log_stream s2 = log_stream s1" "\<not> ls_lock s2" "ls_to_read s2 = 0" "ls_head s2 = 0"
        using log_drain_round [OF assms(1) s1(3) False mg, of dma] s1(5,6) by auto
      then have "log_idle s2" by (simp add: log_idle_def)
      then show ?thesis using all s2(2,3) s1(2,4) s2(1) by (simp add: log_drain_idle)
    qed
  qed
qed

lemma log_drain_gives_up:
  assumes "\<And>i. i < g \<Longrightarrow> ls_lock ((rest ^^ i) s)"
  shows "log_drain dma rest g s = (rest ^^ g) s"
proof -
  have e: "(log_pass dma rest ^^ i) s = (rest ^^ i) s" if "i \<le> g" for i using locked_passes [of i rest s dma] assms that by simp
  then have "\<not> log_idle ((log_pass dma rest ^^ i) s)" if "i < g" for i using assms that by (simp add: log_idle_def)
  then show ?thesis using log_drain_turns [of g dma rest s g] e [of g] by simp
qed

end
