(* ===== verification/Vfile_Refs.thy ===== *)
theory Vfile_Refs
  imports Vfile "HOL-Library.Sublist"
begin

text \<open>
  What the descriptor layer keeps true: a device node is found by name or by mount prefix, and the
  reference counts of named objects are the numbers of descriptors that refer to them.
\<close>

section \<open>Finding a node\<close>

text \<open>A name claims a path when they are equal, or when it is a mount: it ends in a slash and is a proper prefix.\<close>

definition node_claims :: "string \<Rightarrow> string \<Rightarrow> bool" where
  "node_claims name path \<longleftrightarrow> name = path \<or> name \<noteq> [] \<and> last name = CHR ''/'' \<and> strict_prefix name path"

lemma dev_match_iff:
  "dev_match prev n p = Some t \<longleftrightarrow>
     p = n @ t \<and> (t = [] \<or> (if n = [] then prev else Some (last n)) = Some CHR ''/'')"
  by (induction prev n p rule: dev_match.induct) (auto split: if_splits)

lemma dev_match_claims:
  "dev_match None n p = (if node_claims n p then Some (drop (length n) p) else None)"
proof (cases "dev_match None n p")
  case None
  then have "dev_match None n p \<noteq> Some t" for t by simp
  then have "\<not> node_claims n p"
    unfolding dev_match_iff node_claims_def strict_prefix_def prefix_def by (metis append_Nil2)
  then show ?thesis using None by simp
next
  case (Some t)
  then show ?thesis
    by (auto simp: dev_match_iff node_claims_def strict_prefix_def split: if_splits)
qed

lemma dev_scan_find:
  "dev_scan path ds = map_option (\<lambda>d. (d, drop (length (dn_name d)) path)) (find (\<lambda>d. node_claims (dn_name d) path) ds)"
  by (induction ds) (auto simp: dev_match_claims)

section \<open>References to named objects\<close>

definition fd_refs :: "(nat \<Rightarrow> nat \<Rightarrow> fd_entry) \<Rightarrow> ops_id \<Rightarrow> nat \<Rightarrow> (nat \<times> nat) set" where
  "fd_refs F ops p = {(t, fd). fd < VAIOS_MAX_FDS \<and> F t fd = \<lparr>fe_ops = Some ops, fe_priv = p\<rparr>}"

text \<open>
  \<open>named_ok ops F xs\<close>: \<open>xs\<close> are the reference counts and used flags of the table behind descriptors
  of kind \<open>ops\<close>; each count is the number of descriptors, a slot is used while there is one, and no
  descriptor points outside the table.
\<close>

definition named_ok :: "ops_id \<Rightarrow> (nat \<Rightarrow> nat \<Rightarrow> fd_entry) \<Rightarrow> (int \<times> bool) list \<Rightarrow> bool" where
  "named_ok ops F xs \<longleftrightarrow>
     (\<forall>t fd. fd < VAIOS_MAX_FDS \<and> fe_ops (F t fd) = Some ops \<longrightarrow> 0 < fe_priv (F t fd) \<and> fe_priv (F t fd) \<le> length xs) \<and>
     (\<forall>i < length xs. finite (fd_refs F ops (i + 1)) \<and> fst (xs ! i) = int (card (fd_refs F ops (i + 1))) \<and>
        (snd (xs ! i) \<longleftrightarrow> fst (xs ! i) > 0))"

abbreviation upd_fd :: "nat \<Rightarrow> nat \<Rightarrow> fd_entry \<Rightarrow> (nat \<Rightarrow> nat \<Rightarrow> fd_entry) \<Rightarrow> nat \<Rightarrow> nat \<Rightarrow> fd_entry" where
  "upd_fd t fd e F \<equiv> F(t := (F t)(fd := e))"

lemma fd_refs_upd:
  assumes "fd < VAIOS_MAX_FDS"
  shows "fd_refs (upd_fd t fd e F) ops p =
    (if e = \<lparr>fe_ops = Some ops, fe_priv = p\<rparr> then insert (t, fd) (fd_refs F ops p) else fd_refs F ops p - {(t, fd)})"
  using assms by (auto simp: fd_refs_def split: if_splits)

lemma fd_refs_memb: "(t, fd) \<in> fd_refs F ops p \<longleftrightarrow> fd < VAIOS_MAX_FDS \<and> fe_ops (F t fd) = Some ops \<and> fe_priv (F t fd) = p"
  by (auto simp: fd_refs_def)

text \<open>Opening one more descriptor for slot \<open>i\<close>, closing one, and changes to other descriptors.\<close>

lemma named_ok_add:
  assumes N: "named_ok ops F xs" and f: "fd < VAIOS_MAX_FDS" "fe_ops (F t fd) = None" and i: "i < length xs"
  shows "named_ok ops (upd_fd t fd \<lparr>fe_ops = Some ops, fe_priv = i + 1\<rparr> F) (xs[i := (fst (xs ! i) + 1, True)])"
proof -
  have n: "(t, fd) \<notin> fd_refs F ops p" for p using f by (simp add: fd_refs_memb)
  have "fst (xs ! i) \<ge> 0" using N i by (simp add: named_ok_def)
  then show ?thesis
    using N f i n unfolding named_ok_def
    by (auto simp: fd_refs_upd nth_list_update split: if_splits)
qed

lemma named_ok_drop:
  assumes N: "named_ok ops F xs" and f: "fd < VAIOS_MAX_FDS" "F t fd = \<lparr>fe_ops = Some ops, fe_priv = i + 1\<rparr>"
  shows "fst (xs ! i) > 0 \<and> i < length xs \<and>
    named_ok ops (upd_fd t fd FREE_FD F) (xs[i := (fst (xs ! i) - 1, fst (xs ! i) \<noteq> 1)])"
proof -
  have m: "(t, fd) \<in> fd_refs F ops (i + 1)" using f by (simp add: fd_refs_memb)
  have e: "fe_ops (F t fd) = Some ops" "fe_priv (F t fd) = i + 1" using f by simp_all
  have i: "i < length xs" using N f(1) e unfolding named_ok_def by (metis Suc_eq_plus1 Suc_le_eq)
  have c: "finite (fd_refs F ops (i + 1))" "fst (xs ! i) = int (card (fd_refs F ops (i + 1)))"
    using N i by (auto simp: named_ok_def)
  then have p: "0 < card (fd_refs F ops (i + 1))" using m by (auto simp: card_gt_0_iff)
  have o: "(t, fd) \<notin> fd_refs F ops (j + 1)" if "j \<noteq> i" for j using that f by (simp add: fd_refs_memb)
  then have "fd_refs F ops (j + 1) - {(t, fd)} = fd_refs F ops (j + 1)" if "j \<noteq> i" for j using that by blast
  then have "named_ok ops (upd_fd t fd FREE_FD F) (xs[i := (fst (xs ! i) - 1, fst (xs ! i) \<noteq> 1)])"
    using N f i m c p unfolding named_ok_def
    by (auto simp: fd_refs_upd nth_list_update card_Diff_singleton split: if_splits)
  then show ?thesis using i c p by simp
qed

lemma named_ok_other:
  assumes N: "named_ok ops F xs" and f: "fd < VAIOS_MAX_FDS" "fe_ops (F t fd) \<noteq> Some ops" "fe_ops e \<noteq> Some ops"
  shows "named_ok ops (upd_fd t fd e F) xs"
proof -
  have "(t, fd) \<notin> fd_refs F ops p" for p using f by (simp add: fd_refs_memb)
  then have "fd_refs (upd_fd t fd e F) ops p = fd_refs F ops p" for p
    using f by (auto simp: fd_refs_upd)
  then show ?thesis using N f by (auto simp: named_ok_def)
qed


lemma named_ok_counts: "named_ok ops F xs \<Longrightarrow> i < length xs \<Longrightarrow> 0 \<le> fst (xs ! i) \<and> (snd (xs ! i) \<longleftrightarrow> fst (xs ! i) > 0)"
  by (simp add: named_ok_def)

section \<open>The tables of names\<close>

definition sem_counts :: "'i sys \<Rightarrow> (int \<times> bool) list" where
  "sem_counts s = map (\<lambda>x. (ns_refcount x, ns_used x)) (sy_sems s)"

definition mtx_counts :: "'i sys \<Rightarrow> (int \<times> bool) list" where
  "mtx_counts s = map (\<lambda>x. (nm_refcount x, nm_used x)) (sy_mtxs s)"

definition names_ok :: "(string \<times> bool) list \<Rightarrow> bool" where
  "names_ok ns \<longleftrightarrow> inj_on (\<lambda>i. fst (ns ! i)) {i. i < length ns \<and> snd (ns ! i)}"

definition sem_names :: "'i sys \<Rightarrow> (string \<times> bool) list" where
  "sem_names s = map (\<lambda>x. (ns_name x, ns_used x)) (sy_sems s)"

definition mtx_names :: "'i sys \<Rightarrow> (string \<times> bool) list" where
  "mtx_names s = map (\<lambda>x. (nm_name x, nm_used x)) (sy_mtxs s)"

lemma sname_eq_iff [simp]: "sname_eq a b \<longleftrightarrow> a = b"
  by (induction a b rule: sname_eq.induct) auto

lemma names_ok_claim:
  assumes "names_ok ns" "p < length ns" "\<And>i. i < length ns \<Longrightarrow> i \<noteq> p \<Longrightarrow> snd (ns ! i) \<Longrightarrow> fst (ns ! i) \<noteq> n"
  shows "names_ok (ns[p := (n, True)])"
  unfolding names_ok_def
proof (rule inj_onI)
  fix i j
  assume a: "i \<in> {i. i < length (ns[p := (n, True)]) \<and> snd (ns[p := (n, True)] ! i)}"
    "j \<in> {i. i < length (ns[p := (n, True)]) \<and> snd (ns[p := (n, True)] ! i)}"
    "fst (ns[p := (n, True)] ! i) = fst (ns[p := (n, True)] ! j)"
  consider "i = p" | "j = p" | "i \<noteq> p" "j \<noteq> p" by blast
  then show "i = j"
  proof cases
    case 3
    then have "fst (ns ! i) = fst (ns ! j)" "i < length ns" "j < length ns" "snd (ns ! i)" "snd (ns ! j)"
      using a by simp_all
    then show ?thesis by (intro inj_onD [OF assms(1) [unfolded names_ok_def]]) simp_all
  next
    case 1
    then show ?thesis using a assms(2) assms(3) [of j] by (cases "j = p") simp_all
  next
    case 2
    then show ?thesis using a assms(2) assms(3) [of i] by (cases "i = p") simp_all
  qed
qed

lemma names_ok_release:
  assumes "names_ok ns" "p < length ns" "b \<longrightarrow> snd (ns ! p)"
  shows "names_ok (ns[p := (fst (ns ! p), b)])"
proof -
  have f: "fst (ns[p := (fst (ns ! p), b)] ! i) = fst (ns ! i)" if "i < length ns" for i
    using that assms(2) by (cases "i = p") simp_all
  have "{i. i < length (ns[p := (fst (ns ! p), b)]) \<and> snd (ns[p := (fst (ns ! p), b)] ! i)} \<subseteq>
      {i. i < length ns \<and> snd (ns ! i)}"
    using assms(2,3) by (auto simp: nth_list_update split: if_splits)
  then show ?thesis
    using assms(1) f unfolding names_ok_def by (smt (verit, best) inj_on_def mem_Collect_eq subset_iff)
qed

lemma sem_scan_result:
  "sem_scan name i xs = 0 \<and> (\<forall>x \<in> set xs. ns_used x \<longrightarrow> ns_name x \<noteq> name) \<or>
   (\<exists>j < length xs. sem_scan name i xs = i + j + 1 \<and> ns_used (xs ! j) \<and> ns_name (xs ! j) = name)"
proof (induction name i xs rule: sem_scan.induct)
  case (2 name i x xs)
  then show ?case by (cases "ns_used x \<and> ns_name x = name") (force simp: less_Suc_eq_0_disj)+
qed simp

lemma mtx_scan_result:
  "mtx_scan name i xs = 0 \<and> (\<forall>x \<in> set xs. nm_used x \<longrightarrow> nm_name x \<noteq> name) \<or>
   (\<exists>j < length xs. mtx_scan name i xs = i + j + 1 \<and> nm_used (xs ! j) \<and> nm_name (xs ! j) = name)"
proof (induction name i xs rule: mtx_scan.induct)
  case (2 name i x xs)
  then show ?case by (cases "nm_used x \<and> nm_name x = name") (force simp: less_Suc_eq_0_disj)+
qed simp

lemma sem_free_slot_result:
  "sem_free_slot i xs = 0 \<or> (\<exists>j < length xs. sem_free_slot i xs = i + j + 1 \<and> \<not> ns_used (xs ! j))"
proof (induction i xs rule: sem_free_slot.induct)
  case (2 i x xs)
  then show ?case by (cases "ns_used x") (force simp: less_Suc_eq_0_disj)+
qed simp

lemma mtx_free_slot_result:
  "mtx_free_slot i xs = 0 \<or> (\<exists>j < length xs. mtx_free_slot i xs = i + j + 1 \<and> \<not> nm_used (xs ! j))"
proof (induction i xs rule: mtx_free_slot.induct)
  case (2 i x xs)
  then show ?case by (cases "nm_used x") (force simp: less_Suc_eq_0_disj)+
qed simp

section \<open>Allocating and freeing descriptors\<close>

lemma set_fd_simps [simp]:
  "sy_fds (set_fd t fd e s) = upd_fd t fd e (sy_fds s)" "sy_k (set_fd t fd e s) = sy_k s"
  "sy_sems (set_fd t fd e s) = sy_sems s" "sy_mtxs (set_fd t fd e s) = sy_mtxs s"
  "sy_nodes (set_fd t fd e s) = sy_nodes s" "sy_con (set_fd t fd e s) = sy_con s"
  by (simp_all add: set_fd_def)

lemma fd_first_free_Some: "fd_first_free f is = Some i \<Longrightarrow> i \<in> set is \<and> fe_ops (f i) = None"
  by (induction f "is" rule: fd_first_free.induct) (auto split: if_splits)

lemma v_fd_alloc_cases:
  obtains "v_fd_alloc ops p s = (-1, s)"
  | fd where "fd < VAIOS_MAX_FDS" "fe_ops (sy_fds s (current_task (sy_k s)) fd) = None"
    "v_fd_alloc ops p s = (int fd, set_fd (current_task (sy_k s)) fd \<lparr>fe_ops = Some ops, fe_priv = p\<rparr> s)"
proof (cases "fd_first_free (sy_fds s (current_task (sy_k s))) [0..<VAIOS_MAX_FDS]")
  case None
  then show ?thesis using that(1) by (simp add: v_fd_alloc_def)
next
  case (Some fd)
  then show ?thesis using that(2) [of fd] fd_first_free_Some [OF Some] by (simp add: v_fd_alloc_def)
qed

lemma fd_lookup_Some:
  "fd_lookup fd s = Some (ops, p) \<longleftrightarrow> 0 \<le> fd \<and> nat fd < VAIOS_MAX_FDS \<and>
     sy_fds s (current_task (sy_k s)) (nat fd) = \<lparr>fe_ops = Some ops, fe_priv = p\<rparr>"
  by (cases "sy_fds s (current_task (sy_k s)) (nat fd)") (auto simp: fd_lookup_def Let_def)

section \<open>The invariant\<close>

definition refs_ok :: "'i sys \<Rightarrow> bool" where
  "refs_ok s \<longleftrightarrow> named_ok Ipc_Sem_Ops (sy_fds s) (sem_counts s) \<and> names_ok (sem_names s) \<and>
     named_ok Ipc_Mtx_Ops (sy_fds s) (mtx_counts s) \<and> names_ok (mtx_names s) \<and>
     (\<forall>d \<in> set (sy_nodes s). dn_ops d \<notin> {Ipc_Sem_Ops, Ipc_Mtx_Ops, Q_Fd_Ops})"

text \<open>What a call may change without touching a reference.\<close>

definition same_refs :: "'i sys \<Rightarrow> 'i sys \<Rightarrow> bool" where
  "same_refs s s' \<longleftrightarrow> sy_fds s' = sy_fds s \<and> sy_sems s' = sy_sems s \<and> sy_mtxs s' = sy_mtxs s \<and>
     sy_nodes s' = sy_nodes s \<and> current_task (sy_k s') = current_task (sy_k s)"

lemma refs_ok_cong:
  "refs_ok s \<Longrightarrow> sy_fds s' = sy_fds s \<Longrightarrow> sy_sems s' = sy_sems s \<Longrightarrow> sy_mtxs s' = sy_mtxs s \<Longrightarrow>
   sy_nodes s' = sy_nodes s \<Longrightarrow> refs_ok s'"
  by (simp add: refs_ok_def sem_counts_def sem_names_def mtx_counts_def mtx_names_def)

lemma refs_ok_same: "refs_ok s \<Longrightarrow> same_refs s s' \<Longrightarrow> refs_ok s'"
  by (auto simp: same_refs_def intro: refs_ok_cong)

lemma refs_ok_set_other:
  assumes "refs_ok s" "fd < VAIOS_MAX_FDS" "fe_ops (sy_fds s t fd) \<notin> {Some Ipc_Sem_Ops, Some Ipc_Mtx_Ops}"
    "fe_ops e \<notin> {Some Ipc_Sem_Ops, Some Ipc_Mtx_Ops}"
  shows "refs_ok (set_fd t fd e s)"
  using assms by (auto simp: refs_ok_def sem_counts_def sem_names_def mtx_counts_def mtx_names_def intro!: named_ok_other)

lemma refs_ok_alloc_other:
  assumes "refs_ok s" "ops \<notin> {Ipc_Sem_Ops, Ipc_Mtx_Ops}"
  shows "refs_ok (snd (v_fd_alloc ops p s))"
  by (cases rule: v_fd_alloc_cases [of ops p s]) (use assms in \<open>auto intro!: refs_ok_set_other\<close>)

lemma upd_named_simps [simp]:
  "sy_fds (upd_named_sem p f s) = sy_fds s" "sy_k (upd_named_sem p f s) = sy_k s"
  "sy_mtxs (upd_named_sem p f s) = sy_mtxs s" "sy_nodes (upd_named_sem p f s) = sy_nodes s"
  "sy_sems (upd_named_sem p f s) = (sy_sems s)[p - 1 := f (sy_sems s ! (p - 1))]"
  "sy_fds (upd_named_mtx p g s) = sy_fds s" "sy_k (upd_named_mtx p g s) = sy_k s"
  "sy_sems (upd_named_mtx p g s) = sy_sems s" "sy_nodes (upd_named_mtx p g s) = sy_nodes s"
  "sy_mtxs (upd_named_mtx p g s) = (sy_mtxs s)[p - 1 := g (sy_mtxs s ! (p - 1))]"
  by (simp_all add: upd_named_sem_def upd_named_mtx_def)

text \<open>The table after one more reference to slot \<open>i\<close>, under the name it has or is given.\<close>

definition sem_referenced :: "nat \<Rightarrow> string \<Rightarrow> 'i sys \<Rightarrow> 'i sys \<Rightarrow> bool" where
  "sem_referenced i name s s' \<longleftrightarrow> i < length (sy_sems s) \<and>
     sem_counts s' = (sem_counts s)[i := (fst (sem_counts s ! i) + 1, True)] \<and>
     sem_names s' = (sem_names s)[i := (name, True)] \<and>
     (\<forall>j < length (sy_sems s). j \<noteq> i \<and> ns_used (sy_sems s ! j) \<longrightarrow> ns_name (sy_sems s ! j) \<noteq> name) \<and>
     sy_fds s' = sy_fds s \<and> sy_mtxs s' = sy_mtxs s \<and> sy_nodes s' = sy_nodes s \<and>
     current_task (sy_k s') = current_task (sy_k s)"

definition mtx_referenced :: "nat \<Rightarrow> string \<Rightarrow> 'i sys \<Rightarrow> 'i sys \<Rightarrow> bool" where
  "mtx_referenced i name s s' \<longleftrightarrow> i < length (sy_mtxs s) \<and>
     mtx_counts s' = (mtx_counts s)[i := (fst (mtx_counts s ! i) + 1, True)] \<and>
     mtx_names s' = (mtx_names s)[i := (name, True)] \<and>
     (\<forall>j < length (sy_mtxs s). j \<noteq> i \<and> nm_used (sy_mtxs s ! j) \<longrightarrow> nm_name (sy_mtxs s ! j) \<noteq> name) \<and>
     sy_fds s' = sy_fds s \<and> sy_sems s' = sy_sems s \<and> sy_nodes s' = sy_nodes s \<and>
     current_task (sy_k s') = current_task (sy_k s)"

lemma sema_init_current [simp]: "current_task (sema_init a n l k) = current_task k"
  by (simp add: sema_init_def Let_def)

lemma sem_open_referenced:
  assumes R: "refs_ok s" and n: "ipc_name_ok name"
    and p: "(if named_sem_find name s = 0 then sem_create name flags s else (named_sem_find name s, s)) = (p, s1)"
    and z: "p \<noteq> 0"
  shows "sem_referenced (p - 1) name s (upd_named_sem p (\<lambda>x. x\<lparr>ns_refcount := ns_refcount x + 1\<rparr>) s1)"
proof -
  have N: "named_ok Ipc_Sem_Ops (sy_fds s) (sem_counts s)" "names_ok (sem_names s)"
    using R by (auto simp: refs_ok_def)
  have l: "length (sem_counts s) = length (sy_sems s)" "length (sem_names s) = length (sy_sems s)"
    by (simp_all add: sem_counts_def sem_names_def)
  have t: "take 15 name = name" using n by (simp add: ipc_name_ok_def)
  show ?thesis
  proof (cases "named_sem_find name s = 0")
    case True
    then have c: "sem_create name flags s = (p, s1)"
      and u: "\<forall>x \<in> set (sy_sems s). ns_used x \<longrightarrow> ns_name x \<noteq> name"
      using p sem_scan_result [of name 0 "sy_sems s"] by (auto simp: named_sem_find_def)
    have f: "flags AND V_IPC_CREATE \<noteq> 0" "sem_free_slot 0 (sy_sems s) \<noteq> 0"
      using c z by (auto simp: sem_create_def Let_def split: if_splits)
    then obtain i where i: "i < length (sy_sems s)" "sem_free_slot 0 (sy_sems s) = i + 1" "\<not> ns_used (sy_sems s ! i)"
      using sem_free_slot_result [of 0 "sy_sems s"] by auto
    have e: "p = i + 1" "s1 = upd_named_sem (i + 1) (\<lambda>x. x\<lparr>ns_refcount := 0, ns_used := True\<rparr>)
        ((upd_named_sem (i + 1) (\<lambda>x. x\<lparr>ns_name := name\<rparr>) s)\<lparr>sy_k := sema_init (ns_sem (sy_sems s ! i)) 0 1 (sy_k s)\<rparr>)"
      using c f i by (auto simp: sem_create_def Let_def t)
    have s1: "p = i + 1" "sy_sems s1 = (sy_sems s)[i := (sy_sems s ! i)\<lparr>ns_name := name, ns_refcount := 0, ns_used := True\<rparr>]"
        "sy_fds s1 = sy_fds s" "sy_mtxs s1 = sy_mtxs s" "sy_nodes s1 = sy_nodes s"
        "current_task (sy_k s1) = current_task (sy_k s)"
      using e i by (simp_all add: comp_def)
    have "fst (sem_counts s ! i) = 0" using named_ok_counts [OF N(1), of i] i l by (simp add: sem_counts_def)
    moreover have "\<forall>j < length (sy_sems s). ns_used (sy_sems s ! j) \<longrightarrow> ns_name (sy_sems s ! j) \<noteq> name"
      using u nth_mem by blast
    ultimately show ?thesis
      using i s1 by (auto simp: sem_referenced_def sem_counts_def sem_names_def map_update)
  next
    case False
    then have "sem_scan name 0 (sy_sems s) \<noteq> 0" by (simp add: named_sem_find_def)
    then obtain i where i: "i < length (sy_sems s)" "sem_scan name 0 (sy_sems s) = 0 + i + 1"
      "ns_used (sy_sems s ! i)" "ns_name (sy_sems s ! i) = name"
      using sem_scan_result [of name 0 "sy_sems s"] by metis
    have s1: "s1 = s" "p = i + 1" using p False i(2) by (simp_all add: named_sem_find_def)
    have "j = i" if "j < length (sy_sems s)" "ns_used (sy_sems s ! j)" "ns_name (sy_sems s ! j) = name" for j
      by (rule inj_onD [OF N(2) [unfolded names_ok_def]]) (use that i in \<open>simp_all add: sem_names_def\<close>)
    then have "\<forall>j < length (sy_sems s). j \<noteq> i \<and> ns_used (sy_sems s ! j) \<longrightarrow> ns_name (sy_sems s ! j) \<noteq> name" by metis
    then show ?thesis
      using i s1 by (simp add: sem_referenced_def sem_counts_def sem_names_def map_update)
  qed
qed

lemma mtx_open_referenced:
  assumes R: "refs_ok s" and n: "ipc_name_ok name"
    and p: "(if named_mtx_find name s = 0 then mtx_create name flags s else (named_mtx_find name s, s)) = (p, s1)"
    and z: "p \<noteq> 0"
  shows "mtx_referenced (p - 1) name s (upd_named_mtx p (\<lambda>x. x\<lparr>nm_refcount := nm_refcount x + 1\<rparr>) s1)"
proof -
  have N: "named_ok Ipc_Mtx_Ops (sy_fds s) (mtx_counts s)" "names_ok (mtx_names s)"
    using R by (auto simp: refs_ok_def)
  have l: "length (mtx_counts s) = length (sy_mtxs s)" "length (mtx_names s) = length (sy_mtxs s)"
    by (simp_all add: mtx_counts_def mtx_names_def)
  have t: "take 15 name = name" using n by (simp add: ipc_name_ok_def)
  show ?thesis
  proof (cases "named_mtx_find name s = 0")
    case True
    then have c: "mtx_create name flags s = (p, s1)"
      and u: "\<forall>x \<in> set (sy_mtxs s). nm_used x \<longrightarrow> nm_name x \<noteq> name"
      using p mtx_scan_result [of name 0 "sy_mtxs s"] by (auto simp: named_mtx_find_def)
    have f: "flags AND V_IPC_CREATE \<noteq> 0" "mtx_free_slot 0 (sy_mtxs s) \<noteq> 0"
      using c z by (auto simp: mtx_create_def Let_def split: if_splits)
    then obtain i where i: "i < length (sy_mtxs s)" "mtx_free_slot 0 (sy_mtxs s) = i + 1" "\<not> nm_used (sy_mtxs s ! i)"
      using mtx_free_slot_result [of 0 "sy_mtxs s"] by auto
    have e: "p = i + 1" "s1 = upd_named_mtx (i + 1) (\<lambda>x. x\<lparr>nm_refcount := 0, nm_used := True\<rparr>)
        ((upd_named_mtx (i + 1) (\<lambda>x. x\<lparr>nm_name := name\<rparr>) s)\<lparr>sy_k := upd_rmutex (nm_mtx (sy_mtxs s ! i))
          (\<lambda>m. m\<lparr>m_owner := 0, m_recursion_count := 0, m_next_held := 0\<rparr>) (sema_init (nm_mtx (sy_mtxs s ! i)) 1 1 (sy_k s))\<rparr>)"
      using c f i by (auto simp: mtx_create_def Let_def t)
    have s1: "p = i + 1" "sy_mtxs s1 = (sy_mtxs s)[i := (sy_mtxs s ! i)\<lparr>nm_name := name, nm_refcount := 0, nm_used := True\<rparr>]"
        "sy_fds s1 = sy_fds s" "sy_sems s1 = sy_sems s" "sy_nodes s1 = sy_nodes s"
        "current_task (sy_k s1) = current_task (sy_k s)"
      using e i by (simp_all add: comp_def)
    have "fst (mtx_counts s ! i) = 0" using named_ok_counts [OF N(1), of i] i l by (simp add: mtx_counts_def)
    moreover have "\<forall>j < length (sy_mtxs s). nm_used (sy_mtxs s ! j) \<longrightarrow> nm_name (sy_mtxs s ! j) \<noteq> name"
      using u nth_mem by blast
    ultimately show ?thesis
      using i s1 by (auto simp: mtx_referenced_def mtx_counts_def mtx_names_def map_update)
  next
    case False
    then have "mtx_scan name 0 (sy_mtxs s) \<noteq> 0" by (simp add: named_mtx_find_def)
    then obtain i where i: "i < length (sy_mtxs s)" "mtx_scan name 0 (sy_mtxs s) = 0 + i + 1"
      "nm_used (sy_mtxs s ! i)" "nm_name (sy_mtxs s ! i) = name"
      using mtx_scan_result [of name 0 "sy_mtxs s"] by metis
    have s1: "s1 = s" "p = i + 1" using p False i(2) by (simp_all add: named_mtx_find_def)
    have "j = i" if "j < length (sy_mtxs s)" "nm_used (sy_mtxs s ! j)" "nm_name (sy_mtxs s ! j) = name" for j
      by (rule inj_onD [OF N(2) [unfolded names_ok_def]]) (use that i in \<open>simp_all add: mtx_names_def\<close>)
    then have "\<forall>j < length (sy_mtxs s). j \<noteq> i \<and> nm_used (sy_mtxs s ! j) \<longrightarrow> nm_name (sy_mtxs s ! j) \<noteq> name" by metis
    then show ?thesis
      using i s1 by (simp add: mtx_referenced_def mtx_counts_def mtx_names_def map_update)
  qed
qed

text \<open>Closing a descriptor of slot \<open>i\<close> undoes one reference.\<close>

lemma ipc_sem_close_result:
  assumes "i < length (sy_sems s)" "fst (sem_counts s ! i) > 0"
  shows "\<exists>s'. ipc_sem_close (i + 1) s = Inr (0, s') \<and>
    sem_counts s' = (sem_counts s)[i := (fst (sem_counts s ! i) - 1, snd (sem_counts s ! i) \<and> fst (sem_counts s ! i) \<noteq> 1)] \<and>
    sem_names s' = (sem_names s)[i := (fst (sem_names s ! i), snd (sem_counts s ! i) \<and> fst (sem_counts s ! i) \<noteq> 1)] \<and>
    sy_fds s' = sy_fds s \<and> sy_mtxs s' = sy_mtxs s \<and> sy_nodes s' = sy_nodes s \<and> sy_k s' = sy_k s"
  using assms by (auto simp: ipc_sem_close_def sem_counts_def sem_names_def map_update Let_def)

lemma ipc_mtx_close_result:
  assumes "i < length (sy_mtxs s)" "fst (mtx_counts s ! i) > 0"
  shows "\<exists>s'. ipc_mtx_close (i + 1) s = Inr (0, s') \<and>
    mtx_counts s' = (mtx_counts s)[i := (fst (mtx_counts s ! i) - 1, snd (mtx_counts s ! i) \<and> fst (mtx_counts s ! i) \<noteq> 1)] \<and>
    mtx_names s' = (mtx_names s)[i := (fst (mtx_names s ! i), snd (mtx_counts s ! i) \<and> fst (mtx_counts s ! i) \<noteq> 1)] \<and>
    sy_fds s' = sy_fds s \<and> sy_sems s' = sy_sems s \<and> sy_nodes s' = sy_nodes s \<and> sy_k s' = sy_k s"
  using assms by (auto simp: ipc_mtx_close_def mtx_counts_def mtx_names_def map_update Let_def)

lemma v_sem_open_refs:
  assumes R: "refs_ok s"
  shows "\<exists>r s'. v_sem_open name flags s = Inr (r, s') \<and> refs_ok s'"
proof (cases "ipc_name_ok name")
  case False
  then show ?thesis using R by (simp add: v_sem_open_def)
next
  case n: True
  obtain p s1 where p: "(if named_sem_find name s = 0 then sem_create name flags s else (named_sem_find name s, s)) = (p, s1)"
    by fastforce
  show ?thesis
  proof (cases "p = 0")
    case True
    then have "s1 = s" using p by (auto simp: sem_create_def Let_def split: if_splits)
    then show ?thesis using True R n p by (simp add: v_sem_open_def)
  next
    case False
    define s2 where "s2 = upd_named_sem p (\<lambda>x. x\<lparr>ns_refcount := ns_refcount x + 1\<rparr>) s1"
    define i where "i = p - 1"
    have pi: "p = i + 1" using False by (simp add: i_def)
    have r: "sem_referenced i name s s2" using sem_open_referenced [OF R n p False] by (simp add: s2_def i_def)
    then have i: "i < length (sy_sems s)" and c: "sem_counts s2 = (sem_counts s)[i := (fst (sem_counts s ! i) + 1, True)]"
      and ns: "sem_names s2 = (sem_names s)[i := (name, True)]"
      and u: "\<forall>j < length (sy_sems s). j \<noteq> i \<and> ns_used (sy_sems s ! j) \<longrightarrow> ns_name (sy_sems s ! j) \<noteq> name"
      and f: "sy_fds s2 = sy_fds s" "sy_mtxs s2 = sy_mtxs s" "sy_nodes s2 = sy_nodes s"
        "current_task (sy_k s2) = current_task (sy_k s)"
      by (auto simp: sem_referenced_def)
    have N: "named_ok Ipc_Sem_Ops (sy_fds s) (sem_counts s)" "names_ok (sem_names s)"
      "named_ok Ipc_Mtx_Ops (sy_fds s) (mtx_counts s)" "names_ok (mtx_names s)"
      "\<forall>d \<in> set (sy_nodes s). dn_ops d \<notin> {Ipc_Sem_Ops, Ipc_Mtx_Ops, Q_Fd_Ops}"
      using R by (auto simp: refs_ok_def)
    have l: "length (sem_counts s) = length (sy_sems s)" "length (sem_names s) = length (sy_sems s)"
      "length (sy_sems s2) = length (sy_sems s)"
      using c arg_cong [OF ns, of length] by (simp_all add: sem_counts_def sem_names_def)
    have nm: "names_ok (sem_names s2)"
      unfolding ns using u i by (intro names_ok_claim [OF N(2)]) (auto simp: l sem_names_def)
    have m: "mtx_counts s2 = mtx_counts s" "mtx_names s2 = mtx_names s" using f by (simp_all add: mtx_counts_def mtx_names_def)
    have e: "v_sem_open name flags s = (let (fd, s) = v_fd_alloc Ipc_Sem_Ops p s2 in
        if fd < 0 then kbind (ipc_sem_close p s) (\<lambda>(_, s). Inr (fd, s)) else Inr (fd, s))"
      using n p False by (simp add: v_sem_open_def s2_def Let_def split del: if_split)
    show ?thesis
    proof (cases rule: v_fd_alloc_cases [of Ipc_Sem_Ops p s2])
      case 1
      have pos: "fst (sem_counts s2 ! i) > 0" using named_ok_counts [OF N(1), of i] i l c by simp
      obtain s3 where s3: "ipc_sem_close (i + 1) s2 = Inr (0, s3)"
        "sem_counts s3 = (sem_counts s2)[i := (fst (sem_counts s2 ! i) - 1, snd (sem_counts s2 ! i) \<and> fst (sem_counts s2 ! i) \<noteq> 1)]"
        "sem_names s3 = (sem_names s2)[i := (fst (sem_names s2 ! i), snd (sem_counts s2 ! i) \<and> fst (sem_counts s2 ! i) \<noteq> 1)]"
        "sy_fds s3 = sy_fds s2" "sy_mtxs s3 = sy_mtxs s2" "sy_nodes s3 = sy_nodes s2"
        using ipc_sem_close_result [of i s2] pos i l by auto
      have sc: "sem_counts s3 = sem_counts s"
        using s3(2) c i l named_ok_counts [OF N(1), of i] by (auto simp: list_update_same_conv prod_eq_iff)
      have "names_ok (sem_names s3)"
        unfolding s3(3) using i l nm ns c by (intro names_ok_release [OF nm]) (simp_all add: sem_names_def)
      then have "refs_ok s3" using sc s3(4-6) N f m by (simp add: refs_ok_def mtx_counts_def mtx_names_def)
      then show ?thesis using 1 e s3(1) pi by simp
    next
      case (2 fd)
      let ?s3 = "set_fd (current_task (sy_k s2)) fd \<lparr>fe_ops = Some Ipc_Sem_Ops, fe_priv = p\<rparr> s2"
      have "named_ok Ipc_Sem_Ops (sy_fds ?s3) (sem_counts s2)"
        using named_ok_add [OF N(1), of fd "current_task (sy_k s2)" i] 2(1,2) i l f c pi by simp
      moreover have "named_ok Ipc_Mtx_Ops (sy_fds ?s3) (mtx_counts s)"
        using named_ok_other [OF N(3) 2(1)] 2(2) f by simp
      ultimately have "refs_ok ?s3"
        using nm N f m by (simp add: refs_ok_def sem_counts_def sem_names_def mtx_counts_def mtx_names_def)
      then show ?thesis using 2(3) e by simp
    qed
  qed
qed

lemma v_mtx_open_refs:
  assumes R: "refs_ok s"
  shows "\<exists>r s'. v_mtx_open name flags s = Inr (r, s') \<and> refs_ok s'"
proof (cases "ipc_name_ok name")
  case False
  then show ?thesis using R by (simp add: v_mtx_open_def)
next
  case n: True
  obtain p s1 where p: "(if named_mtx_find name s = 0 then mtx_create name flags s else (named_mtx_find name s, s)) = (p, s1)"
    by fastforce
  show ?thesis
  proof (cases "p = 0")
    case True
    then have "s1 = s" using p by (auto simp: mtx_create_def Let_def split: if_splits)
    then show ?thesis using True R n p by (simp add: v_mtx_open_def)
  next
    case False
    define s2 where "s2 = upd_named_mtx p (\<lambda>x. x\<lparr>nm_refcount := nm_refcount x + 1\<rparr>) s1"
    define i where "i = p - 1"
    have pi: "p = i + 1" using False by (simp add: i_def)
    have r: "mtx_referenced i name s s2" using mtx_open_referenced [OF R n p False] by (simp add: s2_def i_def)
    then have i: "i < length (sy_mtxs s)" and c: "mtx_counts s2 = (mtx_counts s)[i := (fst (mtx_counts s ! i) + 1, True)]"
      and ns: "mtx_names s2 = (mtx_names s)[i := (name, True)]"
      and u: "\<forall>j < length (sy_mtxs s). j \<noteq> i \<and> nm_used (sy_mtxs s ! j) \<longrightarrow> nm_name (sy_mtxs s ! j) \<noteq> name"
      and f: "sy_fds s2 = sy_fds s" "sy_sems s2 = sy_sems s" "sy_nodes s2 = sy_nodes s"
        "current_task (sy_k s2) = current_task (sy_k s)"
      by (auto simp: mtx_referenced_def)
    have N: "named_ok Ipc_Mtx_Ops (sy_fds s) (mtx_counts s)" "names_ok (mtx_names s)"
      "named_ok Ipc_Sem_Ops (sy_fds s) (sem_counts s)" "names_ok (sem_names s)"
      "\<forall>d \<in> set (sy_nodes s). dn_ops d \<notin> {Ipc_Sem_Ops, Ipc_Mtx_Ops, Q_Fd_Ops}"
      using R by (auto simp: refs_ok_def)
    have l: "length (mtx_counts s) = length (sy_mtxs s)" "length (mtx_names s) = length (sy_mtxs s)"
      "length (sy_mtxs s2) = length (sy_mtxs s)"
      using c arg_cong [OF ns, of length] by (simp_all add: mtx_counts_def mtx_names_def)
    have nm: "names_ok (mtx_names s2)"
      unfolding ns using u i by (intro names_ok_claim [OF N(2)]) (auto simp: l mtx_names_def)
    have m: "sem_counts s2 = sem_counts s" "sem_names s2 = sem_names s" using f by (simp_all add: sem_counts_def sem_names_def)
    have e: "v_mtx_open name flags s = (let (fd, s) = v_fd_alloc Ipc_Mtx_Ops p s2 in
        if fd < 0 then kbind (ipc_mtx_close p s) (\<lambda>(_, s). Inr (fd, s)) else Inr (fd, s))"
      using n p False by (simp add: v_mtx_open_def s2_def Let_def split del: if_split)
    show ?thesis
    proof (cases rule: v_fd_alloc_cases [of Ipc_Mtx_Ops p s2])
      case 1
      have pos: "fst (mtx_counts s2 ! i) > 0" using named_ok_counts [OF N(1), of i] i l c by simp
      obtain s3 where s3: "ipc_mtx_close (i + 1) s2 = Inr (0, s3)"
        "mtx_counts s3 = (mtx_counts s2)[i := (fst (mtx_counts s2 ! i) - 1, snd (mtx_counts s2 ! i) \<and> fst (mtx_counts s2 ! i) \<noteq> 1)]"
        "mtx_names s3 = (mtx_names s2)[i := (fst (mtx_names s2 ! i), snd (mtx_counts s2 ! i) \<and> fst (mtx_counts s2 ! i) \<noteq> 1)]"
        "sy_fds s3 = sy_fds s2" "sy_sems s3 = sy_sems s2" "sy_nodes s3 = sy_nodes s2"
        using ipc_mtx_close_result [of i s2] pos i l by auto
      have sc: "mtx_counts s3 = mtx_counts s"
        using s3(2) c i l named_ok_counts [OF N(1), of i] by (auto simp: list_update_same_conv prod_eq_iff)
      have "names_ok (mtx_names s3)"
        unfolding s3(3) using i l nm ns c by (intro names_ok_release [OF nm]) (simp_all add: mtx_names_def)
      then have "refs_ok s3" using sc s3(4-6) N f m by (simp add: refs_ok_def sem_counts_def sem_names_def)
      then show ?thesis using 1 e s3(1) pi by simp
    next
      case (2 fd)
      let ?s3 = "set_fd (current_task (sy_k s2)) fd \<lparr>fe_ops = Some Ipc_Mtx_Ops, fe_priv = p\<rparr> s2"
      have "named_ok Ipc_Mtx_Ops (sy_fds ?s3) (mtx_counts s2)"
        using named_ok_add [OF N(1), of fd "current_task (sy_k s2)" i] 2(1,2) i l f c pi by simp
      moreover have "named_ok Ipc_Sem_Ops (sy_fds ?s3) (sem_counts s)"
        using named_ok_other [OF N(3) 2(1)] 2(2) f by simp
      ultimately have "refs_ok ?s3"
        using nm N f m by (simp add: refs_ok_def mtx_counts_def mtx_names_def sem_counts_def sem_names_def)
      then show ?thesis using 2(3) e by simp
    qed
  qed
qed

section \<open>Descriptor operations keep it\<close>

text \<open>
  Tables of other code (\<open>App_Ops\<close>): their open and close functions leave the descriptor layer alone.
\<close>

definition app_frame :: "(nat \<Rightarrow> 'i sys file_ops) \<Rightarrow> bool" where
  "app_frame app \<longleftrightarrow>
     (\<forall>n f p s r s'. fo_close (app n) = Some f \<and> f p s = Inr (r, s') \<longrightarrow> same_refs s s') \<and>
     (\<forall>n f path fl s r p s'. fo_open (app n) = Some f \<and> f path fl s = Inr (r, p, s') \<longrightarrow> same_refs s s')"

lemma kernel_tables [simp]:
  "fo_close ipc_sem_ops = Some ipc_sem_close" "fo_close ipc_mtx_ops = Some ipc_mtx_close"
  "fo_close q_fd_ops = Some q_fd_close" "fo_close console_ops = None" "fo_close kmsg_ops = None"
  "fo_close (capture_ops iops cfg) = None" "fo_open console_ops = None" "fo_open kmsg_ops = None"
  "fo_open (capture_ops iops cfg) = None" "fo_open ipc_sem_ops = None" "fo_open ipc_mtx_ops = None"
  "fo_open q_fd_ops = None" "fo_open pbus_ops = None" "fo_close pbus_ops = Some handle_close" "fo_wait console_ops = Some console_wait" "fo_write console_ops = Some console_write"
  by (simp_all add: ipc_sem_ops_def ipc_mtx_ops_def q_fd_ops_def pbus_ops_def console_ops_def kmsg_ops_def capture_ops_def no_ops_def)

lemma same_refs_q: "same_refs s (upd_qh p f s)" "same_refs s (upd_qreg p g s)" "same_refs s s"
  by (simp_all add: same_refs_def upd_qh_def upd_qreg_def)

lemma same_refs_trans: "same_refs s s' \<Longrightarrow> same_refs s' s'' \<Longrightarrow> same_refs s s''"
  by (simp add: same_refs_def)

lemma q_fd_close_same: "q_fd_close p s = Inr (r, s') \<Longrightarrow> same_refs s s'"
  by (auto simp: q_fd_close_def Let_def split: if_splits intro: same_refs_q same_refs_trans [OF same_refs_q(2)]
      same_refs_trans [OF same_refs_trans [OF same_refs_q(2,2)]])

lemma same_refs_pb: "same_refs s (upd_job j f s)" "same_refs s (upd_bus b g s)" "same_refs s (upd_handle h e s)"
  by (simp_all add: same_refs_def upd_job_def upd_bus_def upd_handle_def)

lemma pbus_unqueue_same: "pbus_unqueue b j s = Inr (r, s') \<Longrightarrow> same_refs s s'"
  by (auto simp: pbus_unqueue_def kbind_Inr Let_def split: if_splits
      intro: same_refs_q(3) same_refs_trans [OF same_refs_pb(1) same_refs_pb(1)] same_refs_trans [OF same_refs_pb(2) same_refs_pb(1)])

lemma handle_close_same:
  assumes "handle_close h s = Inr (r, s')"
  shows "same_refs s s'"
proof -
  let ?job = "ph_job (handles s ! (h - 1))"
  obtain b s1 where s1: "(if pj_state (jobs s ?job) = JOB_QUEUED then pbus_unqueue (pd_bus (dev_of s h)) ?job s
      else Inr (False, s)) = Inr (b, s1)"
    and s': "s' = (if pj_state (jobs (upd_handle h (\<lambda>x. x\<lparr>ph_submitted := False\<rparr>) s1) ?job) = JOB_ACTIVE
      then upd_handle h (\<lambda>x. x\<lparr>ph_orphan := True\<rparr>) (upd_handle h (\<lambda>x. x\<lparr>ph_submitted := False\<rparr>) s1)
      else upd_handle h (\<lambda>x. x\<lparr>ph_used := False\<rparr>) (upd_handle h (\<lambda>x. x\<lparr>ph_submitted := False\<rparr>) s1))"
    using assms unfolding handle_close_def kbind_Inr Let_def by (elim exE conjE) (auto split: prod.splits)
  have "same_refs s s1" using s1 by (auto simp: same_refs_q(3) dest: pbus_unqueue_same split: if_splits)
  then show ?thesis using s' by (auto intro: same_refs_trans [OF _ same_refs_trans [OF same_refs_pb(3) same_refs_pb(3)]])
qed

text \<open>Calling the close function of a descriptor and freeing its entry.\<close>

definition close_entry :: "(ops_id \<Rightarrow> 'i sys file_ops) \<Rightarrow> nat \<Rightarrow> nat \<Rightarrow> 'i sys \<Rightarrow> (int \<times> 'i sys) kres" where
  "close_entry tab t fd s =
     (case fe_ops (sy_fds s t fd) of
        None \<Rightarrow> Inr (0, s)
      | Some ops \<Rightarrow>
          kbind (case fo_close (tab ops) of None \<Rightarrow> Inr (0, s) | Some f \<Rightarrow> f (fe_priv (sy_fds s t fd)) s) (\<lambda>(r, s).
            Inr (r, set_fd t fd FREE_FD s)))"

lemma close_entry_refs:
  assumes R: "refs_ok s" and A: "app_frame app" and fd: "fd < VAIOS_MAX_FDS"
    and c: "close_entry (ops_tab iops cfg app) t fd s = Inr (r, s')"
  shows "refs_ok s' \<and> current_task (sy_k s') = current_task (sy_k s)"
proof (cases "fe_ops (sy_fds s t fd)")
  case None
  then show ?thesis using c R by (simp add: close_entry_def)
next
  case (Some ops)
  define p where "p = fe_priv (sy_fds s t fd)"
  have e: "sy_fds s t fd = \<lparr>fe_ops = Some ops, fe_priv = p\<rparr>" using Some by (simp add: p_def)
  have N: "named_ok Ipc_Sem_Ops (sy_fds s) (sem_counts s)" "names_ok (sem_names s)"
    "named_ok Ipc_Mtx_Ops (sy_fds s) (mtx_counts s)" "names_ok (mtx_names s)"
    "\<forall>d \<in> set (sy_nodes s). dn_ops d \<notin> {Ipc_Sem_Ops, Ipc_Mtx_Ops, Q_Fd_Ops}"
    using R by (auto simp: refs_ok_def)
  consider "ops = Ipc_Sem_Ops" | "ops = Ipc_Mtx_Ops" | "ops \<notin> {Ipc_Sem_Ops, Ipc_Mtx_Ops}" by blast
  then show ?thesis
  proof cases
    case 1
    obtain i where i: "p = i + 1" using N(1) e fd 1 by (metis Suc_eq_plus1 fd_entry.select_convs gr0_conv_Suc named_ok_def)
    have d: "fst (sem_counts s ! i) > 0" "i < length (sem_counts s)"
      "named_ok Ipc_Sem_Ops (upd_fd t fd FREE_FD (sy_fds s)) ((sem_counts s)[i := (fst (sem_counts s ! i) - 1, fst (sem_counts s ! i) \<noteq> 1)])"
      using named_ok_drop [OF N(1) fd, of t i] e 1 i by auto
    have u: "snd (sem_counts s ! i)" "i < length (sy_sems s)" "snd (sem_names s ! i)"
      using named_ok_counts [OF N(1) d(2)] d by (simp_all add: sem_counts_def sem_names_def)
    obtain s1 where s1: "ipc_sem_close (i + 1) s = Inr (0, s1)"
      "sem_counts s1 = (sem_counts s)[i := (fst (sem_counts s ! i) - 1, snd (sem_counts s ! i) \<and> fst (sem_counts s ! i) \<noteq> 1)]"
      "sem_names s1 = (sem_names s)[i := (fst (sem_names s ! i), snd (sem_counts s ! i) \<and> fst (sem_counts s ! i) \<noteq> 1)]"
      "sy_fds s1 = sy_fds s" "sy_mtxs s1 = sy_mtxs s" "sy_nodes s1 = sy_nodes s" "sy_k s1 = sy_k s"
      using ipc_sem_close_result [OF u(2) d(1)] by auto
    have "names_ok (sem_names s1)"
      unfolding s1(3) using u by (intro names_ok_release [OF N(2)]) (simp_all add: sem_names_def)
    moreover have "named_ok Ipc_Mtx_Ops (upd_fd t fd FREE_FD (sy_fds s)) (mtx_counts s)"
      using named_ok_other [OF N(3) fd] e 1 by simp
    ultimately have "refs_ok (set_fd t fd FREE_FD s1)"
      using d(3) u(1) s1 N by (simp add: refs_ok_def sem_counts_def sem_names_def mtx_counts_def mtx_names_def)
    moreover have "s' = set_fd t fd FREE_FD s1" using c e 1 i s1(1) by (simp add: close_entry_def)
    ultimately show ?thesis using s1(7) by simp
  next
    case 2
    obtain i where i: "p = i + 1" using N(3) e fd 2 by (metis Suc_eq_plus1 fd_entry.select_convs gr0_conv_Suc named_ok_def)
    have d: "fst (mtx_counts s ! i) > 0" "i < length (mtx_counts s)"
      "named_ok Ipc_Mtx_Ops (upd_fd t fd FREE_FD (sy_fds s)) ((mtx_counts s)[i := (fst (mtx_counts s ! i) - 1, fst (mtx_counts s ! i) \<noteq> 1)])"
      using named_ok_drop [OF N(3) fd, of t i] e 2 i by auto
    have u: "snd (mtx_counts s ! i)" "i < length (sy_mtxs s)" "snd (mtx_names s ! i)"
      using named_ok_counts [OF N(3) d(2)] d by (simp_all add: mtx_counts_def mtx_names_def)
    obtain s1 where s1: "ipc_mtx_close (i + 1) s = Inr (0, s1)"
      "mtx_counts s1 = (mtx_counts s)[i := (fst (mtx_counts s ! i) - 1, snd (mtx_counts s ! i) \<and> fst (mtx_counts s ! i) \<noteq> 1)]"
      "mtx_names s1 = (mtx_names s)[i := (fst (mtx_names s ! i), snd (mtx_counts s ! i) \<and> fst (mtx_counts s ! i) \<noteq> 1)]"
      "sy_fds s1 = sy_fds s" "sy_sems s1 = sy_sems s" "sy_nodes s1 = sy_nodes s" "sy_k s1 = sy_k s"
      using ipc_mtx_close_result [OF u(2) d(1)] by auto
    have "names_ok (mtx_names s1)"
      unfolding s1(3) using u by (intro names_ok_release [OF N(4)]) (simp_all add: mtx_names_def)
    moreover have "named_ok Ipc_Sem_Ops (upd_fd t fd FREE_FD (sy_fds s)) (sem_counts s)"
      using named_ok_other [OF N(1) fd] e 2 by simp
    ultimately have "refs_ok (set_fd t fd FREE_FD s1)"
      using d(3) u(1) s1 N by (simp add: refs_ok_def sem_counts_def sem_names_def mtx_counts_def mtx_names_def)
    moreover have "s' = set_fd t fd FREE_FD s1" using c e 2 i s1(1) by (simp add: close_entry_def)
    ultimately show ?thesis using s1(7) by simp
  next
    case 3
    obtain s1 where s1: "s' = set_fd t fd FREE_FD s1" "same_refs s s1"
    proof (cases "fo_close (ops_tab iops cfg app ops)")
      case None
      then show ?thesis using that [of s] c e by (simp add: close_entry_def same_refs_def)
    next
      case (Some f)
      obtain r1 s1 where f: "f p s = Inr (r1, s1)" "s' = set_fd t fd FREE_FD s1"
        using c e Some by (auto simp: close_entry_def kbind_Inr)
      have "same_refs s s1"
        using Some 3 f(1) A by (cases ops) (auto simp: app_frame_def intro: q_fd_close_same handle_close_same)
      then show ?thesis using that f(2) by blast
    qed
    have "refs_ok s1" using refs_ok_same [OF R s1(2)] .
    then show ?thesis
      using s1 3 e fd by (auto simp: same_refs_def intro!: refs_ok_set_other)
  qed
qed

lemma v_file_close_entry:
  "v_file_close tab fd s = Inr (r, s') \<Longrightarrow> refs_ok s \<Longrightarrow> tab = ops_tab iops cfg app \<Longrightarrow> app_frame app \<Longrightarrow> refs_ok s'"
proof (cases "fd_lookup fd s")
  case None
  assume "v_file_close tab fd s = Inr (r, s')" "refs_ok s"
  then show ?thesis using None by (simp add: v_file_close_def)
next
  case (Some op)
  obtain ops p where op: "op = (ops, p)" by fastforce
  assume c: "v_file_close tab fd s = Inr (r, s')" and R: "refs_ok s" and t: "tab = ops_tab iops cfg app" and A: "app_frame app"
  let ?t = "current_task (sy_k s)"
  have e: "nat fd < VAIOS_MAX_FDS" "sy_fds s ?t (nat fd) = \<lparr>fe_ops = Some ops, fe_priv = p\<rparr>"
    using Some op by (simp_all add: fd_lookup_Some)
  obtain r1 s1 where s1: "(case fo_close (tab ops) of None \<Rightarrow> Inr (0, s) | Some f \<Rightarrow> f p s) = Inr (r1, s1)"
    "s' = set_fd (current_task (sy_k s1)) (nat fd) FREE_FD s1"
    using c Some op by (auto simp: v_file_close_def kbind_Inr)
  have ce: "close_entry tab ?t (nat fd) s = Inr (r1, set_fd ?t (nat fd) FREE_FD s1)"
    using e s1(1) by (auto simp: close_entry_def split: option.splits)
  from close_entry_refs [OF R A e(1) ce [unfolded t]] show ?thesis using s1(2) by simp
qed

lemma fd_close_from_refs:
  assumes "fd_close_from (ops_tab iops cfg app) t fds s = Inr s'" "refs_ok s" "app_frame app" "\<forall>fd \<in> set fds. fd < VAIOS_MAX_FDS"
  shows "refs_ok s'"
  using assms
proof (induction fds arbitrary: s)
  case (Cons fd fds)
  have fd: "fd < VAIOS_MAX_FDS" using Cons.prems(4) by simp
  show ?case
  proof (cases "fe_ops (sy_fds s t fd)")
    case None
    then show ?thesis using Cons by simp
  next
    case (Some ops)
    obtain s1 where s1: "(case fo_close (ops_tab iops cfg app ops) of None \<Rightarrow> Inr s
        | Some f \<Rightarrow> kbind (f (fe_priv (sy_fds s t fd)) s) (\<lambda>(_, s). Inr s)) = Inr s1"
      "fd_close_from (ops_tab iops cfg app) t fds (set_fd t fd FREE_FD s1) = Inr s'"
      using Cons.prems(1) Some by (auto simp: kbind_Inr)
    have "\<exists>r. close_entry (ops_tab iops cfg app) t fd s = Inr (r, set_fd t fd FREE_FD s1)"
      using s1(1) Some by (auto simp: close_entry_def kbind_Inr split: option.splits)
    then have "refs_ok (set_fd t fd FREE_FD s1)" using close_entry_refs [OF Cons.prems(2,3) fd] by blast
    then show ?thesis using Cons.IH [OF s1(2)] Cons.prems by simp
  qed
qed simp

lemma v_file_open_refs:
  assumes "v_file_open (ops_tab iops cfg app) path flags s = Inr (r, s')" and R: "refs_ok s" and A: "app_frame app"
  shows "refs_ok s'"
proof (cases "dev_find path s")
  case None
  then show ?thesis using assms by (simp add: v_file_open_def)
next
  case (Some dt)
  obtain d t where d: "dt = (d, t)" by fastforce
  have "d \<in> set (sy_nodes s)"
    using Some d by (auto simp: dev_find_def dev_scan_find find_Some_iff)
  then have o: "dn_ops d \<notin> {Ipc_Sem_Ops, Ipc_Mtx_Ops, Q_Fd_Ops}" using R by (simp add: refs_ok_def)
  show ?thesis
  proof (cases "fo_open (ops_tab iops cfg app (dn_ops d))")
    case None
    then have "s' = snd (v_fd_alloc (dn_ops d) (dn_priv d) s)" using assms(1) Some d by (simp add: v_file_open_def)
    then show ?thesis using refs_ok_alloc_other [OF R] o by simp
  next
    case (Some op)
    then obtain n where n: "dn_ops d = App_Ops n" using o by (cases "dn_ops d") auto
    obtain r1 p s1 where s1: "op path flags s = Inr (r1, p, s1)"
      using assms(1) \<open>dev_find path s = Some dt\<close> d Some by (auto simp: v_file_open_def kbind_Inr)
    have "same_refs s s1" using A Some n s1 by (fastforce simp: app_frame_def)
    then have R1: "refs_ok s1" using refs_ok_same [OF R] by blast
    let ?s2 = "snd (v_fd_alloc (App_Ops n) p s1)"
    have R2: "refs_ok ?s2" using refs_ok_alloc_other [OF R1] by simp
    have "s' = s1 \<or> s' = ?s2 \<or> (\<exists>cl x. fo_close (app n) = Some cl \<and> cl p ?s2 = Inr (x, s'))"
      using assms(1) \<open>dev_find path s = Some dt\<close> d Some n s1
      by (auto simp: v_file_open_def kbind_Inr Let_def split: if_splits option.splits prod.splits)
    then show ?thesis using R1 R2 refs_ok_same [OF R2] A by (fastforce simp: app_frame_def)
  qed
qed

lemma v_file_dup_refs:
  assumes R: "refs_ok s"
  shows "refs_ok (snd (v_file_dup (ops_tab iops cfg app) fd s))"
proof (cases "fd_lookup fd s")
  case (Some op)
  then show ?thesis
    using R refs_ok_alloc_other [OF R, of "fst op" "snd op"] by (cases op; cases "fst op") (auto simp: v_file_dup_def)
qed (simp add: v_file_dup_def R)

lemma v_file_dup2_refs:
  assumes R: "refs_ok s"
  shows "refs_ok (snd (v_file_dup2 (ops_tab iops cfg app) fd fd' s))"
proof (cases "fd_lookup fd s")
  case (Some op)
  let ?t = "current_task (sy_k s)" and ?tab = "ops_tab iops cfg app"
  obtain ops p where op: "op = (ops, p)" by fastforce
  show ?thesis
  proof (cases "fo_close (?tab ops) \<noteq> None \<or> fd' < 0 \<or> fd' \<ge> int VAIOS_MAX_FDS \<or>
      (case fe_ops (sy_fds s ?t (nat fd')) of None \<Rightarrow> False | Some o' \<Rightarrow> fo_close (?tab o') \<noteq> None)")
    case True
    then show ?thesis using R Some op by (auto simp: v_file_dup2_def Let_def)
  next
    case False
    then have "ops \<notin> {Ipc_Sem_Ops, Ipc_Mtx_Ops}" "nat fd' < VAIOS_MAX_FDS"
      "fe_ops (sy_fds s ?t (nat fd')) \<notin> {Some Ipc_Sem_Ops, Some Ipc_Mtx_Ops}"
      by auto
    moreover have "snd (v_file_dup2 ?tab fd fd' s) = set_fd ?t (nat fd') \<lparr>fe_ops = Some ops, fe_priv = p\<rparr> s"
      using False Some op by (auto simp: v_file_dup2_def Let_def split: option.splits)
    ultimately show ?thesis using refs_ok_set_other [OF R] by simp
  qed
qed (simp add: v_file_dup2_def R)

lemma refs_ok_set_fds:
  assumes "refs_ok s" "\<forall>fd \<in> set fds. fd < VAIOS_MAX_FDS" "fe_ops e \<notin> {Some Ipc_Sem_Ops, Some Ipc_Mtx_Ops}"
    "\<forall>fd < VAIOS_MAX_FDS. fe_ops (sy_fds s t fd) \<notin> {Some Ipc_Sem_Ops, Some Ipc_Mtx_Ops}"
  shows "refs_ok (foldl (\<lambda>s fd. set_fd t fd e s) s fds) \<and>
    (\<forall>fd < VAIOS_MAX_FDS. fe_ops (sy_fds (foldl (\<lambda>s fd. set_fd t fd e s) s fds) t fd) \<notin> {Some Ipc_Sem_Ops, Some Ipc_Mtx_Ops}) \<and>
    sy_nodes (foldl (\<lambda>s fd. set_fd t fd e s) s fds) = sy_nodes s"
  using assms
proof (induction fds arbitrary: s)
  case (Cons fd fds)
  have "refs_ok (set_fd t fd e s)" using Cons.prems by (intro refs_ok_set_other) auto
  then show ?case using Cons.IH [of "set_fd t fd e s"] Cons.prems by simp
qed simp

lemma v_fd_table_init_refs:
  assumes R: "refs_ok s" and f: "\<forall>fd < VAIOS_MAX_FDS. fe_ops (sy_fds s t fd) = None"
  shows "refs_ok (v_fd_table_init t s)"
proof -
  let ?s1 = "foldl (\<lambda>s fd. set_fd t fd FREE_FD s) s [0..<VAIOS_MAX_FDS]"
  have s1: "refs_ok ?s1" "\<forall>fd < VAIOS_MAX_FDS. fe_ops (sy_fds ?s1 t fd) \<notin> {Some Ipc_Sem_Ops, Some Ipc_Mtx_Ops}"
    "sy_nodes ?s1 = sy_nodes s"
    using refs_ok_set_fds [OF R, of "[0..<VAIOS_MAX_FDS]" FREE_FD t] f by simp_all
  show ?thesis
  proof (cases "dev_find ''/dev/console'' ?s1")
    case None
    then show ?thesis using s1(1) by (simp only: v_fd_table_init_def Let_def option.case)
  next
    case (Some dt)
    obtain d x where d: "dt = (d, x)" by fastforce
    have "d \<in> set (sy_nodes ?s1)" using Some d by (auto simp: dev_find_def dev_scan_find find_Some_iff)
    then have "dn_ops d \<notin> {Ipc_Sem_Ops, Ipc_Mtx_Ops, Q_Fd_Ops}" using s1(1) by (simp add: refs_ok_def)
    then have "refs_ok (foldl (\<lambda>s fd. set_fd t fd \<lparr>fe_ops = Some (dn_ops d), fe_priv = dn_priv d\<rparr> s) ?s1 [0..<min 3 VAIOS_MAX_FDS])"
      using refs_ok_set_fds [OF s1(1), of "[0..<min 3 VAIOS_MAX_FDS]" "\<lparr>fe_ops = Some (dn_ops d), fe_priv = dn_priv d\<rparr>" t] s1(2)
      by simp
    then show ?thesis using Some d by (simp only: v_fd_table_init_def Let_def option.case prod.case)
  qed
qed

section \<open>Reachable states\<close>

text \<open>
  \<open>vf_reach\<close>: what the descriptor layer can come to, from a state with no open descriptor. Between its
  calls the scheduler and the synchronisation calls may do anything to the kernel's own part
  (\<open>kernel\<close>), context switches included. Only devices are registered: the op-tables of named objects
  and queues are static in their files. A new task starts with a free table.
\<close>

definition vf_boot :: "'i sys \<Rightarrow> bool" where
  "vf_boot s \<longleftrightarrow> (\<forall>t fd. fe_ops (sy_fds s t fd) = None) \<and> sy_nodes s = [] \<and>
     (\<forall>x \<in> set (sy_sems s). ns_refcount x = 0 \<and> \<not> ns_used x) \<and>
     (\<forall>x \<in> set (sy_mtxs s). nm_refcount x = 0 \<and> \<not> nm_used x)"

inductive vf_reach :: "(ops_id \<Rightarrow> 'i sys file_ops) \<Rightarrow> 'i sys \<Rightarrow> bool" for tab where
  boot: "vf_boot s \<Longrightarrow> vf_reach tab s"
| kernel: "vf_reach tab s \<Longrightarrow> vf_reach tab (s\<lparr>sy_k := k\<rparr>)"
| register: "vf_reach tab s \<Longrightarrow> ops \<notin> {Ipc_Sem_Ops, Ipc_Mtx_Ops, Q_Fd_Ops} \<Longrightarrow>
    vf_reach tab (snd (v_devfs_register name ops p s))"
| new_task: "vf_reach tab s \<Longrightarrow> \<forall>fd < VAIOS_MAX_FDS. fe_ops (sy_fds s t fd) = None \<Longrightarrow> vf_reach tab (v_fd_table_init t s)"
| sem_open: "vf_reach tab s \<Longrightarrow> v_sem_open name flags s = Inr (r, s') \<Longrightarrow> vf_reach tab s'"
| mtx_open: "vf_reach tab s \<Longrightarrow> v_mtx_open name flags s = Inr (r, s') \<Longrightarrow> vf_reach tab s'"
| file_open: "vf_reach tab s \<Longrightarrow> v_file_open tab path mode s = Inr (r, s') \<Longrightarrow> vf_reach tab s'"
| dup: "vf_reach tab s \<Longrightarrow> vf_reach tab (snd (v_file_dup tab fd s))"
| dup2: "vf_reach tab s \<Longrightarrow> vf_reach tab (snd (v_file_dup2 tab fd fd' s))"
| close: "vf_reach tab s \<Longrightarrow> v_file_close tab fd s = Inr (r, s') \<Longrightarrow> vf_reach tab s'"
| close_all: "vf_reach tab s \<Longrightarrow> v_fd_close_all tab t s = Inr s' \<Longrightarrow> vf_reach tab s'"

lemma vf_boot_refs:
  assumes "vf_boot s"
  shows "refs_ok s"
proof -
  have "fd_refs (sy_fds s) ops p = {}" for ops p
    using assms fd_refs_memb [of _ _ "sy_fds s" ops p] by (auto simp: vf_boot_def)
  then show ?thesis
    using assms by (auto simp: vf_boot_def refs_ok_def named_ok_def names_ok_def sem_counts_def mtx_counts_def
        sem_names_def mtx_names_def inj_on_def)
qed

lemma vf_reach_refs:
  assumes "vf_reach tab s" "tab = ops_tab iops cfg app" "app_frame app"
  shows "refs_ok s"
  using assms
proof (induction rule: vf_reach.induct)
  case (boot s)
  then show ?case by (simp add: vf_boot_refs)
next
  case (kernel s k)
  then show ?case by (auto intro: refs_ok_cong)
next
  case (register s ops name p)
  then show ?case
    by (auto simp: v_devfs_register_def refs_ok_def sem_counts_def sem_names_def mtx_counts_def mtx_names_def)
next
  case (sem_open s name flags r s')
  then show ?case using v_sem_open_refs [of s name flags] by fastforce
next
  case (mtx_open s name flags r s')
  then show ?case using v_mtx_open_refs [of s name flags] by fastforce
next
  case (close_all s t s')
  then show ?case by (auto simp: v_fd_close_all_def intro!: fd_close_from_refs [of iops cfg app t "[0..<VAIOS_MAX_FDS]" s])
qed (simp_all add: v_fd_table_init_refs v_file_open_refs v_file_dup_refs v_file_dup2_refs v_file_close_entry)

end
