(* ===== verification/Mpmc_Properties.thy ===== *)
theory Mpmc_Properties
  imports Mpmc Ipc_Properties
begin

text \<open>
  Properties of the MPMC queue: any sequence of non-blocking pushes and pops behaves as a bounded
  queue, a bulk push takes a prefix, and \<open>mpmc_reset\<close> ends and repairs the two semaphores.
\<close>

section \<open>Resetting\<close>

lemma drain_sem_ends:
  assumes "idle_sem k s n c" "n \<le> c" "c < 2 ^ 31" "P k m" "s \<noteq> m" "ipc_frame P m"
  shows "\<exists>k'. drain_sem s k = Some (Inr k') \<and> idle_sem k' s 0 c \<and> P k' m \<and>
    (\<forall>x. x \<noteq> s \<longrightarrow> semas k' x = semas k x)"
  using assms(1,2,4)
proof (induction n arbitrary: k)
  case 0
  obtain k' where "v_semaphore_take s 0 k = Inr (VA_FAIL, k')" "semas k' = semas k" "P k' m"
    using idle_sem_refuse [of k s c P m, OF 0(1,3) assms(6)] by blast
  then show ?case
    using 0(1) by (subst drain_sem.simps) (auto intro: idle_sem_cong)
next
  case (Suc n)
  obtain k1 where t: "v_semaphore_take s 0 k = Inr (VA_PASS, k1)" "idle_sem k1 s n c" "P k1 m"
    "\<forall>x. x \<noteq> s \<longrightarrow> semas k1 x = semas k x"
    using idle_sem_take [of k s "Suc n" c P m 0, OF Suc.prems(1) _ Suc.prems(2) assms(3) Suc.prems(3) assms(5,6)]
    by auto
  then obtain k' where "drain_sem s k1 = Some (Inr k')" "idle_sem k' s 0 c" "P k' m"
    "\<forall>x. x \<noteq> s \<longrightarrow> semas k' x = semas k1 x"
    using Suc.IH [of k1] Suc.prems(2) by auto
  then show ?case using t by (subst drain_sem.simps) auto
qed

lemma give_times_counts:
  assumes "idle_sem k s j c" "j + n \<le> c" "c < 2 ^ 31" "P k m" "s \<noteq> m" "ipc_frame P m"
  shows "\<exists>k'. give_times n s k = Inr k' \<and> idle_sem k' s (j + n) c \<and> P k' m \<and>
    (\<forall>x. x \<noteq> s \<longrightarrow> semas k' x = semas k x)"
  using assms(1,2,4)
proof (induction n arbitrary: j k)
  case (Suc n)
  obtain k1 where t: "v_semaphore_give s k = Inr (VA_PASS, k1)" "idle_sem k1 s (Suc j) c" "P k1 m"
    "\<forall>x. x \<noteq> s \<longrightarrow> semas k1 x = semas k x"
    using idle_sem_give [of k s j c P m, OF Suc.prems(1) _ assms(3) Suc.prems(3) assms(5,6)] Suc.prems(2) by auto
  then obtain k' where "give_times n s k1 = Inr k'" "idle_sem k' s (Suc j + n) c" "P k' m"
    "\<forall>x. x \<noteq> s \<longrightarrow> semas k' x = semas k1 x"
    using Suc.IH [of k1 "Suc j"] Suc.prems(2) by auto
  then show ?case using t by auto
qed simp

lemma idle_sem_addr: "idle_sem k s n c \<Longrightarrow> s \<noteq> 0"
  by (simp add: idle_sem_def)

text \<open>
  Claim C22. \<open>mpmc_reset\<close> ends: the two loops that drain the semaphores take at most \<open>capacity\<close>
  rounds each. It leaves an empty queue whose semaphores agree with it, whatever their counts
  were before, as long as nobody waits on them and the lock is free. (\<open>wakes_ok\<close>: the wake semaphores
  of a registered queue are other semaphores, on which nobody sleeps either.)
\<close>

theorem mpmc_reset_terminates:
  assumes "quiet k (mq_lock q)" "0 < mq_capacity q" "mq_capacity q < 2 ^ 31"
    "mq_capacity q * mq_elem_size q \<le> length (mq_store q)" "wakes_ok q k"
    "distinct [mq_lock q, mq_not_empty q, mq_not_full q]"
    "idle_sem k (mq_not_empty q) n1 (mq_capacity q)" "n1 \<le> mq_capacity q"
    "idle_sem k (mq_not_full q) n2 (mq_capacity q)" "n2 \<le> mq_capacity q"
  shows "\<exists>k'. mpmc_reset q k = Inr (q\<lparr>mq_head := 0, mq_tail := 0, mq_count := 0\<rparr>, k') \<and>
    mpmc_idle (q\<lparr>mq_head := 0, mq_tail := 0, mq_count := 0\<rparr>) k' \<and>
    mpmc_contents (q\<lparr>mq_head := 0, mq_tail := 0, mq_count := 0\<rparr>) = []"
proof -
  let ?l = "mq_lock q" and ?e = "mq_not_empty q" and ?f = "mq_not_full q" and ?c = "mq_capacity q"
  have d: "?e \<noteq> ?l" "?f \<noteq> ?l" "?e \<noteq> ?f" using assms(6) by auto
  obtain k1 where l: "v_mutex_lock ?l V_WAIT_FOREVER k = Inr (VA_PASS, k1)" "locked k1 ?l"
    "\<forall>s. s \<noteq> ?l \<longrightarrow> semas k1 s = semas k s"
    using lock_quiet [OF assms(1)] by blast
  obtain k2 where e: "drain_sem ?e k1 = Some (Inr k2)" "idle_sem k2 ?e 0 ?c" "locked k2 ?l"
    "\<forall>x. x \<noteq> ?e \<longrightarrow> semas k2 x = semas k1 x"
    using drain_sem_ends [OF idle_sem_cong [OF assms(7)] assms(8,3) l(2) d(1) ipc_frame_lock(2)] l(3) d by blast
  have f2: "idle_sem k2 ?f n2 ?c" using idle_sem_cong [OF assms(9), of k2] l(3) e(4) d by simp
  obtain k3 where f: "drain_sem ?f k2 = Some (Inr k3)" "idle_sem k3 ?f 0 ?c" "locked k3 ?l"
    "\<forall>x. x \<noteq> ?f \<longrightarrow> semas k3 x = semas k2 x"
    using drain_sem_ends [OF f2 assms(10,3) e(3) d(2) ipc_frame_lock(2)] by blast
  obtain k4 where g: "give_times ?c ?f k3 = Inr k4" "idle_sem k4 ?f ?c ?c" "locked k4 ?l"
    "\<forall>x. x \<noteq> ?f \<longrightarrow> semas k4 x = semas k3 x"
    using give_times_counts [OF f(2) _ assms(3) f(3) d(2) ipc_frame_lock(2), of ?c] by auto
  obtain k5 where u: "v_mutex_unlock ?l k4 = Inr (VA_PASS, k5)" "quiet k5 ?l"
    "\<forall>s. s \<noteq> ?l \<longrightarrow> semas k5 s = semas k4 s"
    using unlock_locked [OF g(3)] by blast
  have "idle_sem k5 ?f ?c ?c" using idle_sem_cong [OF g(2), of k5] u(3) d by simp
  moreover have "idle_sem k5 ?e 0 ?c" using idle_sem_cong [OF e(2), of k5] u(3) g(4) f(4) d by simp
  moreover have "wakes_ok q k5"
    by (rule wakes_ok_cong [OF assms(5)]) (use l(3) e(4) f(4) g(4) u(3) in auto)
  then have "wakes_ok (q\<lparr>mq_head := 0, mq_tail := 0, mq_count := 0\<rparr>) k5" by (simp add: wakes_ok_def)
  ultimately have "mpmc_idle (q\<lparr>mq_head := 0, mq_tail := 0, mq_count := 0\<rparr>) k5"
    using assms u(2) by (simp add: mpmc_idle_def mpmc_wf_def)
  moreover have "mpmc_reset q k = Inr (q\<lparr>mq_head := 0, mq_tail := 0, mq_count := 0\<rparr>, k5)"
    using l(1) e(1) f(1) g(1) u(1) by (simp add: mpmc_reset_def Let_def)
  ultimately show ?thesis by (simp add: mpmc_contents_def ring_view_def)
qed

section \<open>A sample queue\<close>

text \<open>Four slots of two bytes, one element, in the sample system.\<close>

definition mpmc_kernel :: kernel where
  "mpmc_kernel = ipc_kernel\<lparr>semas := (semas ipc_kernel)
     (900 := \<lparr>s_wait_q = 0, s_tail = 0, s_count = 1, s_limit = 4, s_observers = None\<rparr>,
      920 := \<lparr>s_wait_q = 0, s_tail = 0, s_count = 3, s_limit = 4, s_observers = None\<rparr>)\<rparr>"

definition mpmc_demo :: mpmc_queue where
  "mpmc_demo = \<lparr>mq_store = [0, 0, 0, 0, 0, 0, 7, 8], mq_capacity = 4, mq_elem_size = 2,
     mq_policy = MPMC_POLICY_DROP, mq_head = 0, mq_tail = 3, mq_count = 1, mq_lock = 768,
     mq_not_empty = 900, mq_not_full = 920, mq_fd_wake_rd = 0, mq_fd_wake_wr = 0\<rparr>"

lemma mpmc_kernel_quiet: "quiet mpmc_kernel 768"
proof -
  have s: "sched_inv mpmc_kernel ipc_ready [80, 96] []"
    by (rule sched_inv_frame [OF ipc_inv]) (simp_all add: mpmc_kernel_def)
  have "held_ok mpmc_kernel 16 []" by (simp add: held_ok_def mpmc_kernel_def ipc_defs)
  moreover have "\<forall>x. prio mpmc_kernel x \<le> 7" by (simp add: mpmc_kernel_def ipc_defs)
  ultimately show ?thesis
    using s unfolding quiet_def by (auto simp: mpmc_kernel_def ipc_defs)
qed

lemma mpmc_kernel_sems: "idle_sem mpmc_kernel 900 1 4" "idle_sem mpmc_kernel 920 3 4"
  by (simp_all add: idle_sem_def mpmc_kernel_def)

lemma mpmc_demo_rep: "mpmc_rep (mpmc_demo, mpmc_kernel) [[7, 8]]"
proof -
  have "mpmc_contents mpmc_demo = [[7, 8]]"
    by (simp add: mpmc_contents_def mpmc_slots_def mpmc_demo_def ring_view_def bytes_at_def upt_rec numeral_eq_Suc)
  moreover have "mq_lock mpmc_demo = 768" by (simp add: mpmc_demo_def)
  ultimately show ?thesis
    using mpmc_kernel_quiet mpmc_kernel_sems by (simp add: mpmc_rep_def mpmc_idle_def mpmc_wf_def wakes_ok_def mpmc_demo_def)
qed

theorem mpmc_reset_terminates_witness:
  "\<exists>k'. mpmc_reset mpmc_demo mpmc_kernel = Inr (mpmc_demo\<lparr>mq_head := 0, mq_tail := 0, mq_count := 0\<rparr>, k') \<and>
    mpmc_idle (mpmc_demo\<lparr>mq_head := 0, mq_tail := 0, mq_count := 0\<rparr>) k' \<and>
    mpmc_contents (mpmc_demo\<lparr>mq_head := 0, mq_tail := 0, mq_count := 0\<rparr>) = []"
  by (rule mpmc_reset_terminates [where ?n1.0 = 1 and ?n2.0 = 3])
    (use mpmc_kernel_quiet mpmc_kernel_sems in \<open>simp_all add: wakes_ok_def mpmc_demo_def\<close>)

section \<open>Sequences of calls\<close>

text \<open>
  Claim C21. Any sequence of non-blocking pushes and pops on a queue that nobody waits on, with the
  lock free, never faults and returns exactly what a first-in first-out queue of \<open>capacity\<close> elements
  returns. Under \<open>MPMC_POLICY_DROP\<close> that queue refuses an element when it is full, under
  \<open>MPMC_POLICY_OVERWRITE\<close> it drops its oldest. The calls end in a state that represents the contents of
  that queue, with the lock free and both semaphores in step with the number of elements. The queue
  may be registered with the descriptor layer, as long as nobody sleeps on its wake semaphores.
\<close>

theorem mpmc_run_refines:
  assumes "mpmc_rep (q, k) xs" "\<And>x. Put x \<in> set as \<Longrightarrow> length x = mq_elem_size q"
  shows "\<exists>qk. queue_run mpmc_put mpmc_get as (q, k) =
      Some (fst (spec_run (mq_capacity q) (mq_policy q = MPMC_POLICY_OVERWRITE) as xs), qk) \<and>
    mpmc_rep qk (snd (spec_run (mq_capacity q) (mq_policy q = MPMC_POLICY_OVERWRITE) as xs))"
  using mpmc.run_refines [OF assms(1), of as] assms(2)
  by (auto simp: mpmc_valid_def mpmc_bound_def mpmc_lossy_def)

lemma mpmc_demo_overwrite_rep: "mpmc_rep (mpmc_set_policy MPMC_POLICY_OVERWRITE mpmc_demo, mpmc_kernel) [[7, 8]]"
  using mpmc_demo_rep
  by (simp add: mpmc_rep_def mpmc_idle_def mpmc_wf_def wakes_ok_def mpmc_contents_def mpmc_slots_def mpmc_set_policy_def)

theorem mpmc_run_refines_witness:
  "(\<exists>qk. queue_run mpmc_put mpmc_get [Put [1, 2], Get, Get, Get] (mpmc_demo, mpmc_kernel) =
      Some ([Accepted True, Item (Some [7, 8]), Item (Some [1, 2]), Item None], qk) \<and> mpmc_rep qk []) \<and>
   (\<exists>qk. queue_run mpmc_put mpmc_get [Put [1, 1], Put [2, 2], Put [3, 3], Put [4, 4], Get]
        (mpmc_set_policy MPMC_POLICY_OVERWRITE mpmc_demo, mpmc_kernel) =
      Some ([Accepted True, Accepted True, Accepted True, Accepted True, Item (Some [1, 1])], qk) \<and>
      mpmc_rep qk [[2, 2], [3, 3], [4, 4]])"
proof
  have "\<exists>qk. queue_run mpmc_put mpmc_get [Put [1, 2], Get, Get, Get] (mpmc_demo, mpmc_kernel) =
      Some (fst (spec_run 4 False [Put [1, 2], Get, Get, Get] [[7, 8]]), qk) \<and>
      mpmc_rep qk (snd (spec_run 4 False [Put [1, 2], Get, Get, Get] [[7, 8]]))"
    using mpmc_run_refines [OF mpmc_demo_rep, of "[Put [1, 2], Get, Get, Get]"]
    by (auto simp: mpmc_demo_def simp del: queue_run.simps spec_run.simps)
  then show "\<exists>qk. queue_run mpmc_put mpmc_get [Put [1, 2], Get, Get, Get] (mpmc_demo, mpmc_kernel) =
      Some ([Accepted True, Item (Some [7, 8]), Item (Some [1, 2]), Item None], qk) \<and> mpmc_rep qk []"
    by (simp add: Let_def del: queue_run.simps)
  let ?q = "mpmc_set_policy MPMC_POLICY_OVERWRITE mpmc_demo"
  let ?as = "[Put [1, 1], Put [2, 2], Put [3, 3], Put [4, 4], Get]"
  have v: "length x = mq_elem_size ?q" if "Put x \<in> set ?as" for x :: "u8 list"
    using that by (auto simp: mpmc_demo_def mpmc_set_policy_def)
  have "\<exists>qk. queue_run mpmc_put mpmc_get ?as (?q, mpmc_kernel) =
      Some (fst (spec_run 4 True ?as [[7, 8]]), qk) \<and> mpmc_rep qk (snd (spec_run 4 True ?as [[7, 8]]))"
    using mpmc_run_refines [of ?q mpmc_kernel "[[7, 8]]" ?as, OF mpmc_demo_overwrite_rep v]
    by (simp add: mpmc_demo_def mpmc_set_policy_def del: queue_run.simps spec_run.simps)
  then show "\<exists>qk. queue_run mpmc_put mpmc_get ?as (?q, mpmc_kernel) =
      Some ([Accepted True, Accepted True, Accepted True, Accepted True, Item (Some [1, 1])], qk) \<and>
      mpmc_rep qk [[2, 2], [3, 3], [4, 4]]"
    by (simp add: Let_def del: queue_run.simps)
qed

end
