(* ===== verification/Wait_Timeout.thy ===== *)
theory Wait_Timeout
  imports Ipc_Fd
begin

text \<open>
  What the tick does to a task whose time is up, and what stays of an earlier wait in its control
  block: a frame for the operations that only move tasks between lists (\<open>waits_same\<close>), the states in
  which \<open>semaphore_take_common\<close> and \<open>v_wait_block_impl\<close> leave the task they park, and the ejection of a
  waiter by \<open>wake_up_delayed_tasks_isr\<close>.
\<close>

section \<open>Frames\<close>

definition waits_same :: "kernel \<Rightarrow> kernel \<Rightarrow> bool" where
  "waits_same k k' \<longleftrightarrow> sched_only k k' \<and> semas k' = semas k"

lemma waits_same_trans [trans]: "waits_same a b \<Longrightarrow> waits_same b c \<Longrightarrow> waits_same a c"
  using sched_only_trans by (auto simp: waits_same_def)

lemma waits_same_refl [simp]: "waits_same k k"
  by (simp add: waits_same_def)

lemma waits_same_upd [simp]:
  "waits_same a (upd_tcb t f k) \<longleftrightarrow> waits_same a k" if "\<And>x. sched_core (f x) = sched_core x"
  using that by (simp add: waits_same_def)

lemma waits_same_sema: "waits_same k k' \<Longrightarrow> semas k' = semas k"
  by (simp add: waits_same_def)

lemmas waits_same_tcb = sched_only_fields [OF waits_same_def [THEN iffD1, THEN conjunct1]]

lemma link_core_sched: "link_core a = link_core b \<Longrightarrow> sched_core a = sched_core b"
  by (cases a; cases b; simp add: link_core_def sched_core_def)

lemma rl_append_waits: "waits_same k (rl_append t k)"
  using rl_append_sched_only by (simp add: waits_same_def rl_append_def rb_set_def Let_def)

lemma rl_pop_head_waits: "waits_same k (snd (rl_pop_head p k))"
  using rl_pop_head_sched_only [of k p] by (simp add: waits_same_def rl_pop_head_def rb_clear_def Let_def)

lemma sched_switch_waits: "waits_same k (v_perf_on_sched_switch a b k)"
  using sched_only_perf [OF perf_switch_tcb, of k a b]
  by (simp add: waits_same_def v_perf_on_sched_switch_def Let_def split: prod.splits)

lemma waits_same_fields [simp]:
  "waits_same a (k\<lparr>current_task := t\<rparr>) = waits_same a k" "waits_same a (k\<lparr>pendsv := b\<rparr>) = waits_same a k"
  "waits_same a (k\<lparr>last_context_switch_tick := w\<rparr>) = waits_same a k"
  "waits_same a (k\<lparr>context_switch_count := w\<rparr>) = waits_same a k"
  "waits_same a (k\<lparr>blocked_list := n\<rparr>) = waits_same a k"
  by (simp_all add: waits_same_def sched_only_def)

lemma rl_append_waits_iff [simp]: "waits_same a (rl_append t k) = waits_same a k"
  using rl_append_waits [of k t] by (auto simp: waits_same_def sched_only_def)

lemma sched_switch_waits_iff [simp]: "waits_same a (v_perf_on_sched_switch p q k) = waits_same a k"
  using sched_switch_waits [of k p q] by (auto simp: waits_same_def sched_only_def)

lemma get_next_task_waits:
  assumes "get_next_task ram k = Inr (t, k')"
  shows "waits_same k k'"
proof -
  define k0 where "k0 = (upd_tcb (current_task k)
    (\<lambda>t. t\<lparr>t_ticks_run := t_ticks_run t + (of_nat (ticks k) - last_context_switch_tick k)\<rparr>) k)
    \<lparr>last_context_switch_tick := of_nat (ticks k)\<rparr>"
  define ka where "ka = (if current_task k0 \<noteq> 0 \<and> status k0 (current_task k0) = TASK_RUNNING
    then rl_append (current_task k0) k0 else k0)"
  define pick where "pick = (case highest_ready_prio ka of
      Some p \<Rightarrow> let (t, k) = rl_pop_head p ka
        in if \<not> ram t \<or> prio k t > MAX_PRIORITY then Inl K_Panic else Inr (k\<lparr>current_task := t\<rparr>)
    | None \<Rightarrow> Inr (if status ka (current_task ka) \<noteq> TASK_RUNNING then ka\<lparr>current_task := idle_task ka\<rparr> else ka))"
  have a: "waits_same k ka" by (simp add: ka_def k0_def)
  obtain kb where b: "pick = Inr kb"
    and e: "k' = v_perf_on_sched_switch (current_task k) (current_task kb)
      ((upd_tcb (current_task kb) (\<lambda>t. t\<lparr>t_status := TASK_RUNNING\<rparr>) kb)\<lparr>context_switch_count := context_switch_count kb + 1\<rparr>)"
    using assms unfolding get_next_task_def Let_def k0_def [symmetric] ka_def [symmetric] pick_def [unfolded Let_def, symmetric] kbind_Inr
    by (auto split: if_splits)
  have "waits_same ka kb"
    using b rl_pop_head_waits [of ka] by (auto simp: pick_def split: option.splits prod.splits if_splits)
      (metis snd_conv)
  then show ?thesis using a waits_same_trans by (simp add: e)
qed

lemma context_switches_waits: "context_switches ram n k = Inr k' \<Longrightarrow> waits_same k k'"
proof (induction n arbitrary: k)
  case (Suc n)
  then obtain t k1 where "get_next_task ram k = Inr (t, k1)" "context_switches ram n k1 = Inr k'"
    by (auto simp: set_next_task_def kbind_Inr split: if_splits)
  then show ?case using Suc.IH get_next_task_waits waits_same_trans by blast
qed simp

lemma enqueue_task_waits: "enqueue_task l t k = Inr (l', k') \<Longrightarrow> waits_same k k'"
  by (auto simp: enqueue_task_def Let_def kbind_Inr split: if_splits)

lemma add_to_blocked_list_waits: "add_to_blocked_list t k = Inr k' \<Longrightarrow> waits_same k k'"
  using enqueue_task_waits by (auto simp: add_to_blocked_list_def kbind_Inr)

lemma remove_from_blocked_waits: "waits_same k (remove_from_blocked_list t k)"
proof -
  have "waits_same k (snd (remove_task (blocked_list k) t k))"
    using sched_only_links [OF remove_task_links_only] by (simp add: waits_same_def remove_task_def Let_def)
  then show ?thesis by (cases "remove_task (blocked_list k) t k") (simp add: remove_from_blocked_list_def)
qed

lemma add_to_ready_waits: "waits_same k (add_to_ready_list t k)"
  by (simp add: add_to_ready_list_def)

section \<open>Parked tasks\<close>

lemma wait_q_enqueue_parked:
  assumes "wait_q_enqueue a t k = Inr k'" "s_wait_q (semas k a) = 0"
  shows "tcbs k' = (tcbs k)(t := (tcbs k t)\<lparr>t_wait_next := 0\<rparr>)" "s_wait_q (semas k' a) = t"
    "\<forall>x. s_count (semas k' x) = s_count (semas k x) \<and> s_observers (semas k' x) = s_observers (semas k x)"
  using assms by (auto simp: wait_q_enqueue_def Let_def)

lemma wake_deadline_pos [simp]: "0 < v_wake_deadline n k"
  by (auto simp: v_wake_deadline_def Let_def)

lemma take_parked:
  assumes "semaphore_take_common a n k = Inr (V_SYSCALL_BLOCKED, k')" "s_wait_q (semas k a) = 0" "n \<noteq> V_WAIT_FOREVER"
    and c: "current_task k = c"
  shows "t_wait_sem (tcbs k' c) = a" "t_wait_next (tcbs k' c) = 0" "delay_of k' c = v_wake_deadline n k" "0 < delay_of k' c"
    "s_wait_q (semas k' a) = c" "s_count (semas k' x) = s_count (semas k x)" "s_observers (semas k' x) = s_observers (semas k x)"
    "t_sp (tcbs k' x) = t_sp (tcbs k x)" "t_mem_block (tcbs k' x) = t_mem_block (tcbs k x)" "current_task k' = c"
proof -
  let ?d = "v_wake_deadline n (v_perf_on_ipc_take_attempt k)"
  let ?k1 = "upd_tcb c (\<lambda>t. t\<lparr>t_status := TASK_BLOCKED, t_delay_ticks := ?d, t_wait_sem := a\<rparr>) (v_perf_on_ipc_take_attempt k)"
  have d: "?d = v_wake_deadline n k" by (simp add: v_wake_deadline_def v_perf_on_ipc_take_attempt_def)
  obtain k2 k3 where e: "wait_q_enqueue a c ?k1 = Inr k2" "add_to_blocked_list c k2 = Inr k3"
    "k' = (v_perf_on_ipc_take_blocked k3)\<lparr>pendsv := True\<rparr>"
    using assms(1,3) c by (auto simp: semaphore_take_common_def Let_def kbind_Inr split: if_splits)
  have q0: "s_wait_q (semas ?k1 a) = 0" using assms(2) by (simp add: v_perf_on_ipc_take_attempt_def)
  note q = wait_q_enqueue_parked [OF e(1) q0]
  have p: "tcbs (v_perf_on_ipc_take_attempt k) = tcbs k" "semas (v_perf_on_ipc_take_attempt k) = semas k"
    "current_task (v_perf_on_ipc_take_attempt k) = current_task k"
    by (simp_all add: v_perf_on_ipc_take_attempt_def)
  have w: "waits_same k2 k'"
    using add_to_blocked_list_waits [OF e(2)] by (simp add: e(3) waits_same_def sched_only_def v_perf_on_ipc_take_blocked_def)
  note f = waits_same_tcb [OF w] waits_same_sema [OF w]
  show "t_wait_sem (tcbs k' c) = a" "t_wait_next (tcbs k' c) = 0" "delay_of k' c = v_wake_deadline n k" "0 < delay_of k' c"
    "s_wait_q (semas k' a) = c" "s_count (semas k' x) = s_count (semas k x)" "s_observers (semas k' x) = s_observers (semas k x)"
    "t_sp (tcbs k' x) = t_sp (tcbs k x)" "t_mem_block (tcbs k' x) = t_mem_block (tcbs k x)"
    using wake_deadline_pos by (simp_all add: f q p d)
  show "current_task k' = c" using e c by (auto simp: wait_q_enqueue_def add_to_blocked_list_def enqueue_task_def kbind_Inr Let_def p v_perf_on_ipc_take_blocked_def split: if_splits)
qed

lemma wait_ready_bound: "wait_ready i fds s = Some j \<Longrightarrow> j < i + length fds"
  by (induction i fds s rule: wait_ready.induct) (auto simp: Let_def split: if_splits)


text \<open>Arming changes observers and wait nodes only.\<close>

definition arms_only :: "kernel \<Rightarrow> kernel \<Rightarrow> bool" where
  "arms_only k k' \<longleftrightarrow> (\<exists>f g. k' = k\<lparr>tcbs := (\<lambda>x. (tcbs k x)\<lparr>t_wnodes := f x\<rparr>),
     semas := (\<lambda>x. (semas k x)\<lparr>s_observers := g x\<rparr>)\<rparr>)"

lemma arms_only_refl [simp]: "arms_only k k"
  unfolding arms_only_def
  by (rule exI [of _ "\<lambda>x. t_wnodes (tcbs k x)"], rule exI [of _ "\<lambda>x. s_observers (semas k x)"]) simp

lemma arms_only_trans: "arms_only a b \<Longrightarrow> arms_only b c \<Longrightarrow> arms_only a c"
  unfolding arms_only_def by (elim exE) (simp, blast)

lemma arms_only_sema: "arms_only k (upd_sema a (\<lambda>x. x\<lparr>s_observers := b\<rparr>) k)"
  unfolding arms_only_def
  by (rule exI [of _ "\<lambda>x. t_wnodes (tcbs k x)"], rule exI [of _ "(\<lambda>x. s_observers (semas k x))(a := b)"])
    (simp add: upd_sema_def fun_upd_def, rule kernel.fold_congs(2), auto)

lemma arms_only_wnode: "arms_only k (upd_wnode n f k)"
  unfolding arms_only_def
  by (rule exI [of _ "\<lambda>x. t_wnodes (tcbs (upd_wnode n f k) x)"], rule exI [of _ "\<lambda>x. s_observers (semas k x)"])
    (simp add: upd_wnode_def upd_tcb_def fun_upd_def, rule kernel.fold_congs(1), auto)

lemma arms_only_fields:
  assumes "arms_only k k'"
  shows "s_wait_q (semas k' a) = s_wait_q (semas k a)" "s_count (semas k' a) = s_count (semas k a)"
    "t_wait_sem (tcbs k' x) = t_wait_sem (tcbs k x)" "t_sp (tcbs k' x) = t_sp (tcbs k x)"
    "t_mem_block (tcbs k' x) = t_mem_block (tcbs k x)" "same_sched (tcbs k' x) (tcbs k x)"
    "current_task k' = current_task k" "ready_lists k' = ready_lists k" "ready_tails k' = ready_tails k"
    "blocked_list k' = blocked_list k" "delayed_list k' = delayed_list k" "ready_bitmap k' = ready_bitmap k"
  using assms by (auto simp: arms_only_def same_sched_def)

lemma wait_arm_spec:
  assumes "wait_arm i kn fds s = (kn', s')" "current_task (sy_k s) = c"
  shows "kn \<le> kn' \<and> arms_only (sy_k s) (sy_k s') \<and> s' = s\<lparr>sy_k := sy_k s'\<rparr> \<and>
    (if kn = kn' then s' = s else \<exists>a. s_observers (semas (sy_k s') a) = Some (c, kn' - 1))"
  using assms
proof (induction fds arbitrary: i kn s)
  case (Cons fd fds)
  show ?case
  proof (cases "v_fd_obj fd Ipc_Sem_Ops s = 0")
    case True
    then have "wait_arm (i + 1) kn fds s = (kn', s')" using Cons.prems(1) by (simp add: Let_def)
    then show ?thesis using Cons.IH Cons.prems(2) by blast
  next
    case False
    define sem where "sem = ns_sem (sy_sems s ! (v_fd_obj fd Ipc_Sem_Ops s - 1))"
    define k where "k = upd_sema sem (\<lambda>x. x\<lparr>s_observers := Some (c, kn)\<rparr>)
      (upd_wnode (c, kn) (\<lambda>x. x\<lparr>wn_sem := sem, wn_owner := c, wn_idx := int i,
        wn_next := s_observers (semas (sy_k s) sem)\<rparr>) (sy_k s))"
    have r: "wait_arm (i + 1) (kn + 1) fds (s\<lparr>sy_k := k\<rparr>) = (kn', s')"
      using Cons.prems False by (simp add: Let_def k_def sem_def)
    have f: "arms_only (sy_k s) k" "s_observers (semas k sem) = Some (c, kn)"
      using arms_only_trans [OF arms_only_wnode arms_only_sema] by (simp_all add: k_def)
    then have "current_task (sy_k (s\<lparr>sy_k := k\<rparr>)) = c" using arms_only_fields(7) Cons.prems(2) by simp
    note ih = Cons.IH [OF r this, simplified]
    moreover have "\<exists>a. s_observers (semas (sy_k s') a) = Some (c, kn' - 1)"
      using ih f(2) by (cases "Suc kn = kn'") auto
    ultimately show ?thesis using f(1) arms_only_trans by (auto split: if_splits)
  qed
qed simp


lemma wait_parked:
  assumes "v_wait_block_impl fds nfds n s = Inr (V_SYSCALL_BLOCKED, s')" "n \<noteq> V_WAIT_FOREVER" "current_task (sy_k s) = c"
  shows "t_in_multiwait (tcbs (sy_k s') c)" "t_wait_sem (tcbs (sy_k s') c) = t_wait_sem (tcbs (sy_k s) c)"
    "0 < delay_of (sy_k s') c" "0 < t_narm (tcbs (sy_k s') c)"
    "s_wait_q (semas (sy_k s') a) = s_wait_q (semas (sy_k s) a)"
    "\<exists>a. s_observers (semas (sy_k s') a) = Some (c, t_narm (tcbs (sy_k s') c) - 1)"
proof -
  let ?fds = "take (nat nfds) fds"
  have b: "0 < nfds" "nfds \<le> 8"
    using assms(1) by (auto simp: v_wait_block_impl_def split: if_splits)
  have none: "wait_ready 0 ?fds s = None"
  proof (rule ccontr)
    assume "wait_ready 0 ?fds s \<noteq> None"
    then obtain i where i: "wait_ready 0 ?fds s = Some i" by blast
    with assms(1) b have "int i = 0x7FFF0000" by (simp add: v_wait_block_impl_def)
    moreover have "i < 8" using wait_ready_bound [OF i] b by (simp, linarith)
    ultimately show False by simp
  qed
  obtain kn s1 where arm: "wait_arm 0 0 ?fds s = (kn, s1)" by fastforce
  define k1 where "k1 = upd_tcb c (\<lambda>t. t\<lparr>t_in_multiwait := True, t_status := TASK_BLOCKED,
    t_delay_ticks := v_wake_deadline n (sy_k s1)\<rparr>) (upd_tcb c (\<lambda>t. t\<lparr>t_narm := kn\<rparr>) (sy_k s1))"
  have vd: "v_wake_deadline n (upd_tcb c f k) = v_wake_deadline n k" for f k by (simp add: v_wake_deadline_def)
  obtain k2 where k2: "kn \<noteq> 0" "add_to_blocked_list c k1 = Inr k2" "sy_k s' = k2\<lparr>pendsv := True\<rparr>"
    using assms b none arm by (auto simp: v_wait_block_impl_def Let_def kbind_Inr vd k1_def split: if_splits)
  have w: "waits_same k1 (sy_k s')" using add_to_blocked_list_waits [OF k2(2)] by (simp add: k2(3))
  have a: "arms_only (sy_k s) (sy_k s1)" "\<exists>a. s_observers (semas (sy_k s1) a) = Some (c, kn - 1)"
    using wait_arm_spec [OF arm assms(3)] k2(1) by auto
  note f = waits_same_tcb [OF w] waits_same_sema [OF w] arms_only_fields [OF a(1)]
  show "t_in_multiwait (tcbs (sy_k s') c)" "t_wait_sem (tcbs (sy_k s') c) = t_wait_sem (tcbs (sy_k s) c)"
    "0 < delay_of (sy_k s') c" "0 < t_narm (tcbs (sy_k s') c)"
    "s_wait_q (semas (sy_k s') a) = s_wait_q (semas (sy_k s) a)"
    "\<exists>a. s_observers (semas (sy_k s') a) = Some (c, t_narm (tcbs (sy_k s') c) - 1)"
    using k2(1) a(2) by (simp_all add: f k1_def)
qed

section \<open>Ejection\<close>

lemma eject_from_sem_head:
  assumes "t \<noteq> 0" "s_wait_q (semas k (t_wait_sem (tcbs k t))) \<in> {0, t}"
  shows "\<exists>k'. eject_from_sem t k = Some k' \<and> k' = k\<lparr>semas := semas k'\<rparr> \<and>
    (\<forall>x. s_observers (semas k' x) = s_observers (semas k x) \<and> s_count (semas k' x) = s_count (semas k x)) \<and>
    s_wait_q (semas k' (t_wait_sem (tcbs k t))) =
      (if s_wait_q (semas k (t_wait_sem (tcbs k t))) = t then t_wait_next (tcbs k t) else 0)"
proof -
  have "wait_prev k t 0 = Some 0" by (subst wait_prev.simps) simp
  then show ?thesis using assms by (auto simp: eject_from_sem_def Let_def upd_sema_def)
qed

lemma eject_waiter_timeout:
  assumes a: "t \<noteq> 0" "t_wait_sem (tcbs k t) = a" "a \<noteq> 0" "s_wait_q (semas k a) \<in> {0, t}"
    and d: "delay_of k t \<noteq> 0" "delay_of k t < now"
  shows "\<exists>w k'. eject_waiter now t k h = Some (w, k') \<and> t_syscall_result (tcbs k' t) = VA_FAIL \<and>
    t_has_syscall_result (tcbs k' t) \<and> t_wait_sem (tcbs k' t) = a \<and>
    t_in_multiwait (tcbs k' t) = t_in_multiwait (tcbs k t) \<and> t_narm (tcbs k' t) = t_narm (tcbs k t) \<and>
    (\<forall>x. s_observers (semas k' x) = s_observers (semas k x) \<and> s_count (semas k' x) = s_count (semas k x)) \<and>
    s_wait_q (semas k' a) = (if s_wait_q (semas k a) = t then t_wait_next (tcbs k t) else 0)"
proof -
  obtain k1 where k1: "eject_from_sem t k = Some k1" "k1 = k\<lparr>semas := semas k1\<rparr>"
    "\<forall>x. s_observers (semas k1 x) = s_observers (semas k x) \<and> s_count (semas k1 x) = s_count (semas k x)"
    "s_wait_q (semas k1 a) = (if s_wait_q (semas k a) = t then t_wait_next (tcbs k t) else 0)"
    using eject_from_sem_head [of t k] a by auto
  have k1t: "tcbs k1 = tcbs k" by (subst k1(2)) simp
  define k2 where "k2 = remove_from_blocked_list t k1"
  define k3 where "k3 = upd_tcb t (\<lambda>t. t\<lparr>t_delay_ticks := 0, t_status := TASK_READY\<rparr>) k2"
  define k4 where "k4 = add_to_ready_list t k3"
  define k5 where "k5 = v_syscall_wake_result t VA_FAIL (upd_tcb t (\<lambda>t. t\<lparr>t_wait_mutex := 0\<rparr>) k4)"
  have e: "eject_waiter now t k h = Some (h \<or> outranks t k5, k5)"
    using a(2,3) d k1(1) by (simp add: eject_waiter_def Let_def k2_def k3_def k4_def k5_def)
  have w: "waits_same k1 k2" "waits_same k3 k4" by (simp_all add: k2_def k4_def remove_from_blocked_waits add_to_ready_waits)
  note f = waits_same_tcb [OF w(1)] waits_same_tcb [OF w(2)] waits_same_sema [OF w(1)] waits_same_sema [OF w(2)]
  show ?thesis unfolding e using k1(3,4) a(2) by (simp add: k5_def k3_def f k1t v_syscall_wake_result_def)
qed


lemma rl_append_status: "status (rl_append t k) x = (if x = t then TASK_READY else status k x)"
  by (auto simp: rl_append_def Let_def rb_set_def)

lemma eject_waiter_lists:
  assumes I: "sched_inv k R B D" and t: "t \<in> set B" and p: "prio k t = p" "p \<le> 7"
    and e: "eject_waiter now t k h = Some (w, k')" "t_wait_sem (tcbs k t) \<noteq> 0" "s_wait_q (semas k (t_wait_sem (tcbs k t))) \<in> {0, t}"
    and d: "delay_of k t \<noteq> 0" "delay_of k t < now"
  shows "sched_inv k' (R(p := R p @ [t])) (remove1 t B) D" "current_task k' = current_task k"
    "t_sp (tcbs k' x) = t_sp (tcbs k x)" "t_mem_block (tcbs k' x) = t_mem_block (tcbs k x)" "prio k' x = prio k x"
    "x \<noteq> t \<Longrightarrow> status k' x = status k x"
proof -
  have nz: "t \<noteq> 0" using sched_inv_nonnull [OF I on_listsI(2) [OF t]] .
  obtain k1 S where k1: "eject_from_sem t k = Some k1" "k1 = k\<lparr>semas := S\<rparr>"
    using eject_from_sem_head [OF nz e(3)] by blast
  have f1: "tcbs k1 = tcbs k" "current_task k1 = current_task k" "sched_inv k1 R B D"
    using sched_inv_frame [OF I, of k1] by (simp_all add: k1(2))
  define k2 where "k2 = remove_from_blocked_list t k1"
  define k3 where "k3 = upd_tcb t (\<lambda>t. t\<lparr>t_delay_ticks := 0, t_status := TASK_READY\<rparr>) k2"
  define k4 where "k4 = rl_append t k3"
  have k': "k' = v_syscall_wake_result t VA_FAIL (upd_tcb t (\<lambda>t. t\<lparr>t_wait_mutex := 0\<rparr>) k4)"
    using e d k1(1) nz by (simp add: eject_waiter_def Let_def k2_def k3_def k4_def add_to_ready_list_def)
  note r = remove_from_blocked_list_inv [OF f1(3) t, folded k2_def]
  have I3: "sched_inv k3 R (remove1 t B) D"
    by (rule sched_inv_frame [OF r(1)]) (use r(3) in \<open>auto simp: k3_def\<close>)
  have p3: "prio k3 t = p" using links_only_fields(2) [OF r(2)] p(1) f1(1) by (simp add: k3_def)
  have I4: "sched_inv k4 (R(p := R p @ [t])) (remove1 t B) D"
    unfolding k4_def by (rule rl_append_inv [OF I3 nz r(3) p(2) p3])
  show "sched_inv k' (R(p := R p @ [t])) (remove1 t B) D"
    by (rule sched_inv_fields [OF I4]) (simp_all add: k' v_syscall_wake_result_def same_sched_def)
  have w: "waits_same k1 k2" "waits_same k3 k4" by (simp_all add: k2_def k4_def remove_from_blocked_waits)
  note f = waits_same_tcb [OF w(1)] waits_same_tcb [OF w(2)]
  show "t_sp (tcbs k' x) = t_sp (tcbs k x)" "t_mem_block (tcbs k' x) = t_mem_block (tcbs k x)" "prio k' x = prio k x"
    by (simp_all add: k' v_syscall_wake_result_def k3_def f f1(1))
  have "current_task k2 = current_task k1" by (subst r(4)) simp
  then show "current_task k' = current_task k"
    by (simp add: k' v_syscall_wake_result_def k4_def rl_append_def rb_set_def k3_def Let_def f1(2))
  show "status k' x = status k x" if "x \<noteq> t"
    using that links_only_fields(1) [OF r(2), of x] f1(1)
    by (simp add: k' v_syscall_wake_result_def k4_def rl_append_status k3_def)
qed

lemma wait_block_parks:
  assumes I: "sched_inv (sy_k s) R B D" and c: "current_task (sy_k s) = c" "c \<noteq> 0" "status (sy_k s) c = TASK_RUNNING"
    and n: "0 < nfds" "nfds \<le> 8" "n \<noteq> 0" and r: "wait_ready 0 (take (nat nfds) fds) s = None"
    and a: "wait_arm 0 0 (take (nat nfds) fds) s = (kn, s1)" "kn \<noteq> 0"
  shows "\<exists>s'. v_wait_block_impl fds nfds n s = Inr (V_SYSCALL_BLOCKED, s') \<and> sched_inv (sy_k s') R (B @ [c]) D \<and>
    current_task (sy_k s') = c \<and> (\<forall>x. stack_ok (sy_k s') x = stack_ok (sy_k s) x \<and> prio (sy_k s') x = prio (sy_k s) x)"
proof -
  have o: "arms_only (sy_k s) (sy_k s1)" using wait_arm_spec [OF a(1) c(1)] by blast
  note f = arms_only_fields [OF o]
  have I1: "sched_inv (sy_k s1) R B D" by (rule sched_inv_fields [OF I]) (simp_all add: f)
  have nl: "c \<notin> on_lists R B D" by (rule sched_inv_running [OF I c(3)])
  let ?d = "if n = V_WAIT_FOREVER then 0 else v_wake_deadline n (upd_tcb c (\<lambda>t. t\<lparr>t_narm := kn\<rparr>) (sy_k s1))"
  let ?k = "upd_tcb c (\<lambda>t. t\<lparr>t_in_multiwait := True, t_status := TASK_BLOCKED, t_delay_ticks := ?d\<rparr>)
    (upd_tcb c (\<lambda>t. t\<lparr>t_narm := kn\<rparr>) (sy_k s1))"
  have I2: "sched_inv ?k R B D" by (rule sched_inv_frame [OF I1]) (use nl in auto)
  obtain k2 where k2: "add_to_blocked_list c ?k = Inr k2" "sched_inv k2 R (B @ [c]) D"
    "k2 = ?k\<lparr>tcbs := tcbs k2, blocked_list := blocked_list k2\<rparr>"
    using add_to_blocked_list_inv [OF I2 c(2) nl] by blast
  note g = waits_same_tcb [OF add_to_blocked_list_waits [OF k2(1)]]
  have ct: "current_task k2 = c" by (subst k2(3)) (simp add: f c(1))
  have sc: "t_priority (tcbs (sy_k s1) x) = t_priority (tcbs (sy_k s) x)" for x using f(6) by (simp add: same_sched_def)
  have "v_wait_block_impl fds nfds n s =
      Inr (V_SYSCALL_BLOCKED, s1\<lparr>sy_k := k2\<lparr>pendsv := True\<rparr>\<rparr>)"
    using n r a c(1) k2(1) by (cases "n = V_WAIT_FOREVER") (simp_all add: v_wait_block_impl_def Let_def)
  moreover have "sched_inv (k2\<lparr>pendsv := True\<rparr>) R (B @ [c]) D" by (rule sched_inv_frame [OF k2(2)]) simp_all
  ultimately show ?thesis using ct by (simp add: stack_ok_def g f sc)
qed

lemma switch_once:
  assumes I: "sched_inv k R B D" and c: "current_task k \<noteq> 0" "prio k (current_task k) \<le> 7"
    and p: "p \<le> 7" "ready_with k R p = t # ts" "\<forall>q \<le> 7. p < q \<longrightarrow> ready_with k R q = []"
    and t: "t \<noteq> 0" "ram t" "stack_ok k t"
  shows "\<exists>k'. context_switches ram 1 k = Inr k' \<and> current_task k' = t \<and> status k' t = TASK_RUNNING \<and>
    sched_inv k' ((ready_with k R)(p := ts)) B D \<and> waits_same k k'"
proof -
  have nn: "ready_with k R p \<noteq> []" and hd: "t = List.hd (ready_with k R p)" using p(2) by simp_all
  obtain k' where g: "get_next_task ram k = Inr (t, k')" "current_task k' = t" "status k' t = TASK_RUNNING"
    "sched_inv k' ((ready_with k R)(p := ts)) B D"
    using get_next_task_result [where k = k and R = R and B = B and D = D and p = p and t = t and ram = ram,
        OF I c p(1) nn p(3) hd t(2,3)] p(2) by (elim exE conjE) simp
  then have e: "context_switches ram 1 k = Inr k'" using t(1) by (simp add: set_next_task_def)
  show ?thesis by (rule exI [of _ k']) (use e g context_switches_waits [OF e] in simp)
qed

end
