(* ===== verification/Vfile_Properties.thy ===== *)
theory Vfile_Properties
  imports Vfile_Refs Console_Log Mpmc_Properties Heap_Properties Wait_Timeout
begin

text \<open>
  Properties of the descriptor layer: references to named objects are counted exactly, device nodes
  are found as documented, the console and the kernel log lose and reorder nothing they accept;
  and three defects of waiting and closing.
\<close>

section \<open>A sample system\<close>

definition sample_con :: console where
  "sample_con = \<lparr>con_tx = replicate 256 0, con_tx_head = 0, con_tx_tail = 0, con_tx_sem = 1000, con_writer_seen = True,
     con_last = 0, con_rx = replicate 256 0, con_head = 0, con_tail = 0, con_rx_sem = 1020, con_rx_armed = True,
     con_out = [], con_hw_in = []\<rparr>"

definition sample_sys :: "seglist sys" where
  "sample_sys = \<lparr>sy_k = ipc_kernel, sy_heap = boot_heap, sy_nodes = [], sy_fds = (\<lambda>_ _. FREE_FD),
     sy_con = sample_con, sy_kmsg = \<lparr>kmsg_ring = replicate 1024 0, kmsg_head = 0, kmsg_tail = 0\<rparr>,
     sy_cap = \<lparr>cap_buf = None, cap_len = 0, cap_rd = 0, cap_cut = False\<rparr>,
     sy_sems = map (\<lambda>i. \<lparr>ns_name = [], ns_sem = 2000 + 40 * i, ns_refcount = 0, ns_used = False\<rparr>) [0..<8],
     sy_mtxs = map (\<lambda>i. \<lparr>nm_name = [], nm_mtx = 3000 + 40 * i, nm_refcount = 0, nm_used = False\<rparr>) [0..<8],
     sy_qreg = replicate 8 \<lparr>qe_name = None, qe_wake_rd = 4000, qe_wake_wr = 4020, qe_mpmc = 0, qe_spsc = 0,
                            qe_reader = False, qe_writer = False\<rparr>,
     sy_qh = replicate 4 \<lparr>qh_entry = 0, qh_used = False, qh_flags = 0\<rparr>,
     sy_mpmc = (\<lambda>_. mpmc_demo), sy_spsc = (\<lambda>_. spsc_demo),
     sy_pb = \<lparr>pb_jobs = (\<lambda>_. NO_JOB),
       pb_buses = (\<lambda>_. \<lparr>pb_queue = 0, pb_active = 0, pb_locked = False, pb_cyclic = 0, pb_overruns = 0\<rparr>),
       lock_slots = map (\<lambda>i. \<lparr>sl_job = 5000 + 100 * i, sl_sem = 5060 + 100 * i, sl_bus = 0, sl_owner = 0\<rparr>) [0..<4],
       dma_owner = (\<lambda>_ _. 0),
       pbus_devs = replicate 8 \<lparr>pd_name = None, pd_bus = 0, pd_start = 0, pd_dev_start = 0, pd_ctx = 0, pd_addr = 0\<rparr>,
       pbus_handles = map (\<lambda>i. \<lparr>ph_dev = 0, ph_job = 6000 + 400 * i,
         ph_x = \<lparr>xf_addr = 0, xf_flags = 0, xf_tx_len = 0, xf_rx_len = 0\<rparr>, ph_tx = replicate 64 0,
         ph_rx = replicate 64 0, ph_done_buf = 6300 + 400 * i, ph_done = 0, ph_rc = 0, ph_used = False,
         ph_submitted = False, ph_orphan = False\<rparr>) [0..<4]\<rparr>\<rparr>"

abbreviation sample_tab :: "ops_id \<Rightarrow> seglist sys file_ops" where
  "sample_tab \<equiv> ops_tab seg_ops sample_cfg (\<lambda>_. no_ops)"

lemma upt_8: "[0..<8] = [0, 1, 2, 3, 4, 5, 6, 7 :: nat]"
  by code_simp

lemma sample_boot: "vf_boot sample_sys"
  by (auto simp: vf_boot_def sample_sys_def)

lemma sample_app: "app_frame (\<lambda>_. no_ops)"
  by (simp add: app_frame_def no_ops_def)

section \<open>References\<close>

text \<open>
  Claim C23. In every state the descriptor layer reaches, by opening, duplicating and closing
  descriptors in any tasks, with task switches in between and with tasks that start and end: the
  reference count of each named semaphore and mutex is the number of descriptors open for it, its
  slot is in use exactly while there is one, no descriptor points outside its table, and no name is
  in use twice.
\<close>

theorem named_refs_exact:
  assumes "vf_reach (ops_tab iops cfg app) s" "app_frame app"
  shows "(\<forall>i < length (sy_sems s). ns_refcount (sy_sems s ! i) = int (card (fd_refs (sy_fds s) Ipc_Sem_Ops (i + 1))) \<and>
      (ns_used (sy_sems s ! i) \<longleftrightarrow> fd_refs (sy_fds s) Ipc_Sem_Ops (i + 1) \<noteq> {})) \<and>
    (\<forall>i < length (sy_mtxs s). nm_refcount (sy_mtxs s ! i) = int (card (fd_refs (sy_fds s) Ipc_Mtx_Ops (i + 1))) \<and>
      (nm_used (sy_mtxs s ! i) \<longleftrightarrow> fd_refs (sy_fds s) Ipc_Mtx_Ops (i + 1) \<noteq> {})) \<and>
    (\<forall>t fd. fd < VAIOS_MAX_FDS \<longrightarrow>
      (fe_ops (sy_fds s t fd) = Some Ipc_Sem_Ops \<longrightarrow> fe_priv (sy_fds s t fd) \<in> {1..length (sy_sems s)}) \<and>
      (fe_ops (sy_fds s t fd) = Some Ipc_Mtx_Ops \<longrightarrow> fe_priv (sy_fds s t fd) \<in> {1..length (sy_mtxs s)})) \<and>
    inj_on (\<lambda>i. ns_name (sy_sems s ! i)) {i. i < length (sy_sems s) \<and> ns_used (sy_sems s ! i)} \<and>
    inj_on (\<lambda>i. nm_name (sy_mtxs s ! i)) {i. i < length (sy_mtxs s) \<and> nm_used (sy_mtxs s ! i)}"
proof -
  have R: "refs_ok s" using vf_reach_refs [OF assms(1) refl assms(2)] .
  have N: "named_ok Ipc_Sem_Ops (sy_fds s) (sem_counts s)" "named_ok Ipc_Mtx_Ops (sy_fds s) (mtx_counts s)"
    "names_ok (sem_names s)" "names_ok (mtx_names s)"
    using R by (auto simp: refs_ok_def)
  have c: "fd_refs (sy_fds s) Ipc_Sem_Ops (i + 1) \<noteq> {} \<longleftrightarrow> 0 < card (fd_refs (sy_fds s) Ipc_Sem_Ops (i + 1))"
    if "i < length (sy_sems s)" for i
    using N(1) that by (auto simp: named_ok_def sem_counts_def card_gt_0_iff)
  have d: "fd_refs (sy_fds s) Ipc_Mtx_Ops (i + 1) \<noteq> {} \<longleftrightarrow> 0 < card (fd_refs (sy_fds s) Ipc_Mtx_Ops (i + 1))"
    if "i < length (sy_mtxs s)" for i
    using N(2) that by (auto simp: named_ok_def mtx_counts_def card_gt_0_iff)
  have "inj_on (\<lambda>i. ns_name (sy_sems s ! i)) {i. i < length (sy_sems s) \<and> ns_used (sy_sems s ! i)}"
    using N(3) by (auto simp: names_ok_def sem_names_def inj_on_def)
  moreover have "inj_on (\<lambda>i. nm_name (sy_mtxs s ! i)) {i. i < length (sy_mtxs s) \<and> nm_used (sy_mtxs s ! i)}"
    using N(4) by (auto simp: names_ok_def mtx_names_def inj_on_def)
  ultimately show ?thesis
    using N(1,2) c d unfolding named_ok_def sem_counts_def mtx_counts_def
    by (simp add: Suc_le_eq)
qed

definition opened_sys :: "seglist sys" where
  "opened_sys = (case v_sem_open ''lock'' 1 sample_sys of Inr (_, s) \<Rightarrow> s | Inl _ \<Rightarrow> sample_sys)"

lemma opened_open: "v_sem_open ''lock'' 1 sample_sys = Inr (0, opened_sys)"
proof -
  have "\<exists>s. v_sem_open ''lock'' 1 sample_sys = Inr (0, s)"
    by (simp add: v_sem_open_def ipc_name_ok_def named_sem_find_def sem_create_def upd_named_sem_def v_fd_alloc_def
        sample_sys_def Let_def upt_8)
  then show ?thesis by (auto simp: opened_sys_def)
qed

lemma opened_fields:
  "ns_refcount (sy_sems opened_sys ! 0) = 1" "length (sy_sems opened_sys) = 8"
  using opened_open
  by (simp_all add: opened_sys_def v_sem_open_def ipc_name_ok_def named_sem_find_def sem_create_def upd_named_sem_def
      v_fd_alloc_def sample_sys_def Let_def upt_8 set_fd_def)

theorem named_refs_exact_witness:
  "ns_refcount (sy_sems opened_sys ! 0) = 1 \<and>
   ns_refcount (sy_sems opened_sys ! 0) = int (card (fd_refs (sy_fds opened_sys) Ipc_Sem_Ops (0 + 1))) \<and>
   (ns_used (sy_sems opened_sys ! 0) \<longleftrightarrow> fd_refs (sy_fds opened_sys) Ipc_Sem_Ops (0 + 1) \<noteq> {})"
proof -
  have "vf_reach sample_tab opened_sys"
    using vf_reach.sem_open [OF vf_reach.boot [OF sample_boot] opened_open] .
  from named_refs_exact [OF this sample_app] show ?thesis using opened_fields by simp
qed

section \<open>Device nodes\<close>

text \<open>
  Looking up a path gives the first registered node that claims it: a node with exactly that
  name, or a mount, whose name ends in a slash and is a proper prefix of the path; the rest of the path
  is what comes after the name.
\<close>

theorem dev_find_first:
  "dev_find path s = map_option (\<lambda>d. (d, drop (length (dn_name d)) path))
     (find (\<lambda>d. node_claims (dn_name d) path) (sy_nodes s))"
  by (simp add: dev_find_def dev_scan_find)

section \<open>Console output\<close>

text \<open>
  Claim C24. A write to the console while the writer task runs takes a prefix of the data and returns
  its length; less than all of it only when the queue has room for less than two bytes. Draining the
  queue ends, and what the hardware has then been given is what was queued before, then that prefix,
  with a carriage return in front of each lone line feed; nothing is lost, repeated or reordered.
  The data has no NUL, which the drain takes for the end of its chunk, and no task observes the
  console's semaphore through \<open>v_wait\<close>.
\<close>

theorem console_output_in_order:
  assumes "tx_wf (sy_con s)" "con_writer_seen (sy_con s)" "s_observers (semas (sy_k s) (con_tx_sem (sy_con s))) = None"
    "0 \<notin> set (tx_pending (sy_con s))" "0 \<notin> set buf"
  shows "\<exists>n s' c. console_write priv buf s = Inr (int n, s') \<and> n \<le> length buf \<and>
    (n < length buf \<longrightarrow> tx_room (sy_con s') < 2) \<and>
    console_drain 0 (sy_con s') = Some (length (tx_pending (sy_con s')), c) \<and> tx_pending c = [] \<and>
    concat (con_out c) = concat (con_out (sy_con s)) @ tx_pending (sy_con s) @ onlcr (con_last (sy_con s)) (take n buf)"
proof -
  obtain n c' where q: "console_queue buf (sy_con s) = (n, c')" by fastforce
  note a = console_queue_appends [OF assms(1) q]
  have "\<exists>k. console_write priv buf s = Inr (int n, s\<lparr>sy_con := c', sy_k := k\<rparr>)"
  proof (cases "n = 0")
    case True
    then show ?thesis using q assms(2) by (intro exI [of _ "sy_k s"]) (simp add: console_write_def)
  next
    case False
    obtain k where "give_and_pend (11, 0) (con_tx_sem c') (s\<lparr>sy_con := c'\<rparr>) = Inr (s\<lparr>sy_con := c', sy_k := k\<rparr>)"
      using give_and_pend_returns [of "s\<lparr>sy_con := c'\<rparr>" "con_tx_sem c'" "(11, 0)"] assms(3) a by auto
    then show ?thesis using q assms(2) False by (intro exI [of _ k]) (simp add: console_write_def)
  qed
  then obtain k where w: "console_write priv buf s = Inr (int n, s\<lparr>sy_con := c', sy_k := k\<rparr>)" by blast
  have z: "0 \<notin> set (onlcr l p)" if "0 \<notin> set p" for l p using that by (induction l p rule: onlcr.induct) auto
  have "0 \<notin> set (take n buf)" using assms(5) by (meson in_set_takeD)
  then have "0 \<notin> set (tx_pending c')" using a assms(4) z by simp
  moreover obtain c where "console_drain 0 c' = Some (length (tx_pending c'), c)" "tx_pending c = []"
    "0 \<notin> set (tx_pending c') \<longrightarrow> concat (con_out c) = concat (con_out c') @ tx_pending c'"
    using console_drain_all [of c' 0] a by auto
  ultimately show ?thesis using w a by (intro exI [of _ n] exI [of _ "s\<lparr>sy_con := c', sy_k := k\<rparr>"] exI [of _ c]) simp
qed

theorem console_output_in_order_witness:
  "\<exists>n s' c. console_write 0 [104, 10] sample_sys = Inr (int n, s') \<and> n \<le> 2 \<and> (n < 2 \<longrightarrow> tx_room (sy_con s') < 2) \<and>
    console_drain 0 (sy_con s') = Some (length (tx_pending (sy_con s')), c) \<and> tx_pending c = [] \<and>
    concat (con_out c) = onlcr 0 (take n [104, 10])"
proof -
  have c: "sy_con sample_sys = sample_con" "sy_k sample_sys = ipc_kernel" by (simp_all add: sample_sys_def)
  have p: "tx_wf sample_con" "tx_pending sample_con = []" "con_writer_seen sample_con" "con_out sample_con = []"
    "con_last sample_con = 0" "s_observers (semas ipc_kernel (con_tx_sem sample_con)) = None"
    by (simp_all add: sample_con_def tx_wf_def tx_pending_def tx_count_def ring_view_def ipc_defs)
  have "\<exists>n s' c. console_write 0 [104, 10] sample_sys = Inr (int n, s') \<and> n \<le> length [104, 10 :: u8] \<and>
      (n < length [104, 10 :: u8] \<longrightarrow> tx_room (sy_con s') < 2) \<and>
      console_drain 0 (sy_con s') = Some (length (tx_pending (sy_con s')), c) \<and> tx_pending c = [] \<and>
      concat (con_out c) = onlcr 0 (take n [104, 10])"
    using console_output_in_order [of sample_sys "[104, 10]" 0, unfolded c p] p by simp
  then show ?thesis by (simp add: numeral_2_eq_2)
qed

section \<open>The kernel log\<close>

text \<open>
  Claim C25. Whatever the log holds and wherever its 32-bit counters stand, reading after appending
  gives the oldest bytes of the last 1024 that were put in, in order, and leaves the rest for the next
  read; a full log drops its oldest bytes.
\<close>

theorem kmsg_append_read:
  assumes "kmsg_wf m"
  shows "\<exists>m'. v_kmsg_read len (v_kmsg_append bs m) =
      (int (min len (length (last_bytes 1024 (kmsg_contents m @ bs)))), take len (last_bytes 1024 (kmsg_contents m @ bs)), m') \<and>
    kmsg_wf m' \<and> kmsg_contents m' = drop len (last_bytes 1024 (kmsg_contents m @ bs))"
proof -
  note a = v_kmsg_append_contents [OF assms, of bs]
  obtain out m' where t: "kmsg_take len (v_kmsg_append bs m) = (out, m')" by fastforce
  from kmsg_take_contents [OF _ t] a show ?thesis by (auto simp: v_kmsg_read_def t)
qed

theorem kmsg_append_read_witness:
  "\<exists>m'. v_kmsg_read 2 (v_kmsg_append [1, 2, 3] \<lparr>kmsg_ring = replicate 1024 0, kmsg_head = 0xFFFFFFFF, kmsg_tail = 0xFFFFFFFF\<rparr>) =
      (2, [1, 2], m') \<and> kmsg_wf m' \<and> kmsg_contents m' = [3]"
proof -
  let ?m = "\<lparr>kmsg_ring = replicate 1024 0, kmsg_head = 0xFFFFFFFF, kmsg_tail = 0xFFFFFFFF\<rparr>"
  have "kmsg_wf ?m" "kmsg_contents ?m = []" by (simp_all add: kmsg_wf_def kmsg_contents_def ring_view_def)
  then show ?thesis using kmsg_append_read [of ?m 2 "[1, 2, 3]"] by (simp add: last_bytes_def)
qed

section \<open>Timeouts\<close>

text \<open>
  Claim C26. \<open>v_file_wait\<close> on an empty console parks the caller, and then its result is the one the
  semaphore delivers: \<open>1\<close> when data arrives and \<open>0\<close> when the time is up. Its documentation promises
  \<open>0\<close> for data and a negative number for a timeout; so a timeout is reported as data. (The \<open>-1\<close> that
  the system call itself returns is overwritten when the task resumes.)
\<close>

theorem file_wait_timeout_reports_ready:
  assumes I: "sched_inv (sy_k s) R B D" and c: "current_task (sy_k s) = c" "c \<noteq> 0" "status (sy_k s) c = TASK_RUNNING"
    "prio (sy_k s) c \<le> 7"
    and f: "fd_lookup fd s = Some (Console_Ops, p)" "con_tail (sy_con s) = con_head (sy_con s)" "con_rx_armed (sy_con s)"
    and a: "con_rx_sem (sy_con s) \<noteq> 0" "sem_ok (sy_k s) (con_rx_sem (sy_con s)) B (asem_of 0 [])"
    and n: "n \<noteq> 0" "n \<noteq> V_WAIT_FOREVER"
  shows "\<exists>s'. v_file_wait (ops_tab iops cfg app) fd n s = Inr (-1, s') \<and> pendsv (sy_k s') \<and>
    (\<forall>now h. delay_of (sy_k s') c \<noteq> 0 \<and> delay_of (sy_k s') c < now \<longrightarrow>
      (\<exists>w k'. eject_waiter now c (sy_k s') h = Some (w, k') \<and> t_has_syscall_result (tcbs k' c) \<and>
        t_syscall_result (tcbs k' c) = 0)) \<and>
    (\<exists>w k'. semaphore_give_common (con_rx_sem (sy_con s)) (Some False) (sy_k s') = Inr (VA_PASS, w, k') \<and>
        t_has_syscall_result (tcbs k' c) \<and> t_syscall_result (tcbs k' c) = 1)"
proof -
  let ?r = "con_rx_sem (sy_con s)" and ?k = "sy_k s"
  have z: "as_count (asem_of 0 []) = 0" by (simp add: asem_of_def)
  obtain k1 where k1: "semaphore_take_common ?r n ?k = Inr (V_SYSCALL_BLOCKED, k1)"
    "sem_ok k1 ?r (B @ [c]) ((asem_of 0 [])\<lparr>as_wait := prio_insert (prio ?k) c (as_wait (asem_of 0 []))\<rparr>)"
    "sched_inv k1 R (B @ [c]) D" "pendsv k1" "t_wait_sem (tcbs k1 c) = ?r" "\<forall>x. prio k1 x = prio ?k x"
    using semaphore_take_blocks [OF I a(2) z c(1-3) n(1) a(1)] by blast
  have s1: "sem_ok k1 ?r (B @ [c]) ((asem_of 0 [])\<lparr>as_wait := [c]\<rparr>)" using k1(2) by (simp add: asem_of_def prio_insert_def)
  let ?s' = "s\<lparr>sy_k := k1\<rparr>"
  have w: "v_file_wait (ops_tab iops cfg app) fd n s = Inr (-1, ?s')"
    using f a(1) k1(1) by (simp add: v_file_wait_def console_wait_def v_semaphore_take_def)
  have q: "s_wait_q (semas k1 ?r) = c" using s1 by (simp add: sem_ok_def wait_ok_def)
  have "\<exists>w k'. eject_waiter now c k1 h = Some (w, k') \<and> t_has_syscall_result (tcbs k' c) \<and> t_syscall_result (tcbs k' c) = 0"
    if "delay_of k1 c \<noteq> 0" "delay_of k1 c < now" for now h
    using eject_waiter_timeout [OF c(2) k1(5) a(1) _ that, of h] q by auto
  moreover have p1: "prio k1 c = prio ?k c" "prio ?k c \<le> 7" using k1(6) c(4) by simp_all
  have "\<exists>w k'. semaphore_give_common ?r (Some False) k1 = Inr (VA_PASS, w, k') \<and>
      t_has_syscall_result (tcbs k' c) \<and> t_syscall_result (tcbs k' c) = 1"
    using semaphore_give_handoff [OF k1(3) s1 _ p1, of "[]" "Some False"] by (auto simp: asem_of_def)
  ultimately show ?thesis using w k1(4) by (intro exI [of _ ?s']) simp
qed

definition console_sys :: "seglist sys" where
  "console_sys = sample_sys\<lparr>sy_fds := (\<lambda>_ _. FREE_FD)(16 := (\<lambda>_. FREE_FD)(0 := \<lparr>fe_ops = Some Console_Ops, fe_priv = 0\<rparr>))\<rparr>"

theorem file_wait_timeout_reports_ready_witness:
  "\<exists>s'. v_file_wait sample_tab 0 7 console_sys = Inr (-1, s') \<and> pendsv (sy_k s') \<and>
    (\<forall>now h. delay_of (sy_k s') 16 \<noteq> 0 \<and> delay_of (sy_k s') 16 < now \<longrightarrow>
      (\<exists>w k'. eject_waiter now 16 (sy_k s') h = Some (w, k') \<and> t_has_syscall_result (tcbs k' 16) \<and>
        t_syscall_result (tcbs k' 16) = 0)) \<and>
    (\<exists>w k'. semaphore_give_common 1020 (Some False) (sy_k s') = Inr (VA_PASS, w, k') \<and>
        t_has_syscall_result (tcbs k' 16) \<and> t_syscall_result (tcbs k' 16) = 1)"
proof -
  have c: "sy_k console_sys = ipc_kernel" "sy_con console_sys = sample_con" "con_rx_sem sample_con = 1020"
    by (simp_all add: console_sys_def sample_sys_def sample_con_def)
  have "sem_ok ipc_kernel 1020 [80, 96] (asem_of 0 [])" by (simp add: sem_ok_def wait_ok_def ipc_defs asem_of_def)
  moreover have "fd_lookup 0 console_sys = Some (Console_Ops, 0)"
    by (simp add: fd_lookup_def console_sys_def sample_sys_def)
  ultimately show ?thesis
    using file_wait_timeout_reports_ready [of console_sys ipc_ready "[80, 96]" "[]" 16 0 0 7 seg_ops sample_cfg "\<lambda>_. no_ops",
        unfolded c, OF ipc_inv]
    by (simp add: sample_con_def ipc_tcbs_def sample_tcb_def)
qed

text \<open>
  Claim C27. A take that times out leaves \<open>wait_sem\<close> set, and nothing on the way to a later \<open>v_wait\<close>
  clears it. A task takes an empty semaphore that nobody waits for, is parked, times out, runs again,
  waits on several descriptors, is parked and times out: then the tick treats it as the old take. The
  result it delivers is \<open>0\<close>, which \<open>v_wait\<close> returns as \<open>descriptor 0 is ready\<close>, without disarming; the
  task stays marked as waiting and its node stays in the list of observers. The steps are those of
  the code, with any number of context switches in between: \<open>semaphore_take_common\<close>, the tick's
  \<open>eject_waiter\<close>, \<open>v_wait_block_impl\<close>, and \<open>eject_waiter\<close> again.
\<close>

theorem wait_timeout_reports_ready:
  assumes c: "current_task (sy_k s) = t" "t \<noteq> 0" "a \<noteq> 0" "s_wait_q (semas (sy_k s) a) = 0"
    and n: "n0 \<noteq> V_WAIT_FOREVER" "n \<noteq> V_WAIT_FOREVER"
    and take: "semaphore_take_common a n0 (sy_k s) = Inr (V_SYSCALL_BLOCKED, k0)"
    and out: "context_switches ram m0 k0 = Inr k1" "delay_of k1 t < now1" "eject_waiter now1 t k1 h1 = Some (w1, k2)"
    and run: "context_switches ram m2 k2 = Inr k3" "current_task k3 = t"
    and wait: "v_wait_block_impl fds nfds n (s\<lparr>sy_k := k3\<rparr>) = Inr (V_SYSCALL_BLOCKED, s4)"
    and out': "context_switches ram m4 (sy_k s4) = Inr k5" "delay_of k5 t < now5"
  shows "\<exists>w k6. eject_waiter now5 t k5 h5 = Some (w, k6) \<and> t_has_syscall_result (tcbs k6 t) \<and>
    v_wait_return (t_syscall_result (tcbs k6 t)) (s4\<lparr>sy_k := k6\<rparr>) = Inr (0, s4\<lparr>sy_k := k6\<rparr>) \<and>
    t_in_multiwait (tcbs k6 t) \<and> 0 < t_narm (tcbs k6 t) \<and>
    (\<exists>b. s_observers (semas k6 b) = Some (t, t_narm (tcbs k6 t) - 1))"
proof -
  note p = take_parked [OF take c(4) n(1) c(1)]
  note s1 = context_switches_waits [OF out(1)] and s3 = context_switches_waits [OF run(1)]
    and s5 = context_switches_waits [OF out'(1)]
  have v1: "t_wait_sem (tcbs k1 t) = a" "t_wait_next (tcbs k1 t) = 0" "delay_of k1 t \<noteq> 0" "s_wait_q (semas k1 a) = t"
    using p by (simp_all add: waits_same_tcb [OF s1] waits_same_sema [OF s1])
  have v2: "t_wait_sem (tcbs k2 t) = a" "s_wait_q (semas k2 a) = 0"
    using eject_waiter_timeout [OF c(2) v1(1) c(3) _ v1(3) out(2), of h1] v1(2,4) out(3) by auto
  have v3: "t_wait_sem (tcbs k3 t) = a" "s_wait_q (semas k3 a) = 0"
    using v2 by (simp_all add: waits_same_tcb [OF s3] waits_same_sema [OF s3])
  note q = wait_parked [OF wait n(2), simplified, OF run(2)]
  have v5: "t_wait_sem (tcbs k5 t) = a" "s_wait_q (semas k5 a) = 0" "delay_of k5 t \<noteq> 0" "t_in_multiwait (tcbs k5 t)"
    "0 < t_narm (tcbs k5 t)" "\<exists>b. s_observers (semas k5 b) = Some (t, t_narm (tcbs k5 t) - 1)"
    using q v3 by (simp_all add: waits_same_tcb [OF s5] waits_same_sema [OF s5])
  obtain w k6 where e: "eject_waiter now5 t k5 h5 = Some (w, k6)" "t_syscall_result (tcbs k6 t) = VA_FAIL"
    "t_has_syscall_result (tcbs k6 t)" "t_in_multiwait (tcbs k6 t)" "t_narm (tcbs k6 t) = t_narm (tcbs k5 t)"
    "\<forall>x. s_observers (semas k6 x) = s_observers (semas k5 x)"
    using eject_waiter_timeout [OF c(2) v5(1) c(3) _ v5(3) out'(2), of h5] v5(2,4) by auto
  then show ?thesis using v5(5,6) by (intro exI [of _ w] exI [of _ k6]) (simp add: v_wait_return_def)
qed

text \<open>
  The witness runs all of it: the named semaphore that \<open>opened_sys\<close> has open as descriptor 0 is
  taken for 3 ticks and then waited on for 7, and task 32 runs while task 16 is parked.
\<close>

lemma opened_kernel: "sy_k opened_sys = sema_init 2000 0 1 ipc_kernel"
  "v_fd_obj 0 Ipc_Sem_Ops (opened_sys\<lparr>sy_k := k\<rparr>) = (if current_task k = 16 then 1 else 0)"
  "ns_sem (sy_sems opened_sys ! 0) = 2000"
  using opened_open
  by (simp_all add: opened_sys_def v_sem_open_def ipc_name_ok_def named_sem_find_def sem_create_def upd_named_sem_def
      v_fd_alloc_def sample_sys_def Let_def upt_8 set_fd_def v_fd_obj_def fd_lookup_def)

lemma opened_first_timeout:
  "\<exists>k0 k1 w1 k2 k3. semaphore_take_common 2000 3 (sy_k opened_sys) = Inr (V_SYSCALL_BLOCKED, k0) \<and>
     context_switches (\<lambda>_. True) 1 k0 = Inr k1 \<and> current_task k1 = 32 \<and>
     eject_waiter (Suc (delay_of k1 16)) 16 k1 False = Some (w1, k2) \<and>
     context_switches (\<lambda>_. True) 1 k2 = Inr k3 \<and> current_task k3 = 16 \<and> status k3 16 = TASK_RUNNING \<and>
     sched_inv k3 (ipc_ready(1 := [32], 3 := [])) [80, 96] [] \<and> s_count (semas k3 2000) = 0 \<and>
     (\<forall>x. stack_ok k3 x \<and> prio k3 x = prio ipc_kernel x)"
proof -
  let ?K = "sy_k opened_sys" and ?ram = "\<lambda>_ :: nat. True"
  have K: "current_task ?K = 16" "tcbs ?K = ipc_tcbs" "s_wait_q (semas ?K 2000) = 0" "s_count (semas ?K 2000) = 0"
    by (simp_all add: opened_kernel(1) sema_init_def s32_def)
  have T: "status ?K 16 = TASK_RUNNING" "prio ?K x \<le> 3" "prio ?K 16 = 3" "prio ?K 32 = 1" "stack_ok ?K x" for x
    by (simp_all add: K ipc_tcbs_def sample_tcb_def stack_ok_def)
  have I: "sched_inv ?K ipc_ready [80, 96] []"
    by (rule sched_inv_frame [OF ipc_inv]) (simp_all add: opened_kernel(1) sema_init_def)
  have A: "sem_ok ?K 2000 [80, 96] (asem_of 0 [])"
    by (simp add: sem_ok_def wait_ok_def opened_kernel(1) sema_init_def asem_of_def s32_def)
  have z: "as_count (asem_of 0 []) = 0" by (simp add: asem_of_def)
  obtain k0 where k0: "semaphore_take_common 2000 3 ?K = Inr (V_SYSCALL_BLOCKED, k0)"
    "sched_inv k0 ipc_ready ([80, 96] @ [16]) []" "\<forall>x. prio k0 x = prio ?K x"
    using semaphore_take_blocks [OF I A z K(1) _ T(1), of 3] by auto
  note p = take_parked [OF k0(1) K(3) _ K(1), simplified]
  have st0: "status k0 16 \<noteq> TASK_RUNNING" using sched_inv_status(2) [OF k0(2), of 16] by auto
  have so0: "stack_ok k0 x" for x using p(8,9) T(5) by (simp add: stack_ok_def)
  have rw0: "ready_with k0 ipc_ready = ipc_ready" using st0 p(10) by (simp add: ready_with_def Let_def)
  obtain k1 where k1: "context_switches ?ram 1 k0 = Inr k1" "current_task k1 = 32" "status k1 32 = TASK_RUNNING"
    "sched_inv k1 (ipc_ready(1 := [])) [80, 96, 16] []" "waits_same k0 k1"
    using switch_once [OF k0(2), of 1 32 "[]" ?ram] p(10) k0(3) T(3) so0 rw0 by (auto simp: ipc_ready_def)
  note f1 = waits_same_tcb [OF k1(5)] waits_same_sema [OF k1(5)]
  let ?R1 = "ipc_ready(1 := [])"
  have v1: "t_wait_sem (tcbs k1 16) = 2000" "s_wait_q (semas k1 2000) = 16" "0 < delay_of k1 16" "prio k1 16 = 3"
    "s_count (semas k1 2000) = 0"
    using p k0(3) T(3) K(4) by (simp_all add: f1)
  obtain w1 k2 where k2: "eject_waiter (Suc (delay_of k1 16)) 16 k1 False = Some (w1, k2)"
    "s_count (semas k2 2000) = 0"
    using eject_waiter_timeout [of 16 k1 2000 "Suc (delay_of k1 16)" False] v1 by auto
  have h1: "16 \<in> set [80, 96, 16 :: nat]" "(3 :: nat) \<le> 7" "t_wait_sem (tcbs k1 16) \<noteq> 0"
    "s_wait_q (semas k1 (t_wait_sem (tcbs k1 16))) \<in> {0, 16}" "delay_of k1 16 \<noteq> 0" by (use v1 in simp_all)
  note g2 = eject_waiter_lists [OF k1(4) h1(1) v1(4) h1(2) k2(1) h1(3-5) lessI]
  have so2: "stack_ok k2 x" for x using g2(3,4) so0 by (simp add: stack_ok_def f1)
  have pr2: "prio k2 x = prio ?K x" for x using g2(5) k0(3) by (simp add: f1)
  let ?R2 = "?R1(3 := [16])"
  have I2: "sched_inv k2 ?R2 [80, 96] []" using g2(1) by (simp add: ipc_ready_def)
  have c2: "current_task k2 = 32" "status k2 32 = TASK_RUNNING" using g2(2) g2(6) [of 32] k1(2,3) by simp_all
  have rw2: "ready_with k2 ?R2 = ?R2(1 := [32])"
    using c2 pr2 T(4) by (simp add: ready_with_def Let_def)
  obtain k3 where k3: "context_switches ?ram 1 k2 = Inr k3" "current_task k3 = 16" "status k3 16 = TASK_RUNNING"
    "sched_inv k3 (?R2(1 := [32], 3 := [])) [80, 96] []" "waits_same k2 k3"
    using switch_once [OF I2, of 3 16 "[]" ?ram] c2(1) pr2 T(4) so2 rw2 by (auto simp: ipc_ready_def)
  note f3 = waits_same_tcb [OF k3(5)] waits_same_sema [OF k3(5)]
  have e: "(?R2(1 := [32], 3 := [])) = ipc_ready(1 := [32], 3 := [])" by (simp add: fun_eq_iff)
  have "s_count (semas k3 2000) = 0" "\<forall>x. stack_ok k3 x \<and> prio k3 x = prio ipc_kernel x"
    using k2(2) so2 pr2 K(2) by (simp_all add: f3 stack_ok_def)
  then show ?thesis using k0(1) k1(1,2) k2(1) k3(1-4) [unfolded e] by blast
qed

theorem wait_timeout_reports_ready_witness:
  "\<exists>k0 k1 w1 k2 k3 s4 k5 now5 w k6. semaphore_take_common 2000 3 (sy_k opened_sys) = Inr (V_SYSCALL_BLOCKED, k0) \<and>
     context_switches (\<lambda>_. True) 1 k0 = Inr k1 \<and> current_task k1 = 32 \<and>
     eject_waiter (Suc (delay_of k1 16)) 16 k1 False = Some (w1, k2) \<and>
     context_switches (\<lambda>_. True) 1 k2 = Inr k3 \<and> current_task k3 = 16 \<and>
     v_wait_block_impl [0] 1 7 (opened_sys\<lparr>sy_k := k3\<rparr>) = Inr (V_SYSCALL_BLOCKED, s4) \<and>
     context_switches (\<lambda>_. True) 1 (sy_k s4) = Inr k5 \<and> current_task k5 = 32 \<and>
     eject_waiter now5 16 k5 False = Some (w, k6) \<and> t_has_syscall_result (tcbs k6 16) \<and>
     v_wait_return (t_syscall_result (tcbs k6 16)) (s4\<lparr>sy_k := k6\<rparr>) = Inr (0, s4\<lparr>sy_k := k6\<rparr>) \<and>
     t_in_multiwait (tcbs k6 16) \<and> 0 < t_narm (tcbs k6 16) \<and>
     (\<exists>b. s_observers (semas k6 b) = Some (16, t_narm (tcbs k6 16) - 1))"
proof -
  let ?K = "sy_k opened_sys" and ?ram = "\<lambda>_ :: nat. True" and ?R = "ipc_ready(1 := [32], 3 := [])"
  have K: "current_task ?K = 16" "s_wait_q (semas ?K 2000) = 0"
    by (simp_all add: opened_kernel(1) sema_init_def)
  obtain k0 k1 w1 k2 k3 where k0: "semaphore_take_common 2000 3 ?K = Inr (V_SYSCALL_BLOCKED, k0)"
    and k1: "context_switches ?ram 1 k0 = Inr k1" "current_task k1 = 32"
    and k2: "eject_waiter (Suc (delay_of k1 16)) 16 k1 False = Some (w1, k2)"
    and k3: "context_switches ?ram 1 k2 = Inr k3" "current_task k3 = 16" "status k3 16 = TASK_RUNNING"
      "sched_inv k3 ?R [80, 96] []" "s_count (semas k3 2000) = 0" "\<forall>x. stack_ok k3 x \<and> prio k3 x = prio ipc_kernel x"
    using opened_first_timeout by blast
  let ?s = "opened_sys\<lparr>sy_k := k3\<rparr>"
  have kk: "sched_inv (sy_k ?s) ?R [80, 96] []" "current_task (sy_k ?s) = 16"
    "status (sy_k ?s) 16 = TASK_RUNNING" using k3 by simp_all
  have o: "v_fd_obj 0 Ipc_Sem_Ops ?s = 1" using opened_kernel(2) k3(2) by simp
  have r: "wait_ready 0 (take (nat 1) [0]) ?s = None" using k3(5) by (simp add: o opened_kernel(3) Let_def)
  obtain kn s1 where arm: "wait_arm 0 0 (take (nat 1) [0]) ?s = (kn, s1)" "kn \<noteq> 0"
    by (simp add: o Let_def)
  obtain s4 where s4: "v_wait_block_impl [0] 1 7 ?s = Inr (V_SYSCALL_BLOCKED, s4)"
    "sched_inv (sy_k s4) ?R ([80, 96] @ [16]) []" "current_task (sy_k s4) = 16"
    "\<forall>x. stack_ok (sy_k s4) x = stack_ok k3 x \<and> prio (sy_k s4) x = prio k3 x"
    using wait_block_parks [OF kk(1,2) _ kk(3) _ _ _ r arm, of 7] by auto
  have so4: "stack_ok (sy_k s4) x" "prio (sy_k s4) 16 = 3" for x
    using s4(4) k3(6) by (simp_all add: ipc_tcbs_def sample_tcb_def)
  have rw4: "ready_with (sy_k s4) ?R = ?R"
    using sched_inv_status(2) [OF s4(2), of 16] s4(3) by (auto simp: ready_with_def Let_def)
  obtain k5 where k5: "context_switches ?ram 1 (sy_k s4) = Inr k5" "current_task k5 = 32"
    using switch_once [OF s4(2), of 1 32 "[]" ?ram] s4(3) so4 rw4 by (auto simp: ipc_ready_def)
  obtain w k6 where k6: "eject_waiter (Suc (delay_of k5 16)) 16 k5 False = Some (w, k6)" "t_has_syscall_result (tcbs k6 16)"
     "v_wait_return (t_syscall_result (tcbs k6 16)) (s4\<lparr>sy_k := k6\<rparr>) = Inr (0, s4\<lparr>sy_k := k6\<rparr>)"
     "t_in_multiwait (tcbs k6 16)" "0 < t_narm (tcbs k6 16)"
     "\<exists>b. s_observers (semas k6 b) = Some (16, t_narm (tcbs k6 16) - 1)"
    using wait_timeout_reports_ready [OF K(1) _ _ K(2) _ _ k0 k1(1) lessI k2 k3(1,2) s4(1) k5(1) lessI, of False]
    by auto
  show ?thesis
    using k0 k1 k2 k3(1,2) s4(1) k5 k6 by blast
qed

section \<open>Closing a mutex that is held\<close>

lemma mtx_free_slot_first:
  "i < length xs \<Longrightarrow> \<not> nm_used (xs ! i) \<Longrightarrow> (\<forall>j < i. nm_used (xs ! j)) \<Longrightarrow> mtx_free_slot n xs = n + i + 1"
proof (induction n xs arbitrary: i rule: mtx_free_slot.induct)
  case (2 n x xs)
  show ?case
  proof (cases i)
    case 0
    then show ?thesis using "2.prems" by simp
  next
    case (Suc m)
    then have "nm_used x" "\<forall>j < m. nm_used (xs ! j)" using "2.prems"(3) by force+
    then show ?thesis using "2.IH" [of m] "2.prems" Suc by simp
  qed
qed simp

text \<open>
  Claim C28. Closing the last descriptor of a named mutex frees its slot even while the closing task
  holds the mutex. The next creation of another name that takes the slot makes it a free mutex again,
  which anyone can lock, while the first task still has it on its list of held mutexes.
\<close>

theorem mtx_close_frees_held:
  assumes f: "fd_lookup fd s = Some (Ipc_Mtx_Ops, i + 1)" "i < length (sy_mtxs s)" "nm_mtx (sy_mtxs s ! i) = m"
    "nm_refcount (sy_mtxs s ! i) = 1" "nm_used (sy_mtxs s ! i)" "\<forall>j < i. nm_used (sy_mtxs s ! j)"
    and o: "owner (sy_k s) m = current_task (sy_k s)" "held (sy_k s) (current_task (sy_k s)) = m"
  shows "\<exists>s1. v_file_close (ops_tab iops cfg app) fd s = Inr (0, s1) \<and> sy_k s1 = sy_k s \<and>
    \<not> nm_used (sy_mtxs s1 ! i) \<and>
    (\<forall>name. ipc_name_ok name \<and> named_mtx_find name s1 = 0 \<longrightarrow>
      (\<exists>fd' s2. v_mtx_open name V_IPC_CREATE s1 = Inr (fd', s2) \<and> owner (sy_k s2) m = 0 \<and>
        s_count (semas (sy_k s2) m) = 1 \<and> held (sy_k s2) (current_task (sy_k s)) = m))"
proof -
  let ?t = "current_task (sy_k s)"
  let ?s0 = "upd_named_mtx (i + 1) (\<lambda>x. x\<lparr>nm_refcount := 0, nm_used := False\<rparr>) s"
  let ?s1 = "set_fd ?t (nat fd) FREE_FD ?s0"
  have "ipc_mtx_close (i + 1) s = Inr (0, ?s0)" using f by (simp add: ipc_mtx_close_def upd_named_mtx_def)
  then have c: "v_file_close (ops_tab iops cfg app) fd s = Inr (0, ?s1)" using f(1) by (simp add: v_file_close_def)
  have u: "\<not> nm_used (sy_mtxs ?s1 ! i)" "nm_mtx (sy_mtxs ?s1 ! i) = m" "i < length (sy_mtxs ?s1)"
    "\<forall>j < i. nm_used (sy_mtxs ?s1 ! j)"
    using f by simp_all
  have "mtx_free_slot 0 (sy_mtxs ?s1) = i + 1" using mtx_free_slot_first [OF u(3,1,4)] by simp
  then have cr: "\<exists>s2. mtx_create name V_IPC_CREATE ?s1 = (i + 1, s2) \<and> owner (sy_k s2) m = 0 \<and>
      s_count (semas (sy_k s2) m) = 1 \<and> held (sy_k s2) ?t = m" for name
    using u o(2) by (simp add: mtx_create_def Let_def sema_init_def upd_named_mtx_def s32_id)
  have "\<exists>fd' s2. v_mtx_open name V_IPC_CREATE ?s1 = Inr (fd', s2) \<and> owner (sy_k s2) m = 0 \<and>
      s_count (semas (sy_k s2) m) = 1 \<and> held (sy_k s2) ?t = m"
    if n: "ipc_name_ok name" "named_mtx_find name ?s1 = 0" for name
  proof -
    obtain s2 where s2: "mtx_create name V_IPC_CREATE ?s1 = (i + 1, s2)" "owner (sy_k s2) m = 0"
      "s_count (semas (sy_k s2) m) = 1" "held (sy_k s2) ?t = m" using cr by blast
    let ?s3 = "upd_named_mtx (i + 1) (\<lambda>x. x\<lparr>nm_refcount := nm_refcount x + 1\<rparr>) s2"
    show ?thesis
      by (cases rule: v_fd_alloc_cases [of Ipc_Mtx_Ops "i + 1" ?s3])
        (use n s2 in \<open>simp_all add: v_mtx_open_def Let_def ipc_mtx_close_def\<close>)
  qed
  then show ?thesis using c u(1) by (intro exI [of _ ?s1]) simp
qed

definition held_sys :: "seglist sys" where
  "held_sys = sample_sys
     \<lparr>sy_k := upd_rmutex 3000 (\<lambda>m. m\<lparr>m_owner := 16, m_recursion_count := 1\<rparr>)
                (upd_tcb 16 (\<lambda>t. t\<lparr>t_held_mutexes := 3000\<rparr>) ipc_kernel),
      sy_fds := (\<lambda>_ _. FREE_FD)(16 := (\<lambda>_. FREE_FD)(3 := \<lparr>fe_ops = Some Ipc_Mtx_Ops, fe_priv = 1\<rparr>)),
      sy_mtxs := (sy_mtxs sample_sys)[0 := \<lparr>nm_name = ''bus'', nm_mtx = 3000, nm_refcount = 1, nm_used = True\<rparr>]\<rparr>"

theorem mtx_close_frees_held_witness:
  "\<exists>s1. v_file_close sample_tab 3 held_sys = Inr (0, s1) \<and> sy_k s1 = sy_k held_sys \<and> \<not> nm_used (sy_mtxs s1 ! 0) \<and>
    (\<forall>name. ipc_name_ok name \<and> named_mtx_find name s1 = 0 \<longrightarrow>
      (\<exists>fd' s2. v_mtx_open name V_IPC_CREATE s1 = Inr (fd', s2) \<and> owner (sy_k s2) 3000 = 0 \<and>
        s_count (semas (sy_k s2) 3000) = 1 \<and> held (sy_k s2) 16 = 3000))"
proof -
  have "fd_lookup 3 held_sys = Some (Ipc_Mtx_Ops, 0 + 1)" by (simp add: fd_lookup_def held_sys_def)
  moreover have "current_task (sy_k held_sys) = 16" by (simp add: held_sys_def)
  ultimately show ?thesis
    using mtx_close_frees_held [of 3 held_sys 0 3000 seg_ops sample_cfg "\<lambda>_. no_ops"]
    by (simp add: held_sys_def sample_sys_def)
qed

end
