(* ===== verification/Text_Properties.thy ===== *)
theory Text_Properties
  imports Log_Lines Vfile_Properties
begin

text \<open>Properties of the formatters, of task printing and of the kernel log.\<close>

section \<open>Sample data\<close>

text \<open>A stand-in for the floating-point run-time: sign and magnitude integers.\<close>

definition sample_dbl :: dbl_ops where
  "sample_dbl = \<lparr>d_neg = (\<lambda>v. bit v 63), d_uminus = (\<lambda>v. v XOR push_bit 63 1), d_to_ll = (\<lambda>v. take_bit 63 v),
     d_to_int = (\<lambda>v. ucast (take_bit 31 v)), d_of_int = (\<lambda>i. of_int i), d_minus = (\<lambda>a b. a - b), d_times10 = (\<lambda>v. 10 * v)\<rparr>"

section \<open>Formatting\<close>

text \<open>
  Claim C32. Both kernel formatters print the text of the format. Into a buffer of \<open>n\<close> bytes goes
  the longest prefix that leaves room for the terminator, whatever the format and the arguments never
  more than that; to the console the whole text goes, in order, in non-empty strings of at most 127 characters.
\<close>

theorem formatters_print_text:
  assumes "fmt_text d fmt args None = Inr t" "0 < n" "CHR 0x00 \<notin> set t"
  shows "vaprint_fmt_buf d n fmt args = Inr (take (n - 1) t) \<and>
    (\<exists>ts. vaprint_fmt d fmt args = Inr ts \<and> concat ts = t \<and> (\<forall>s \<in> set ts. s \<noteq> [] \<and> length s \<le> 127)) \<and>
    (\<forall>fmt' args' s. vaprint_fmt_buf d n fmt' args' = Inr s \<longrightarrow> length s < n)"
proof (intro conjI allI impI)
  show "vaprint_fmt_buf d n fmt args = Inr (take (n - 1) t)"
    using fmt_buf_loop_take [OF assms(1), of "[]" "n - 1"] assms(2) by (simp add: vaprint_fmt_buf_def)
  obtain q where q: "fmt_loop d fmt args None ([], []) = Inr q" "outq_ok q" "outq_text q = t"
    using fmt_loop_text [OF assms(1) _ assms(3), of "([], [])"] by (auto simp: outq_ok_def outq_text_def)
  then show "\<exists>ts. vaprint_fmt d fmt args = Inr ts \<and> concat ts = t \<and> (\<forall>s \<in> set ts. s \<noteq> [] \<and> length s \<le> 127)"
    using flush_out_ok [OF q(2)] by (auto simp: vaprint_fmt_def outq_ok_def outq_text_def)
  show "length s < n" if "vaprint_fmt_buf d n fmt' args' = Inr s" for fmt' args' s
    using that assms(2) fmt_buf_loop_length [of d "n - 1" fmt' args' None "[]" s] by (auto simp: vaprint_fmt_buf_def)
qed

theorem formatters_print_text_witness:
  "vaprint_fmt_buf sample_dbl 8 ''v=%03x, %s'' [V32 0x1F, VStr (Some ''ok'')] = Inr ''v=01f, ''"
proof -
  have "utoa_simple 31 16 = Inr ''1f''"
    by (simp add: utoa_simple_def utoa_loop.simps reverse_def swap_chars_def digit_char_def char_of_def bit_Suc_0_iff)
  then have "fmt_text sample_dbl ''v=%03x, %s'' [V32 0x1F, VStr (Some ''ok'')] None = Inr ''v=01f, ok''"
    by (simp add: conversion_def read_spec_def is_digit_def num_arm_def padded_def)
  then show ?thesis using formatters_print_text [of sample_dbl "''v=%03x, %s''" _ "''v=01f, ok''" 8] by simp
qed

text \<open>
  Claim C33. \<open>%d\<close> into a buffer of at least 12 bytes prints every 32-bit value in full: read back as a
  decimal number the text is the value, and it takes at most 11 characters.
\<close>

theorem print_decimal_roundtrip:
  assumes "12 \<le> n"
  shows "\<exists>s. vaprint_fmt_buf d n ''%d'' [V32 w] = Inr s \<and> decimal_val s = sint w \<and> length s \<le> 11"
proof -
  have b: "- (2 ^ 31) \<le> sint w" "sint w < 2 ^ 31" using sint_ge [of w] sint_lt [of w] by simp_all
  then have "\<bar>sint w\<bar> < 2 ^ 63" by (simp add: abs_less_iff)
  then obtain s where s: "itoa_simple (sint w) 10 = Inr s" "decimal_val s = sint w"
      "\<And>k. \<bar>sint w\<bar> < 10 ^ Suc k \<Longrightarrow> length s \<le> Suc (Suc k)"
    by (rule itoa_simple_value) simp_all
  have "length s \<le> 11" using s(3) [of 9] b by (simp add: abs_less_iff)
  moreover have "fmt_text d ''%d'' [V32 w] None = Inr s"
    using s(1) by (simp add: conversion_def read_spec_def is_digit_def num_arm_def padded_def)
  then have "vaprint_fmt_buf d n ''%d'' [V32 w] = Inr (take (n - 1) s)"
    using fmt_buf_loop_take [of d "''%d''" "[V32 w]" None s "[]" "n - 1"] assms by (simp add: vaprint_fmt_buf_def)
  ultimately show ?thesis using s(2) assms by auto
qed

theorem print_decimal_roundtrip_witness:
  "\<exists>s. vaprint_fmt_buf sample_dbl 12 ''%d'' [V32 0x80000000] = Inr s \<and> decimal_val s = - 2147483648 \<and> length s \<le> 11"
  using print_decimal_roundtrip [of 12 sample_dbl "0x80000000"] by simp

text \<open>
  A format that ends inside a conversion, behind a width, makes both formatters read past its
  terminator; the check for a trailing \<open>%\<close> does not see it.
\<close>

theorem width_at_end_undefined:
  assumes "1 < n" "is_digit c" "c \<noteq> CHR ''0''"
  shows "vaprint_fmt_buf d n [CHR ''%'', c] args = Inl K_Undef \<and> vaprint_fmt d [CHR ''%'', c] args = Inl K_Undef"
proof -
  have "of_char c \<le> (57 :: nat)" using assms(2) by (simp add: is_digit_def less_eq_char_def)
  then have "\<not> of_char c - 48 > (2147483647 :: nat)" by simp
  then have "read_spec [c] = Inr (False, of_char c - 48, None, [])"
    using assms(2,3) by (simp add: read_spec_def Let_def)
  then have "conversion d [c] args None = Inl K_Undef" by (simp add: conversion_def)
  then show ?thesis using assms(1) by (simp add: vaprint_fmt_buf_def vaprint_fmt_def)
qed

theorem width_at_end_undefined_witness:
  "vaprint_fmt_buf sample_dbl 8 ''%5'' [V32 7] = Inl K_Undef \<and> vaprint_fmt sample_dbl ''%5'' [V32 7] = Inl K_Undef"
  using width_at_end_undefined [of 8 "CHR ''5''" sample_dbl "[V32 7]"] by (simp add: is_digit_def)

text \<open>
  \<open>%lx\<close> takes no argument and prints what the conversion before it left in the local buffer:
  after \<open>%u\<close> the same number again, in decimal. As the first conversion it reads the uninitialised buffer.
\<close>

theorem long_hex_prints_stale:
  "(\<exists>s. utoa_simple (unat a) 10 = Inr s \<and> vaprint_fmt_buf d 48 ''%u%lx'' (V32 a # args) = Inr (s @ s)) \<and>
   vaprint_fmt_buf d 48 ''%lx'' args = Inl K_Undef"
proof
  obtain s where s: "utoa_simple (unat a) 10 = Inr s" "\<And>k. unat a < 10 ^ Suc k \<Longrightarrow> length s \<le> Suc k"
    by (rule utoa_simple_value [of 10 "unat a"]) simp_all
  have "unat a < 2 ^ 32" by (rule order_less_le_trans [OF unsigned_less]) simp
  then have l: "length s \<le> 10" using s(2) [of 9] by simp
  have "fmt_text d ''%u%lx'' (V32 a # args) None = Inr (s @ s)"
    using s(1) by (simp add: conversion_def read_spec_def is_digit_def num_arm_def long_arm_def padded_def)
  then have "vaprint_fmt_buf d 48 ''%u%lx'' (V32 a # args) = Inr (s @ s)"
    using fmt_buf_loop_take [of d "''%u%lx''" "V32 a # args" None "s @ s" "[]" 47] l by (simp add: vaprint_fmt_buf_def)
  then show "\<exists>s. utoa_simple (unat a) 10 = Inr s \<and> vaprint_fmt_buf d 48 ''%u%lx'' (V32 a # args) = Inr (s @ s)"
    using s(1) by blast
  show "vaprint_fmt_buf d 48 ''%lx'' args = Inl K_Undef"
    by (simp add: vaprint_fmt_buf_def conversion_def read_spec_def is_digit_def long_arm_def)
qed

section \<open>The module filter\<close>

text \<open>
  Claim C34. A message is let through exactly when it has no tag, or when its tag is not empty and the
  configured list is \<open>ALL\<close> or has the tag, cut to 31 characters, among its comma-separated names.
\<close>

theorem module_allowed_iff:
  "module_allowed allowed (Some msg) \<longleftrightarrow>
     (case msg of
        CHR ''['' # t \<Rightarrow>
          let m = take 31 (takeWhile (\<lambda>c. c \<noteq> CHR '']'') t)
          in m \<noteq> [] \<and> (allowed = ''ALL'' \<or> m \<in> set (split_commas allowed))
      | _ \<Rightarrow> True)"
proof -
  have "module_scan m allowed 0 allowed \<longleftrightarrow> m \<in> set (split_commas allowed)" for m
    using module_scan_iff [of m "[]" allowed] by simp
  then have scan: "module_scan m allowed 0 allowed = (m \<in> set (split_commas allowed))" for m by simp
  show ?thesis
  proof (cases msg)
    case (Cons c t)
    show ?thesis
    proof (cases "c = CHR ''[''")
      case True
      then show ?thesis using Cons by (simp add: module_allowed_def module_tag_take string_equal_eq scan Let_def)
    next
      case False
      then show ?thesis using Cons
        by (auto simp: module_allowed_def split: char.splits bool.splits)
    qed
  qed (simp add: module_allowed_def)
qed

section \<open>Printing from a task\<close>

text \<open>
  Claim C35. With the console behind descriptor 1 and a writer task that gets its turn while the
  printer sleeps, \<open>v_printf\<close> ends, returns the length of its text, and the console has then taken
  exactly that text, of whatever length, with a carriage return in front of each lone line feed.
\<close>

theorem v_printf_delivers:
  assumes "pf_text d fmt args = Inr t" "CHR 0x00 \<notin> set t" "con_ready 1 s"
    and "\<And>s. con_ready 1 s \<Longrightarrow> con_taken 1 s [] (rest s) \<and> tx_pending (sy_con (rest s)) = []"
  shows "\<exists>s'. v_printf (ops_tab iops cfg app) rest d fmt args s = Inr (length t, s') \<and>
    con_sent s' = con_sent s @ onlcr (con_last (sy_con s)) (bytes_of t)"
proof -
  have "byte_sink (ops_tab iops cfg app) rest 1 (con_ready 1) (con_taken 1) con_stall"
    using assms(4) by (intro console_sink) simp_all
  from byte_sink.printf_fd_delivers [OF this assms(1-3)] show ?thesis
    by (auto simp: v_printf_def con_taken_def)
qed

text \<open>The sample system with the console open as descriptor 1 of its running task.\<close>

definition printing_sys :: "seglist sys" where
  "printing_sys = sample_sys\<lparr>sy_fds := (\<lambda>_ fd. if fd = 1 then \<lparr>fe_ops = Some Console_Ops, fe_priv = 0\<rparr> else FREE_FD)\<rparr>"

lemma sample_con_empty: "tx_wf sample_con" "tx_pending sample_con = []"
  by (simp_all add: sample_con_def tx_wf_def tx_pending_def tx_count_def ring_view_def)

lemma printing_ready: "con_ready 1 printing_sys"
proof -
  have "sy_con printing_sys = sample_con" by (simp add: printing_sys_def sample_sys_def)
  moreover have "s_observers (semas (sy_k printing_sys) (con_tx_sem sample_con)) = None"
    by (simp add: printing_sys_def sample_sys_def sample_con_def ipc_defs)
  moreover have "fd_lookup 1 printing_sys = Some (Console_Ops, 0)" by (simp add: printing_sys_def fd_lookup_def)
  ultimately show ?thesis using sample_con_empty by (simp add: con_ready_def) (simp add: sample_con_def)
qed

theorem v_printf_delivers_witness:
  "\<exists>s'. v_printf sample_tab writer_turn sample_dbl ''%s: up%'' [VStr (Some ''net'')] printing_sys = Inr (7, s') \<and>
    con_sent s' = onlcr 0 (bytes_of ''net: up'')"
proof -
  have t: "pf_text sample_dbl ''%s: up%'' [VStr (Some ''net'')] = Inr ''net: up''"
    by (simp add: pf_conv_def is_digit_def numeral_eq_Suc)
  have "con_sent printing_sys = []" "con_last (sy_con printing_sys) = 0"
    using sample_con_empty by (simp_all add: con_sent_def printing_sys_def sample_sys_def) (simp_all add: sample_con_def)
  then show ?thesis
    using v_printf_delivers [OF t _ printing_ready writer_turn_drains, of seg_ops sample_cfg "\<lambda>_. no_ops"]
    by (simp add: numeral_eq_Suc)
qed

section \<open>The kernel log\<close>

text \<open>
  Claim C36. A message at or above the level and of an allowed module is added to the log as one line:
  colour, level and tick count, the text cut to 95 characters with a \<open>~\<close> behind it when it fills them,
  and CR LF. Nothing logged before is lost or moved, whatever the two buffers hold and whether a
  transfer is running. Only a caller that may not wait, and only without room for the longest message, loses it.
  This is for a console whose transfers end by themselves, each after at most as many turns as the
  waiting loop has (1000 ticks in a task, 10000000 spins before the scheduler runs); when the loop's guard
  runs out first the code drops the lock and the waiting text, which is not part of this claim. The
  message has no NUL in it and formats without an error.
\<close>

theorem v_log_appends_line:
  assumes "log_ok s" "settles m rest" "\<not> log_stack_low psp (sy_k (ls_sys s))" "ls_level s \<le> ty"
    "module_allowed allowed (Some msg)" "ticks (sy_k (ls_sys s)) < 2 ^ 32"
    "fmt_text d msg args None = Inr t" "CHR 0x00 \<notin> set t"
    and guard: "m \<le> (if scheduler_running (sy_k (ls_sys s)) \<and> \<not> in_isr then 1000 else 10000000)"
  shows "\<exists>ts pre s'. digits_val 10 ts = ticks (sy_k (ls_sys s)) \<and>
    pre = log_color ty @ ''['' @ log_name ty @ '' '' @ ts @ '']'' @ CHR 0x1B # ''[0m '' \<and>
    v_log dma rest d allowed psp nested in_isr ty msg args s = Inr s' \<and>
    (if (nested \<or> in_isr) \<and> ls_head s + length pre + 100 > 256 then s' = s
     else log_ok s' \<and> log_stream s' = log_stream s @ line_bytes pre (take 95 t))"
proof -
  obtain ts where ts: "log_prefix ty (ticks (sy_k (ls_sys s))) =
      Inr (log_color ty @ ''['' @ log_name ty @ '' '' @ ts @ '']'' @ CHR 0x1B # ''[0m '')"
      "digits_val 10 ts = ticks (sy_k (ls_sys s))" "length ts \<le> 10" "CHR 0x00 \<notin> set ts"
    using log_prefix_fits [OF assms(6), of ty] by metis
  define pre where "pre = log_color ty @ ''['' @ log_name ty @ '' '' @ ts @ '']'' @ CHR 0x1B # ''[0m ''"
  have p: "log_prefix ty (ticks (sy_k (ls_sys s))) = Inr pre" using ts(1) by (simp add: pre_def)
  have lp: "length pre \<le> 47" "CHR 0x00 \<notin> set pre" using ts(3,4) by (simp_all add: pre_def log_color_def log_name_def)
  have f: "vaprint_fmt_buf d LOG_MSG_MAX_LEN msg args = Inr (take 95 t)"
    using fmt_buf_loop_take [OF assms(7), of "[]" 95] by (simp add: vaprint_fmt_buf_def)
  have z: "CHR 0x00 \<notin> set (pre @ take 95 t)" using lp(2) assms(8) by (auto dest: in_set_takeD)
  have log: "v_log dma rest d allowed psp nested in_isr ty msg args s =
      kbind (walk_end (log_room dma rest (nested \<or> in_isr) in_isr (length pre) s)) (\<lambda>r.
        case r of None \<Rightarrow> Inr s
        | Some s \<Rightarrow> (let s = log_line pre (take 95 t) s
            in Inr (if scheduler_running (sy_k (ls_sys s)) then s else v_log_flush dma s)))"
    using assms(3,4,5) p f by (simp add: v_log_def)
  have "\<exists>s'. v_log dma rest d allowed psp nested in_isr ty msg args s = Inr s' \<and>
    (if (nested \<or> in_isr) \<and> ls_head s + length pre + 100 > 256 then s' = s
     else log_ok s' \<and> log_stream s' = log_stream s @ line_bytes pre (take 95 t))"
  proof (cases "(nested \<or> in_isr) \<and> ls_head s + length pre + 100 > 256")
    case True
    then show ?thesis by (intro exI [of _ s]) (simp add: log log_room.simps)
  next
    case False
    obtain s1 where s1: "log_room dma rest (nested \<or> in_isr) in_isr (length pre) s = Some (Some s1)" "log_ok s1"
        "log_stream s1 = log_stream s" "ls_head s1 + length pre + 100 \<le> 256"
      using False log_room_result [OF assms(2,1) lp(1) guard, of dma] assms(1)
      by (cases "nested \<or> in_isr") (auto simp: log_room.simps)
    let ?s2 = "log_line pre (take 95 t) s1"
    have 2: "log_ok ?s2" "log_stream ?s2 = log_stream s @ line_bytes pre (take 95 t)"
      using log_line_ok [OF s1(2,4) _ z] s1(3) by simp_all
    show ?thesis
      using False 2 v_log_flush_ok [OF 2(1), of dma] s1(1) by (auto simp: log Let_def)
  qed
  then show ?thesis using ts(2) unfolding pre_def by blast
qed

text \<open>
  Claim C37. On a console whose transfers end by themselves, each after at most 2000000 polls,
  \<open>v_log_drain\<close> returns with both buffers empty and no transfer running, and the hardware has then been
  given the whole log, in order: its 4000000 polls cover the two transfers that can be needed. When
  a transfer does not end for that long, \<open>v_log_drain\<close> gives up after exactly those polls and has
  changed nothing.
\<close>

theorem v_log_drain_delivers:
  assumes "log_ok s" "settles m rest" "m \<le> 2000000"
  shows "concat (con_out (sy_con (ls_sys (v_log_drain dma rest s)))) = log_stream s \<and>
    ls_head (v_log_drain dma rest s) = 0 \<and> ls_to_read (v_log_drain dma rest s) = 0 \<and> \<not> ls_lock (v_log_drain dma rest s) \<and>
    ((\<forall>i < 4000000. ls_lock ((stuck ^^ i) s')) \<longrightarrow> v_log_drain dma stuck s' = (stuck ^^ 4000000) s')"
proof -
  have "2 * m \<le> 4000000" using assms(3) by simp
  note e = log_drain_empties [OF assms(2,1) this, of dma]
  have "v_log_drain dma stuck s' = (stuck ^^ 4000000) s'" if "\<forall>i < 4000000. ls_lock ((stuck ^^ i) s')"
    unfolding v_log_drain_def by (rule log_drain_gives_up) (use that in blast)
  then show ?thesis using e by (simp only: v_log_drain_def log_idle_def) blast
qed

text \<open>A console that is slower than one poll: a transfer ends at the next tick that is a multiple of 5.\<close>

definition slow_dma :: "'i lsys \<Rightarrow> 'i lsys" where
  "slow_dma s =
     (let y = ls_sys s;
          s = s\<lparr>ls_sys := y\<lparr>sy_k := (sy_k y)\<lparr>ticks := ticks (sy_k y) + 1\<rparr>\<rparr>\<rparr>
      in if ticks (sy_k (ls_sys s)) mod 5 = 0 then dma_done s else s)"

lemma slow_dma_turn:
  assumes "log_ok s"
  shows "log_ok (slow_dma s)" "log_stream (slow_dma s) = log_stream s" "ls_to_read (slow_dma s) = ls_to_read s"
    "ls_head (slow_dma s) = ls_head s" "scheduler_running (sy_k (ls_sys (slow_dma s))) = scheduler_running (sy_k (ls_sys s))"
    "ticks (sy_k (ls_sys (slow_dma s))) = Suc (ticks (sy_k (ls_sys s)))"
    "Suc (ticks (sy_k (ls_sys s))) mod 5 = 0 \<Longrightarrow> \<not> ls_lock (slow_dma s)"
proof -
  let ?y = "ls_sys s"
  let ?s = "s\<lparr>ls_sys := ?y\<lparr>sy_k := (sy_k ?y)\<lparr>ticks := Suc (ticks (sy_k ?y))\<rparr>\<rparr>\<rparr>"
  have e: "slow_dma s = (if Suc (ticks (sy_k ?y)) mod 5 = 0 then dma_done ?s else ?s)" by (simp add: slow_dma_def Let_def)
  have ok: "log_ok ?s" using assms by (cases s) (simp add: log_ok_def)
  have st: "log_stream ?s = log_stream s" by (cases "ls_dma s") (auto simp: log_stream_def)
  have h: "ls_head (dma_done t) = ls_head t" for t :: "'a lsys"
    by (auto simp: dma_done_def dma_tx_complete_callback_def hw_put_def Let_def split: option.splits)
  note d = dma_done_ok [OF ok]
  show "log_ok (slow_dma s)" "log_stream (slow_dma s) = log_stream s" "ls_to_read (slow_dma s) = ls_to_read s"
    "ls_head (slow_dma s) = ls_head s" "scheduler_running (sy_k (ls_sys (slow_dma s))) = scheduler_running (sy_k ?y)"
    "ticks (sy_k (ls_sys (slow_dma s))) = Suc (ticks (sy_k ?y))"
    "Suc (ticks (sy_k ?y)) mod 5 = 0 \<Longrightarrow> \<not> ls_lock (slow_dma s)"
    using ok st d h unfolding e by simp_all
qed

lemma slow_dma_turns:
  assumes "log_ok s"
  shows "log_ok ((slow_dma ^^ i) s) \<and> ticks (sy_k (ls_sys ((slow_dma ^^ i) s))) = ticks (sy_k (ls_sys s)) + i"
proof (induction i)
  case (Suc i)
  then have ok: "log_ok ((slow_dma ^^ i) s)" by blast
  show ?case using Suc slow_dma_turn(1,6) [OF ok] by simp
qed (simp add: assms)

lemma settles_slow_dma: "settles 5 slow_dma"
  unfolding settles_def
proof (intro allI impI conjI)
  fix s :: "'a lsys"
  assume ok: "log_ok s"
  obtain j where j: "Suc (ticks (sy_k (ls_sys s)) + j) mod 5 = 0" "j \<le> 4"
    by (rule that [of "4 - ticks (sy_k (ls_sys s)) mod 5"]) presburger+
  note t = slow_dma_turns [OF ok, of j]
  have "\<not> ls_lock ((slow_dma ^^ Suc j) s)" using slow_dma_turn(7) [of "(slow_dma ^^ j) s"] t j(1) by simp
  then show "\<exists>j. 0 < j \<and> j \<le> 5 \<and> \<not> ls_lock ((slow_dma ^^ j) s)" using j(2) by (intro exI [of _ "Suc j"]) simp
qed (simp_all add: slow_dma_turn)

text \<open>The sample system with empty log buffers, before the scheduler starts.\<close>

definition logging_sys :: "seglist lsys" where
  "logging_sys = \<lparr>ls_sys = sample_sys\<lparr>sy_k := ipc_kernel\<lparr>scheduler_running := False, ticks := 42\<rparr>\<rparr>,
     ls_store = (\<lambda>_. replicate 256 0), ls_writing = False, ls_reading = True, ls_head = 0, ls_lock = False,
     ls_to_read = 0, ls_dma = None, ls_level = 1\<rparr>"

lemma logging_ok: "log_ok logging_sys" "log_stream logging_sys = []"
  by (simp_all add: logging_sys_def log_ok_def log_stream_def sample_sys_def sample_con_def)

text \<open>The same with three bytes in a transfer that is running and 200 bytes that wait: no room for another line.\<close>

definition busy_sys :: "seglist lsys" where
  "busy_sys = logging_sys\<lparr>ls_store := (\<lambda>b. if b then [104, 105, 10] @ replicate 253 0 else replicate 200 65 @ replicate 56 0),
     ls_head := 200, ls_lock := True, ls_dma := Some (True, 3)\<rparr>"

lemma busy_ok: "log_ok busy_sys" "log_stream busy_sys = [104, 105, 10] @ replicate 200 65"
  by (simp_all add: busy_sys_def logging_sys_def log_ok_def log_stream_def sample_sys_def sample_con_def text_ok_def
      nth_append)

theorem v_log_appends_line_witness:
  "\<exists>ts pre s'. digits_val 10 ts = 42 \<and> pre = log_color 2 @ ''['' @ log_name 2 @ '' '' @ ts @ '']'' @ CHR 0x1B # ''[0m '' \<and>
    v_log True slow_dma sample_dbl ''ALL'' 0 False False 2 ''[NET] up'' [] busy_sys = Inr s' \<and>
    log_ok s' \<and> log_stream s' = ([104, 105, 10] @ replicate 200 65) @ line_bytes pre ''[NET] up''"
proof -
  have f: "fmt_text sample_dbl ''[NET] up'' [] None = Inr ''[NET] up''" by simp
  have m: "module_allowed ''ALL'' (Some ''[NET] up'')" by (simp add: module_allowed_def numeral_eq_Suc)
  have k: "\<not> log_stack_low 0 (sy_k (ls_sys busy_sys))" "ls_level busy_sys \<le> 2" "ticks (sy_k (ls_sys busy_sys)) = 42"
    by (simp_all add: log_stack_low_def busy_sys_def logging_sys_def)
  have g: "5 \<le> (if scheduler_running (sy_k (ls_sys busy_sys)) \<and> \<not> False then 1000 else 10000000 :: nat)" by simp
  have z: "CHR 0x00 \<notin> set ''[NET] up''" "(42 :: nat) < 2 ^ 32" by simp_all
  show ?thesis
    using v_log_appends_line [OF busy_ok(1) settles_slow_dma k(1,2) m _ f z(1) g, of True False, unfolded k(3) busy_ok(2), OF z(2)]
    by (simp only: simp_thms if_False) simp
qed

theorem v_log_drain_delivers_witness:
  "concat (con_out (sy_con (ls_sys (v_log_drain True slow_dma busy_sys)))) = [104, 105, 10] @ replicate 200 65 \<and>
    ls_head (v_log_drain True slow_dma busy_sys) = 0 \<and> ls_to_read (v_log_drain True slow_dma busy_sys) = 0 \<and>
    \<not> ls_lock (v_log_drain True slow_dma busy_sys) \<and> v_log_drain True id busy_sys = busy_sys"
proof -
  have "ls_lock ((id ^^ i) busy_sys)" for i by (simp add: busy_sys_def)
  moreover have "(5 :: nat) \<le> 2000000" by simp
  ultimately show ?thesis
    using v_log_drain_delivers [OF busy_ok(1) settles_slow_dma, of True id busy_sys] unfolding busy_ok(2) id_funpow id_apply by blast
qed

end
