(* ===== verification/Spec2Isabelle.thy ===== *)
theory Spec2Isabelle
  imports Spsc_Fifo Tlsf_Properties Sched_Properties Ipc_Properties Text_Properties
begin

text \<open>
  A verification development of VaiOS, a real-time kernel in C for Cortex-M4.
\<close>

end
